(* ===== verification/Go_Prelude.thy ===== *)
theory Go_Prelude
  imports Complex_Main "HOL-Library.AList" "HOL-Library.Word" "HOL-Library.Multiset"
    "HOL-Library.Monad_Syntax"
begin

text \<open>
  Shared ground of the development: the Go notions every component uses (instants, durations,
  clock readings, 64-bit wrap-around, maps as association lists, panics as \<open>None\<close>), the
  named collections of rewrite rules, and the generic lemmas on association lists, decimal
  numerals and rounding that the component theories build on.
\<close>

named_theorems go_alist "lookup after update and delete in association lists"
named_theorems go_clock "readings of a delayed clock"

subsection \<open>Time\<close>

text \<open>
  An instant is a number of nanoseconds since the Unix epoch and a \<open>time.Duration\<close> a number of
  nanoseconds. A call that reads \<open>time.Now()\<close> several times takes a clock: the \<open>i\<close>-th reading
  of the call is \<open>ck i\<close>. A callee gets the caller's clock from a later reading on.
\<close>

type_synonym time = int
type_synonym duration = int
type_synonym clock = "nat \<Rightarrow> time"

definition nanosecond :: duration where "nanosecond = 1"
definition millisecond :: duration where "millisecond = 1000000"
definition second :: duration where "second = 1000000000"

text \<open>The zero \<open>time.Time\<close>, January 1 of year 1, on which \<open>IsZero\<close> holds.\<close>

definition zero_time :: time where
  "zero_time = - 62135596800000000000"

definition later :: "nat \<Rightarrow> clock \<Rightarrow> clock" where
  "later k ck = (\<lambda>i. ck (k + i))"

lemma later_apply [go_clock, simp]: "later k ck i = ck (k + i)"
  by (simp add: later_def)

lemma later_later [go_clock, simp]: "later k (later j ck) = later (j + k) ck"
  by (simp add: later_def add.assoc)

lemma mono_later [intro]: "mono ck \<Longrightarrow> mono (later k ck)"
  by (auto simp: mono_def)

text \<open>A clock that advances by a nanosecond at every reading, for concrete runs.\<close>

definition ex_clock :: "time \<Rightarrow> clock" where "ex_clock t = (\<lambda>i. t + int i)"

lemma mono_ex_clock [simp]: "mono (ex_clock t)"
  by (simp add: ex_clock_def mono_def)

subsection \<open>Machine integers\<close>

text \<open>Go's \<open>int\<close> and \<open>int64\<close> are two's complement of 64 bits on the platforms the image targets.\<close>

definition wrap64 :: "int \<Rightarrow> int" where
  "wrap64 n = (n + 2 ^ 63) mod 2 ^ 64 - 2 ^ 63"

definition in_int64 :: "int \<Rightarrow> bool" where
  "in_int64 n \<longleftrightarrow> - (2 ^ 63) \<le> n \<and> n < 2 ^ 63"

lemma wrap64_id: "in_int64 n \<Longrightarrow> wrap64 n = n"
  by (simp add: wrap64_def in_int64_def)

lemma wrap64_range: "in_int64 (wrap64 n)"
proof -
  have "0 \<le> (n + 2 ^ 63) mod 2 ^ 64" and "(n + 2 ^ 63) mod 2 ^ 64 < (2 ^ 64 :: int)"
    by simp_all
  then show ?thesis by (simp add: wrap64_def in_int64_def)
qed

subsection \<open>Maps as association lists\<close>

text \<open>
  A Go map is an association list with distinct keys: lookup is \<open>map_of\<close>, assignment is
  \<open>AList.update\<close>, \<open>delete\<close> is \<open>AList.delete\<close>. Go leaves the order in which a map is ranged
  over unspecified; an operation that ranges over a map takes a function that reorders its
  entries, constrained only by \<open>reorders\<close>.
\<close>

type_synonym ('k, 'v) gomap = "('k \<times> 'v) list"

definition wf_map :: "('k, 'v) gomap \<Rightarrow> bool" where
  "wf_map m \<longleftrightarrow> distinct (map fst m)"

definition reorders :: "('a list \<Rightarrow> 'a list) \<Rightarrow> bool" where
  "reorders iter \<longleftrightarrow> (\<forall>xs. mset (iter xs) = mset xs)"

lemma reorders_id [simp]: "reorders (\<lambda>xs. xs)"
  by (simp add: reorders_def)

lemma reorders_rev [simp]: "reorders rev"
  by (simp add: reorders_def)

lemma reorders_set: "reorders iter \<Longrightarrow> set (iter xs) = set xs"
  by (metis reorders_def set_mset_mset)

lemma reorders_length: "reorders iter \<Longrightarrow> length (iter xs) = length xs"
  by (metis reorders_def size_mset)

lemma map_of_update [go_alist, simp]:
  "map_of (AList.update k v m) k' = (if k' = k then Some v else map_of m k')"
  by (simp add: AList.update_conv')

lemma map_of_delete_if [go_alist]:
  "map_of (AList.delete k m) k' = (if k' = k then None else map_of m k')"
  by (simp add: AList.delete_conv')

lemma wf_map_Nil [simp, intro!]: "wf_map []"
  by (simp add: wf_map_def)

lemma wf_map_update [intro]: "wf_map m \<Longrightarrow> wf_map (AList.update k v m)"
  by (simp add: wf_map_def AList.distinct_update)

lemma wf_map_delete [intro]: "wf_map m \<Longrightarrow> wf_map (AList.delete k m)"
  by (simp add: wf_map_def AList.distinct_delete)

lemma wf_map_in_set: "wf_map m \<Longrightarrow> (k, v) \<in> set m \<longleftrightarrow> map_of m k = Some v"
  by (simp add: wf_map_def)

lemma length_update_new: "map_of m k = None \<Longrightarrow> length (AList.update k v m) = Suc (length m)"
  by (induction m) (auto split: if_splits)

lemma length_update_old: "map_of m k \<noteq> None \<Longrightarrow> length (AList.update k v m) = length m"
  by (induction m) (auto split: if_splits)

lemma find_SomeD: "find P xs = Some x \<Longrightarrow> x \<in> set xs \<and> P x"
  by (auto simp: find_Some_iff)

lemma map_of_rev_distinct:
  assumes "distinct (map fst xs)"
  shows "map_of (rev xs) = map_of xs"
proof
  fix k
  have d: "distinct (map fst (rev xs))" using assms by (simp add: rev_map [symmetric])
  have "map_of (rev xs) k = Some v \<longleftrightarrow> map_of xs k = Some v" for v
    using map_of_eq_Some_iff [OF assms, of k v] map_of_eq_Some_iff [OF d, of k v] by simp
  then show "map_of (rev xs) k = map_of xs k" by (metis not_Some_eq)
qed

text \<open>A map whose values are stored under a key of their own.\<close>

definition keyed :: "('v \<Rightarrow> 'k) \<Rightarrow> ('k, 'v) gomap \<Rightarrow> bool" where
  "keyed f m \<longleftrightarrow> list_all (\<lambda>(k, v). f v = k) m"

lemma keyed_Nil [simp]: "keyed f []"
  by (simp add: keyed_def)

lemma keyed_map_of: "keyed f m \<Longrightarrow> map_of m k = Some v \<Longrightarrow> f v = k"
  by (auto simp: keyed_def list_all_iff dest: map_of_SomeD)

lemma keyed_update: "keyed f m \<Longrightarrow> f v = k \<Longrightarrow> keyed f (AList.update k v m)"
  by (induction m) (auto simp: keyed_def)

lemma keyed_keys: "keyed f m \<Longrightarrow> map f (map snd m) = map fst m"
  by (induction m) (auto simp: keyed_def)

subsection \<open>Decimal numerals\<close>

definition digit_char :: "nat \<Rightarrow> char" where
  "digit_char d = char_of (48 + d)"

definition char_digit :: "char \<Rightarrow> nat option" where
  "char_digit c = (let n = of_char c in if 48 \<le> n \<and> n < 58 then Some (n - 48) else None)"

lemma char_digit_digit_char [simp]: "d < 10 \<Longrightarrow> char_digit (digit_char d) = Some d"
  by (simp add: char_digit_def digit_char_def Let_def)

fun show_nat :: "nat \<Rightarrow> string" where
  "show_nat n = (if n < 10 then [digit_char n] else show_nat (n div 10) @ [digit_char (n mod 10)])"

declare show_nat.simps [simp del]

fun read_digits :: "nat \<Rightarrow> string \<Rightarrow> nat option" where
  "read_digits acc [] = Some acc"
| "read_digits acc (c # cs) =
     (case char_digit c of None \<Rightarrow> None | Some d \<Rightarrow> read_digits (10 * acc + d) cs)"

definition read_nat :: "string \<Rightarrow> nat option" where
  "read_nat cs = (if cs = [] then None else read_digits 0 cs)"

lemma read_digits_append:
  "read_digits acc (xs @ ys) =
     (case read_digits acc xs of None \<Rightarrow> None | Some a \<Rightarrow> read_digits a ys)"
  by (induction xs arbitrary: acc) (auto split: option.splits)

lemma show_nat_not_Nil [simp]: "show_nat n \<noteq> []"
  by (subst show_nat.simps) simp

lemma read_digits_show_nat: "read_digits 0 (show_nat n) = Some n"
proof (induction n rule: show_nat.induct)
  case (1 n)
  show ?case
  proof (cases "n < 10")
    case True
    then show ?thesis by (subst show_nat.simps) simp
  next
    case False
    with "1.IH" have "read_digits 0 (show_nat (n div 10)) = Some (n div 10)" by simp
    with False show ?thesis by (subst show_nat.simps) (simp add: read_digits_append)
  qed
qed

lemma read_nat_show_nat [simp]: "read_nat (show_nat n) = Some n"
  by (simp add: read_nat_def read_digits_show_nat)

lemma show_nat_digits: "c \<in> set (show_nat n) \<Longrightarrow> \<exists>d < 10. c = digit_char d"
proof (induction n rule: show_nat.induct)
  case (1 n)
  show ?case
  proof (cases "n < 10")
    case True
    with "1.prems" show ?thesis by (subst (asm) show_nat.simps) auto
  next
    case False
    with "1.prems" have "c \<in> set (show_nat (n div 10)) \<or> c = digit_char (n mod 10)"
      by (subst (asm) show_nat.simps) auto
    moreover have "n mod 10 < 10" by simp
    ultimately show ?thesis using "1.IH" False by blast
  qed
qed

subsection \<open>Rounding half away from zero\<close>

text \<open>
  The rounding the decimal package documents for \<open>Round\<close> and \<open>DivRound\<close>: to the nearest
  multiple of \<open>10 ^ (- p)\<close>, a tie going away from zero.
\<close>

definition round_away :: "rat \<Rightarrow> int" where
  "round_away x = (if 0 \<le> x then \<lfloor>x + 1 / 2\<rfloor> else \<lceil>x - 1 / 2\<rceil>)"

definition round_places :: "nat \<Rightarrow> rat \<Rightarrow> rat" where
  "round_places p x = of_int (round_away (x * 10 ^ p)) / 10 ^ p"

definition trunc_rat :: "rat \<Rightarrow> int" where
  "trunc_rat x = (if 0 \<le> x then \<lfloor>x\<rfloor> else \<lceil>x\<rceil>)"

lemma round_away_int [simp]: "round_away (of_int n) = n"
  by (auto simp: round_away_def floor_eq_iff ceiling_eq_iff)

lemma round_away_error: "\<bar>of_int (round_away x) - x\<bar> \<le> 1 / 2"
  unfolding round_away_def abs_le_iff by (simp split: if_splits) linarith

lemma round_away_nonneg: "0 \<le> x \<Longrightarrow> 0 \<le> round_away x"
  by (simp add: round_away_def)

lemma round_places_error: "\<bar>round_places p x - x\<bar> \<le> 1 / (2 * 10 ^ p)"
proof -
  have "round_places p x - x = (of_int (round_away (x * 10 ^ p)) - x * 10 ^ p) / 10 ^ p"
    by (simp add: round_places_def diff_divide_distrib)
  then have "\<bar>round_places p x - x\<bar> =
      \<bar>of_int (round_away (x * 10 ^ p)) - x * 10 ^ p\<bar> / 10 ^ p"
    by (simp add: abs_divide)
  also have "\<dots> \<le> (1 / 2) / 10 ^ p"
    by (intro divide_right_mono round_away_error) simp
  finally show ?thesis by simp
qed

lemma round_places_nonneg: "0 \<le> x \<Longrightarrow> 0 \<le> round_places p x"
  by (simp add: round_places_def round_away_nonneg)

lemma round_places_exact: "x * 10 ^ p = of_int n \<Longrightarrow> round_places p x = x"
  by (simp add: round_places_def nonzero_divide_eq_eq [symmetric] divide_eq_eq)

end
