(* ===== verification/Tracing.thy ===== *)
theory Tracing
  imports Go_Prelude
begin

text \<open>
  \<open>internal/tracing.go\<close>: the recording tracer and its spans. A span is an object shared between the tracer
  and the code that started it; it is referred to by its position in the tracer's list. Attribute
  values are of an abstract type. The no-op tracer changes nothing.
\<close>

record 'v recordingSpan =
  sn_name :: string
  sn_attrs :: "(string, 'v) gomap"
  sn_events :: "string list"
  sn_startedAt :: time
  sn_endedAt :: time

record 'v recordingTracer =
  tr_spans :: "'v recordingSpan list"

datatype 'v Tracer = NoopTracer | Recording "'v recordingTracer"

datatype Span = NoopSpan | RecordingSpan nat

definition noopTracer_Start :: "string \<Rightarrow> Span" where
  "noopTracer_Start name = NoopSpan"

text \<open>The tracer of the service, and its replacement.\<close>

definition globalTracer :: "'v Tracer" where
  "globalTracer = NoopTracer"

definition setTracer :: "'v Tracer \<Rightarrow> 'v Tracer \<Rightarrow> 'v Tracer" where
  "setTracer t g = t"

definition recordingTracer_Start :: "clock \<Rightarrow> string \<Rightarrow> 'v recordingTracer \<Rightarrow> Span \<times> 'v recordingTracer" where
  "recordingTracer_Start ck name t =
     (RecordingSpan (length (tr_spans t)),
      t\<lparr>tr_spans := tr_spans t @ [\<lparr>sn_name = name, sn_attrs = [], sn_events = [], sn_startedAt = ck 0,
        sn_endedAt = zero_time\<rparr>]\<rparr>)"

definition on_span :: "('v recordingSpan \<Rightarrow> 'v recordingSpan) \<Rightarrow> Span \<Rightarrow> 'v recordingTracer \<Rightarrow> 'v recordingTracer" where
  "on_span f sp t =
     (case sp of
        NoopSpan \<Rightarrow> t
      | RecordingSpan i \<Rightarrow> t\<lparr>tr_spans := (tr_spans t)[i := f (tr_spans t ! i)]\<rparr>)"

definition span_End :: "clock \<Rightarrow> Span \<Rightarrow> 'v recordingTracer \<Rightarrow> 'v recordingTracer" where
  "span_End ck = on_span (\<lambda>s. s\<lparr>sn_endedAt := ck 0\<rparr>)"

definition span_SetAttribute :: "string \<Rightarrow> 'v \<Rightarrow> Span \<Rightarrow> 'v recordingTracer \<Rightarrow> 'v recordingTracer" where
  "span_SetAttribute k v = on_span (\<lambda>s. s\<lparr>sn_attrs := AList.update k v (sn_attrs s)\<rparr>)"

definition span_AddEvent :: "string \<Rightarrow> Span \<Rightarrow> 'v recordingTracer \<Rightarrow> 'v recordingTracer" where
  "span_AddEvent name = on_span (\<lambda>s. s\<lparr>sn_events := sn_events s @ [name]\<rparr>)"

definition spansSnapshot :: "'v recordingTracer \<Rightarrow> 'v recordingSpan list" where
  "spansSnapshot t = tr_spans t"

definition startSpan :: "clock \<Rightarrow> string \<Rightarrow> 'v Tracer \<Rightarrow> Span \<times> 'v Tracer" where
  "startSpan ck name g =
     (case g of
        NoopTracer \<Rightarrow> (noopTracer_Start name, NoopTracer)
      | Recording t \<Rightarrow> (case recordingTracer_Start ck name t of (sp, t') \<Rightarrow> (sp, Recording t')))"

text \<open>With the tracer the service starts with, spans record nothing.\<close>

lemma default_tracer_records_nothing:
  "startSpan ck name globalTracer = (NoopSpan, globalTracer)" "on_span f NoopSpan t = t"
  by (simp_all add: startSpan_def globalTracer_def noopTracer_Start_def on_span_def)

text \<open>Spans stay in the order they were started, and work on one span leaves the others alone.\<close>

lemma on_span_spans:
  assumes "j < length (tr_spans t)"
  shows "tr_spans (on_span f (RecordingSpan i) t) ! j =
      (if j = i then f (tr_spans t ! j) else tr_spans t ! j)"
    and "length (tr_spans (on_span f sp t)) = length (tr_spans t)"
  using assms by (auto simp: on_span_def nth_list_update split: Span.split)

lemma on_span_names:
  assumes "\<And>s. sn_name (f s) = sn_name s"
  shows "map sn_name (spansSnapshot (on_span f sp t)) = map sn_name (spansSnapshot t)"
proof (cases sp)
  case (RecordingSpan i)
  show ?thesis
    unfolding RecordingSpan by (rule nth_equalityI) (simp_all add: on_span_def spansSnapshot_def, metis assms nth_list_update_eq nth_list_update_neq)
qed (simp add: on_span_def)

lemma span_work_keeps_names:
  "map sn_name (spansSnapshot (span_End ck sp t)) = map sn_name (spansSnapshot t)"
  "map sn_name (spansSnapshot (span_SetAttribute k v sp t)) = map sn_name (spansSnapshot t)"
  "map sn_name (spansSnapshot (span_AddEvent n sp t)) = map sn_name (spansSnapshot t)"
  by (simp_all add: span_End_def span_SetAttribute_def span_AddEvent_def on_span_names)

end
