(* ===== verification/Go_Strings.thy ===== *)
theory Go_Strings
  imports Go_Prelude
begin

text \<open>
  The functions of Go's \<open>strings\<close> and \<open>strconv\<close> packages that the source calls, on byte strings.
  \<open>ToUpper\<close> and \<open>ToLower\<close> are modelled on the ASCII letters (the bytes of other characters are kept).
\<close>

section \<open>Prefixes, indexes and splitting\<close>

definition HasPrefix :: "string \<Rightarrow> string \<Rightarrow> bool" where
  "HasPrefix s p \<longleftrightarrow> take (length p) s = p"

definition TrimPrefix :: "string \<Rightarrow> string \<Rightarrow> string" where
  "TrimPrefix s p = (if HasPrefix s p then drop (length p) s else s)"

fun IndexByte :: "string \<Rightarrow> char \<Rightarrow> nat option" where
  "IndexByte [] c = None"
| "IndexByte (x # xs) c = (if x = c then Some 0 else map_option Suc (IndexByte xs c))"

text \<open>
  \<open>strings.SplitN\<close> with a separator of one byte: no parts for \<open>n = 0\<close>, at most \<open>n\<close> parts for
  \<open>n > 0\<close> (the last one the unsplit rest), all of them for \<open>n < 0\<close>.
\<close>

fun split_all :: "char \<Rightarrow> string \<Rightarrow> string list" where
  "split_all c [] = [[]]"
| "split_all c (x # xs) =
     (if x = c then [] # split_all c xs
      else case split_all c xs of [] \<Rightarrow> [[x]] | p # ps \<Rightarrow> (x # p) # ps)"

fun split_upto :: "nat \<Rightarrow> char \<Rightarrow> string \<Rightarrow> string list" where
  "split_upto 0 c s = []"
| "split_upto (Suc 0) c s = [s]"
| "split_upto (Suc (Suc k)) c s =
     (case IndexByte s c of
        None \<Rightarrow> [s]
      | Some i \<Rightarrow> take i s # split_upto (Suc k) c (drop (Suc i) s))"

definition SplitN :: "string \<Rightarrow> char \<Rightarrow> int \<Rightarrow> string list" where
  "SplitN s c n = (if n < 0 then split_all c s else split_upto (nat n) c s)"

lemma split_upto_append_free:
  assumes "c \<notin> set u"
  shows "IndexByte (u @ c # v) c = Some (length u)"
  using assms by (induction u) auto

lemma IndexByte_None_iff: "IndexByte s c = None \<longleftrightarrow> c \<notin> set s"
  by (induction s) auto

lemma SplitN_two_free: "c \<notin> set u \<Longrightarrow> SplitN (u @ c # v) c 2 = [u, v]"
  by (simp add: SplitN_def split_upto_append_free numeral_eq_Suc)

lemma SplitN_two_none: "c \<notin> set u \<Longrightarrow> SplitN u c 2 = [u]"
  by (simp add: SplitN_def IndexByte_None_iff [THEN iffD2] numeral_eq_Suc)

section \<open>Case and white space\<close>

definition upper_char :: "char \<Rightarrow> char" where
  "upper_char c = (let n = of_char c in if 97 \<le> n \<and> n \<le> (122::nat) then char_of (n - 32) else c)"

definition lower_char :: "char \<Rightarrow> char" where
  "lower_char c = (let n = of_char c in if 65 \<le> n \<and> n \<le> (90::nat) then char_of (n + 32) else c)"

definition ToUpper :: "string \<Rightarrow> string" where "ToUpper = map upper_char"
definition ToLower :: "string \<Rightarrow> string" where "ToLower = map lower_char"

text \<open>
  \<open>strings.TrimSpace\<close> removes the white space of Unicode; these are the UTF-8 encodings of it.
\<close>

definition bytes :: "nat list \<Rightarrow> string" where "bytes = map char_of"

definition space_codes :: "nat list list" where
  "space_codes =
     [[9], [10], [11], [12], [13], [32], [194, 133], [194, 160], [225, 154, 128]]
     @ map (\<lambda>b. [226, 128, b]) [128..<139]
     @ [[226, 128, 168], [226, 128, 169], [226, 128, 175], [226, 129, 159], [227, 128, 128]]"

definition space_seqs :: "string list" where
  "space_seqs = map bytes space_codes"

fun strip_one :: "string list \<Rightarrow> string \<Rightarrow> string option" where
  "strip_one [] s = None"
| "strip_one (p # ps) s = (if HasPrefix s p then Some (drop (length p) s) else strip_one ps s)"

fun trim_left_with :: "string list \<Rightarrow> nat \<Rightarrow> string \<Rightarrow> string" where
  "trim_left_with ps 0 s = s"
| "trim_left_with ps (Suc k) s =
     (case strip_one ps s of None \<Rightarrow> s | Some s' \<Rightarrow> trim_left_with ps k s')"

text \<open>Each round removes at least one byte, so as many rounds as bytes are enough.\<close>

definition TrimSpace :: "string \<Rightarrow> string" where
  "TrimSpace s =
     (let l = trim_left_with space_seqs (length s) s
      in rev (trim_left_with (map rev space_seqs) (length l) (rev l)))"

text \<open>A string of printable ASCII without blanks is not trimmed.\<close>

definition graph_ascii :: "string \<Rightarrow> bool" where
  "graph_ascii s \<longleftrightarrow> (\<forall>c \<in> set s. 33 \<le> (of_char c :: nat) \<and> (of_char c :: nat) \<le> 126)"

lemma strip_one_None: "(\<forall>p \<in> set ps. p \<noteq> [] \<and> hd p \<noteq> c) \<Longrightarrow> strip_one ps (c # cs) = None"
  by (induction ps) (auto simp: HasPrefix_def neq_Nil_conv)

lemma trim_left_with_None: "strip_one ps s = None \<Longrightarrow> trim_left_with ps k s = s"
  by (cases k) simp_all

lemma space_codes_ends:
  "\<forall>ns \<in> set space_codes. ns \<noteq> [] \<and> (hd ns < 33 \<or> 126 < hd ns) \<and> (last ns < 33 \<or> 126 < last ns) \<and>
     hd ns < 256 \<and> last ns < 256"
  by (simp add: space_codes_def)

lemma space_seqs_heads:
  "\<forall>p \<in> set (space_seqs @ map rev space_seqs). p \<noteq> [] \<and>
     ((of_char (hd p) :: nat) < 33 \<or> 126 < (of_char (hd p) :: nat))"
  using space_codes_ends by (auto simp: space_seqs_def bytes_def hd_map hd_rev last_map)

lemma strip_graph:
  assumes "graph_ascii s" and "set ps \<subseteq> set (space_seqs @ map rev space_seqs)"
  shows "strip_one ps s = None"
proof -
  have heads: "p \<noteq> [] \<and> \<not> (33 \<le> (of_char (hd p) :: nat) \<and> (of_char (hd p) :: nat) \<le> 126)" if "p \<in> set ps" for p
    using bspec [OF space_seqs_heads subsetD [OF assms(2) that]] by linarith
  show ?thesis
  proof (cases s)
    case Nil
    have "strip_one qs [] = None" if "\<forall>p \<in> set qs. p \<noteq> []" for qs
      using that by (induction qs) (auto simp: HasPrefix_def)
    from this [of ps] heads show ?thesis unfolding Nil by blast
  next
    case (Cons c cs)
    have c: "33 \<le> (of_char c :: nat) \<and> (of_char c :: nat) \<le> 126"
      using assms(1) by (simp add: graph_ascii_def Cons)
    have "p \<noteq> [] \<and> hd p \<noteq> c" if "p \<in> set ps" for p
    proof
      show "p \<noteq> []" using heads [OF that] by (rule conjunct1)
      show "hd p \<noteq> c"
      proof
        assume "hd p = c"
        with heads [OF that] c show False by (simp only: simp_thms)
      qed
    qed
    then show ?thesis unfolding Cons by (intro strip_one_None ballI)
  qed
qed

lemma trim_graph:
  assumes "graph_ascii s"
  shows "trim_left_with space_seqs k s = s" "trim_left_with (map rev space_seqs) k s = s"
  by (rule trim_left_with_None, rule strip_graph [OF assms], simp)+

lemma TrimSpace_graph: "graph_ascii s \<Longrightarrow> TrimSpace s = s"
  using trim_graph(2) [of "rev s"] by (simp add: TrimSpace_def trim_graph(1)) (simp add: graph_ascii_def)

text \<open>\<open>strings.TrimRight\<close> with a cutset of one byte.\<close>

definition TrimRightByte :: "string \<Rightarrow> char \<Rightarrow> string" where
  "TrimRightByte s c = rev (dropWhile (\<lambda>x. x = c) (rev s))"

section \<open>Atoi\<close>

text \<open>
  \<open>strconv.Atoi\<close>: an optional sign and at least one decimal digit, nothing else; an error outside
  the range of a 64-bit \<open>int\<close>.
\<close>

definition Atoi :: "string \<Rightarrow> int option" where
  "Atoi s =
     (let (neg, ds) = (case s of [] \<Rightarrow> (False, [])
                       | c # cs \<Rightarrow> if c = CHR ''-'' then (True, cs)
                                  else if c = CHR ''+'' then (False, cs) else (False, c # cs))
      in case read_nat ds of
           None \<Rightarrow> None
         | Some n \<Rightarrow> (let v = (if neg then - int n else int n)
                      in if in_int64 v then Some v else None))"

lemma Atoi_range: "Atoi s = Some v \<Longrightarrow> in_int64 v"
  by (auto simp: Atoi_def Let_def split: option.splits if_splits prod.splits)

lemma Atoi_show_nat:
  assumes "in_int64 (int n)"
  shows "Atoi (show_nat n) = Some (int n)"
proof -
  obtain c cs where s: "show_nat n = c # cs" by (cases "show_nat n") auto
  then obtain d where "d < 10" and c: "c = digit_char d" using show_nat_digits [of c n] by auto
  then have "char_digit c = Some d" by simp
  then have "c \<noteq> CHR ''-''" and "c \<noteq> CHR ''+''" by (auto simp: char_digit_def)
  with assms show ?thesis
    using read_nat_show_nat [of n] by (simp add: Atoi_def s Let_def)
qed

lemma Atoi_minus_show_nat:
  assumes "in_int64 (- int n)"
  shows "Atoi (CHR ''-'' # show_nat n) = Some (- int n)"
  using assms by (simp add: Atoi_def Let_def)

end
