(* ===== verification/Decimal_Interface.thy ===== *)
theory Decimal_Interface
  imports Go_Prelude
begin

text \<open>
  The package \<open>github.com/shopspring/decimal\<close>, a parameter of the model: a record of the methods
  the source calls, over an abstract representation \<open>'d\<close>, and the locale \<open>decimal_laws\<close> with their
  documented meaning through the exact rational value of a decimal. The locale is interpreted on an
  executable instance, a coefficient with a decimal scale, which the witnesses of the development
  compute with.
\<close>

section \<open>Decimals\<close>

text \<open>
  \<open>dDiv\<close> is \<open>None\<close> where the package panics (\<open>decimal division by 0\<close>); \<open>dNewFromString\<close> is
  \<open>None\<close> where it returns an error. \<open>dZeroValue\<close> is the zero value of the struct, which a
  \<open>var\<close> declaration gives; \<open>dNewFromFloat\<close> takes a finite float.
\<close>

record 'd decimal_ops =
  dZero :: 'd
  dZeroValue :: 'd
  dNewFromInt :: "int \<Rightarrow> 'd"
  dNewFromFloat :: "rat \<Rightarrow> 'd"
  dNewFromString :: "string \<Rightarrow> 'd option"
  dAdd :: "'d \<Rightarrow> 'd \<Rightarrow> 'd"
  dSub :: "'d \<Rightarrow> 'd \<Rightarrow> 'd"
  dMul :: "'d \<Rightarrow> 'd \<Rightarrow> 'd"
  dDiv :: "'d \<Rightarrow> 'd \<Rightarrow> 'd option"
  dNeg :: "'d \<Rightarrow> 'd"
  dPow :: "'d \<Rightarrow> 'd \<Rightarrow> 'd"
  dRound :: "'d \<Rightarrow> nat \<Rightarrow> 'd"
  dIntPart :: "'d \<Rightarrow> int"
  dLessThan :: "'d \<Rightarrow> 'd \<Rightarrow> bool"
  dLessThanOrEqual :: "'d \<Rightarrow> 'd \<Rightarrow> bool"
  dGreaterThan :: "'d \<Rightarrow> 'd \<Rightarrow> bool"
  dString :: "'d \<Rightarrow> string"

text \<open>
  The documented behaviour: sums, differences and products are exact; \<open>Div\<close> is rounded half away
  from zero to \<open>DivisionPrecision\<close>, 16 places; \<open>Round\<close> rounds half away from zero; \<open>Pow\<close> is
  exact on a natural exponent; \<open>IntPart\<close> is the integer component, an \<open>int64\<close>; \<open>String\<close> prints
  a numeral that \<open>NewFromString\<close> reads back.
\<close>

locale decimal_laws =
  fixes D :: "'d decimal_ops" and val :: "'d \<Rightarrow> rat"
  assumes val_Zero: "val (dZero D) = 0"
    and val_ZeroValue: "val (dZeroValue D) = 0"
    and val_NewFromInt: "val (dNewFromInt D n) = of_int n"
    and val_Add: "val (dAdd D a b) = val a + val b"
    and val_Sub: "val (dSub D a b) = val a - val b"
    and val_Mul: "val (dMul D a b) = val a * val b"
    and val_Neg: "val (dNeg D a) = - val a"
    and Div_zero: "val b = 0 \<Longrightarrow> dDiv D a b = None"
    and Div_Some: "val b \<noteq> 0 \<Longrightarrow> \<exists>q. dDiv D a b = Some q \<and> val q = round_places 16 (val a / val b)"
    and val_Pow: "val b = of_nat k \<Longrightarrow> val (dPow D a b) = val a ^ k"
    and val_Round: "val (dRound D a p) = round_places p (val a)"
    and IntPart: "in_int64 (trunc_rat (val a)) \<Longrightarrow> dIntPart D a = trunc_rat (val a)"
    and LessThan: "dLessThan D a b \<longleftrightarrow> val a < val b"
    and LessThanOrEqual: "dLessThanOrEqual D a b \<longleftrightarrow> val a \<le> val b"
    and GreaterThan: "dGreaterThan D a b \<longleftrightarrow> val b < val a"
    and String_parse: "\<exists>a'. dNewFromString D (dString D a) = Some a' \<and> val a' = val a"
begin

lemmas val_simps = val_Zero val_ZeroValue val_NewFromInt val_Add val_Sub val_Mul val_Neg
  val_Round LessThan LessThanOrEqual GreaterThan

text \<open>A quotient that fits in 16 decimal places is exact.\<close>

lemma Div_exact:
  assumes "val b \<noteq> 0" and "val a / val b * 10 ^ 16 = of_int n"
  shows "\<exists>q. dDiv D a b = Some q \<and> val q = val a / val b"
  using Div_Some [OF assms(1), of a] round_places_exact [OF assms(2)] by metis

lemma Div_bps:
  "\<exists>q. dDiv D (dNewFromInt D n) (dNewFromInt D 10000) = Some q \<and> val q = of_int n / 10000"
proof -
  have "val (dNewFromInt D 10000) \<noteq> 0"
    and "val (dNewFromInt D n) / val (dNewFromInt D 10000) * 10 ^ 16 = of_int (n * 10 ^ 12)"
    by (simp_all add: val_simps)
  from Div_exact [OF this] show ?thesis by (simp add: val_simps)
qed

lemma Div_panic_iff: "dDiv D a b = None \<longleftrightarrow> val b = 0"
  using Div_zero [of b a] Div_Some [of b a] by (cases "val b = 0") auto

end

section \<open>An executable instance: coefficient and scale\<close>

text \<open>The value \<open>(c, s)\<close> is \<open>c / 10 ^ s\<close>.\<close>

type_synonym dec10 = "int \<times> nat"

definition dec10_val :: "dec10 \<Rightarrow> rat" where
  "dec10_val d = of_int (fst d) / 10 ^ snd d"

definition rescale :: "nat \<Rightarrow> dec10 \<Rightarrow> int" where
  "rescale s d = fst d * 10 ^ (s - snd d)"

text \<open>Integer division rounded half away from zero.\<close>

definition div_away :: "int \<Rightarrow> int \<Rightarrow> int" where
  "div_away a b = sgn a * sgn b * ((2 * \<bar>a\<bar> + \<bar>b\<bar>) div (2 * \<bar>b\<bar>))"

definition dec10_round :: "dec10 \<Rightarrow> nat \<Rightarrow> dec10" where
  "dec10_round d p = (div_away (fst d * 10 ^ p) (10 ^ snd d), p)"

definition dec10_show :: "dec10 \<Rightarrow> string" where
  "dec10_show d = (if fst d < 0 then ''-'' else []) @
     (let ds = show_nat (nat \<bar>fst d\<bar>); qs = replicate (snd d + 1 - length ds) (CHR ''0'') @ ds
      in take (length qs - snd d) qs
         @ (if snd d = 0 then [] else CHR ''.'' # drop (length qs - snd d) qs))"

definition dec10_read_abs :: "string \<Rightarrow> (nat \<times> nat) option" where
  "dec10_read_abs cs =
     (let ip = takeWhile (\<lambda>c. c \<noteq> CHR ''.'') cs; fp = tl (dropWhile (\<lambda>c. c \<noteq> CHR ''.'') cs)
      in map_option (\<lambda>n. (n, length fp)) (read_nat (ip @ fp)))"

definition dec10_read :: "string \<Rightarrow> dec10 option" where
  "dec10_read cs =
     (case cs of
        [] \<Rightarrow> None
      | c # cs' \<Rightarrow>
          if c = CHR ''-'' then map_option (\<lambda>(n, s). (- int n, s)) (dec10_read_abs cs')
          else map_option (\<lambda>(n, s). (int n, s)) (dec10_read_abs (c # cs')))"

definition dec10_ops :: "dec10 decimal_ops" where
  "dec10_ops = \<lparr>
     dZero = (0, 0), dZeroValue = (0, 0),
     dNewFromInt = (\<lambda>n. (n, 0)),
     dNewFromFloat = (\<lambda>x. (round_away (x * 10 ^ 16), 16)),
     dNewFromString = dec10_read,
     dAdd = (\<lambda>a b. let s = max (snd a) (snd b) in (rescale s a + rescale s b, s)),
     dSub = (\<lambda>a b. let s = max (snd a) (snd b) in (rescale s a - rescale s b, s)),
     dMul = (\<lambda>a b. (fst a * fst b, snd a + snd b)),
     dDiv = (\<lambda>a b. if fst b = 0 then None
        else Some (div_away (fst a * 10 ^ (16 + snd b)) (fst b * 10 ^ snd a), 16)),
     dNeg = (\<lambda>a. (- fst a, snd a)),
     dPow = (\<lambda>a b. let n = nat (fst b div 10 ^ snd b) in (fst a ^ n, snd a * n)),
     dRound = dec10_round,
     dIntPart = (\<lambda>a. sgn (fst a) * (\<bar>fst a\<bar> div 10 ^ snd a)),
     dLessThan = (\<lambda>a b. let s = max (snd a) (snd b) in rescale s a < rescale s b),
     dLessThanOrEqual = (\<lambda>a b. let s = max (snd a) (snd b) in rescale s a \<le> rescale s b),
     dGreaterThan = (\<lambda>a b. let s = max (snd a) (snd b) in rescale s b < rescale s a),
     dString = dec10_show\<rparr>"

lemma rescale_val: "snd d \<le> s \<Longrightarrow> of_int (rescale s d) = dec10_val d * 10 ^ s"
  by (simp add: rescale_def dec10_val_def power_diff_conv_inverse field_simps
      flip: power_add)

lemma dec10_val_rescale: "snd d \<le> s \<Longrightarrow> dec10_val d = of_int (rescale s d) / 10 ^ s"
  by (simp add: rescale_val)

lemma rescale_less_iff:
  assumes "snd a \<le> s" "snd b \<le> s"
  shows "rescale s a < rescale s b \<longleftrightarrow> dec10_val a < dec10_val b"
proof -
  have "rescale s a < rescale s b \<longleftrightarrow> (of_int (rescale s a) :: rat) < of_int (rescale s b)"
    by simp
  also have "\<dots> \<longleftrightarrow> dec10_val a * 10 ^ s < dec10_val b * 10 ^ s"
    by (simp only: rescale_val [OF assms(1)] rescale_val [OF assms(2)])
  finally show ?thesis by simp
qed

lemma rescale_le_iff:
  assumes "snd a \<le> s" "snd b \<le> s"
  shows "rescale s a \<le> rescale s b \<longleftrightarrow> dec10_val a \<le> dec10_val b"
  using rescale_less_iff [OF assms(2) assms(1)] by (simp flip: not_less)

text \<open>Rounded integer division is rounding of the rational quotient.\<close>

lemma div_floor_half:
  assumes "0 \<le> a" "0 < b"
  shows "(2 * a + b) div (2 * b) = \<lfloor>(of_int a / of_int b + 1 / 2 :: rat)\<rfloor>"
proof -
  have "(of_int a / of_int b + 1 / 2 :: rat) = of_int (2 * a + b) / of_int (2 * b)"
    using assms by (simp add: field_simps)
  then show ?thesis
    by (simp only: floor_divide_of_int_eq)
qed

lemma round_away_minus: "round_away (- x) = - round_away x"
proof (cases "x = 0")
  case True
  then show ?thesis using round_away_int [of 0] by simp
next
  case False
  moreover have "1 / 2 - x = - (x - 1 / 2)" and "- x - 1 / 2 = - (x + 1 / 2)" by simp_all
  ultimately show ?thesis
    by (auto simp: round_away_def ceiling_def add.commute)
qed

lemma div_away_round:
  assumes "b \<noteq> 0"
  shows "div_away a b = round_away (of_int a / of_int b)"
proof -
  have pos: "(2 * \<bar>a\<bar> + \<bar>b\<bar>) div (2 * \<bar>b\<bar>) = round_away (of_int \<bar>a\<bar> / of_int \<bar>b\<bar>)"
    using div_floor_half [of "\<bar>a\<bar>" "\<bar>b\<bar>"] assms by (simp add: round_away_def)
  have q: "(of_int a / of_int b :: rat) = of_int (sgn a * sgn b) * (of_int \<bar>a\<bar> / of_int \<bar>b\<bar>)"
    by (cases "0 < a"; cases "0 < b") (auto simp: sgn_if)
  consider "sgn a * sgn b = 1" | "sgn a * sgn b = - 1" | "a = 0"
    using assms by (cases "0 < a"; cases "0 < b"; cases "a = 0") (simp_all add: sgn_if)
  then show ?thesis
  proof cases
    case 3
    then show ?thesis using round_away_int [of 0] by (simp add: div_away_def)
  qed (simp_all only: div_away_def pos q of_int_1 of_int_minus mult_1 mult_minus_left
      round_away_minus)
qed

lemma dec10_val_div_away:
  assumes "b \<noteq> 0"
  shows "dec10_val (div_away (a * 10 ^ p) b, p) = round_places p (of_int a / of_int b)"
  using div_away_round [OF assms, of "a * 10 ^ p"]
  by (simp add: dec10_val_def round_places_def)

lemma dec10_Div:
  assumes "dec10_val b \<noteq> 0"
  shows "\<exists>q. dDiv dec10_ops a b = Some q \<and> dec10_val q = round_places 16 (dec10_val a / dec10_val b)"
proof -
  from assms have b: "fst b \<noteq> 0" by (auto simp: dec10_val_def)
  have num: "fst a * 10 ^ (16 + snd b) = fst a * 10 ^ snd b * 10 ^ 16"
    by (simp only: power_add mult_ac)
  have quot: "dec10_val a / dec10_val b =
      of_int (fst a * 10 ^ snd b) / of_int (fst b * 10 ^ snd a)"
    by (simp add: dec10_val_def)
  have "dDiv dec10_ops a b =
      Some (div_away (fst a * 10 ^ snd b * 10 ^ 16) (fst b * 10 ^ snd a), 16)"
    using b by (simp add: dec10_ops_def num)
  moreover have "fst b * 10 ^ snd a \<noteq> 0" using b by simp
  ultimately show ?thesis
    using dec10_val_div_away unfolding quot by blast
qed

lemma dec10_IntPart: "sgn c * (\<bar>c\<bar> div 10 ^ s) = trunc_rat (dec10_val (c, s))"
proof -
  have fl: "\<bar>c\<bar> div 10 ^ s = \<lfloor>(of_int \<bar>c\<bar> / of_int (10 ^ s) :: rat)\<rfloor>"
    by (simp only: floor_divide_of_int_eq)
  show ?thesis
  proof (cases "0 \<le> c")
    case True
    with fl show ?thesis by (cases "c = 0") (simp_all add: trunc_rat_def dec10_val_def)
  next
    case False
    then have "\<not> (0 \<le> (of_int c / 10 ^ s :: rat))" by (simp add: not_le divide_neg_pos)
    with False fl show ?thesis
      by (simp add: trunc_rat_def dec10_val_def ceiling_def)
  qed
qed

subsection \<open>Printing and reading\<close>

lemma read_digits_zeros: "read_digits 0 (replicate k (CHR ''0'') @ cs) = read_digits 0 cs"
  by (induction k) (simp_all add: char_digit_def)

lemma show_nat_no_sep:
  assumes "char_digit c = None"
  shows "c \<notin> set (show_nat n)"
proof
  assume "c \<in> set (show_nat n)"
  then obtain d where "d < 10" and "c = digit_char d" using show_nat_digits by blast
  then have "char_digit c = Some d" by simp
  with assms show False by simp
qed

lemma dec10_read_abs_show:
  assumes "CHR ''.'' \<notin> set qs" and "s < length qs"
  shows "dec10_read_abs (take (length qs - s) qs
      @ (if s = 0 then [] else CHR ''.'' # drop (length qs - s) qs)) =
    map_option (\<lambda>n. (n, s)) (read_nat qs)"
proof -
  have nd: "\<forall>c \<in> set (take k qs). c \<noteq> CHR ''.''" for k
    using assms(1) by (auto dest: in_set_takeD)
  show ?thesis
  proof (cases "s = 0")
    case True
    moreover have "takeWhile (\<lambda>c. c \<noteq> CHR ''.'') qs = qs"
      and "dropWhile (\<lambda>c. c \<noteq> CHR ''.'') qs = []"
      using nd [of "length qs"] by simp_all
    ultimately show ?thesis
      by (simp only: dec10_read_abs_def Let_def if_True diff_zero take_all append_Nil2 order_refl
          list.sel list.size simp_thms)
  next
    case False
    let ?k = "length qs - s"
    have "takeWhile (\<lambda>c. c \<noteq> CHR ''.'') (take ?k qs @ CHR ''.'' # drop ?k qs) = take ?k qs"
      and "dropWhile (\<lambda>c. c \<noteq> CHR ''.'') (take ?k qs @ CHR ''.'' # drop ?k qs) =
        CHR ''.'' # drop ?k qs"
      using nd [of ?k] by (simp_all add: takeWhile_append2 dropWhile_append2)
    with False assms(2) show ?thesis by (simp add: dec10_read_abs_def Let_def)
  qed
qed

lemma dec10_read_show: "dec10_read (dec10_show d) = Some d"
proof -
  define ds where "ds = show_nat (nat \<bar>fst d\<bar>)"
  define qs where "qs = replicate (snd d + 1 - length ds) (CHR ''0'') @ ds"
  define body where "body = take (length qs - snd d) qs
    @ (if snd d = 0 then [] else CHR ''.'' # drop (length qs - snd d) qs)"
  have len: "snd d < length qs" by (simp add: qs_def)
  have sep: "char_digit c = None \<Longrightarrow> c \<noteq> CHR ''0'' \<Longrightarrow> c \<notin> set qs" for c
    using show_nat_no_sep [of c] by (simp add: qs_def ds_def)
  have nodot: "CHR ''.'' \<notin> set qs" and nominus: "CHR ''-'' \<notin> set qs"
    by (rule sep; simp add: char_digit_def)+
  have "read_nat qs = Some (nat \<bar>fst d\<bar>)"
    using len by (simp add: qs_def read_nat_def read_digits_zeros ds_def read_digits_show_nat)
  then have rd: "dec10_read_abs body = Some (nat \<bar>fst d\<bar>, snd d)"
    using dec10_read_abs_show [OF nodot len] by (simp add: body_def)
  from nominus have minus: "CHR ''-'' \<notin> set body"
    by (auto simp: body_def dest: in_set_takeD in_set_dropD split: if_splits)
  have ne: "body \<noteq> []" using len by (auto simp: body_def)
  have show_eq: "dec10_show d = (if fst d < 0 then ''-'' else []) @ body"
    by (simp add: dec10_show_def body_def qs_def ds_def Let_def)
  show ?thesis
  proof (cases "fst d < 0")
    case True
    with rd show ?thesis by (simp add: show_eq dec10_read_def prod_eq_iff)
  next
    case False
    from ne obtain c cs where b: "body = c # cs" by (cases body) auto
    with minus have "c \<noteq> CHR ''-''" by auto
    with False rd b show ?thesis by (simp add: show_eq dec10_read_def prod_eq_iff)
  qed
qed

lemma dec10_val_pair: "dec10_val (c, s) = of_int c / 10 ^ s"
  by (simp add: dec10_val_def)

lemma dec10_val_int: "dec10_val (n, 0) = of_int n"
  by (simp add: dec10_val_def)

lemma dec10_val_mult: "dec10_val (fst a * fst b, snd a + snd b) = dec10_val a * dec10_val b"
  by (simp add: dec10_val_def power_add)

lemma dec10_val_minus: "dec10_val (- fst a, snd a) = - dec10_val a"
  by (simp add: dec10_val_def)

lemma dec10_val_sum:
  "dec10_val (rescale (max (snd a) (snd b)) a + rescale (max (snd a) (snd b)) b,
      max (snd a) (snd b)) = dec10_val a + dec10_val b"
  by (simp add: dec10_val_pair rescale_val add_divide_distrib)

lemma dec10_val_diff:
  "dec10_val (rescale (max (snd a) (snd b)) a - rescale (max (snd a) (snd b)) b,
      max (snd a) (snd b)) = dec10_val a - dec10_val b"
  by (simp add: dec10_val_pair rescale_val diff_divide_distrib)

interpretation dec10: decimal_laws dec10_ops dec10_val
proof (unfold_locales, goal_cases)
  case (8 b a)
  then show ?case by (simp add: dec10_ops_def dec10_val_def)
next
  case (9 b a)
  then show ?case by (rule dec10_Div)
next
  case (10 b k a)
  then have "(of_int (fst b) :: rat) = of_int (int k * 10 ^ snd b)"
    by (simp add: dec10_val_def divide_eq_eq)
  then have "fst b = int k * 10 ^ snd b" by (simp only: of_int_eq_iff)
  then show ?case
    by (simp add: dec10_ops_def dec10_val_def power_divide power_mult)
next
  case (11 a p)
  show ?case
    using dec10_val_div_away [of "10 ^ snd a" "fst a" p]
    by (simp add: dec10_ops_def dec10_round_def dec10_val_def)
next
  case (12 a)
  then show ?case using dec10_IntPart [of "fst a" "snd a"] by (simp add: dec10_ops_def)
next
  case (16 a)
  show ?case by (simp add: dec10_ops_def dec10_read_show)
qed (simp_all add: dec10_ops_def Let_def rescale_less_iff rescale_le_iff dec10_val_mult
    dec10_val_minus dec10_val_sum dec10_val_diff dec10_val_int)

end
