(* ===== verification/Errors.thy ===== *)
theory Errors
  imports Go_Strings Decimal_Interface
begin

text \<open>
  \<open>internal/errors.go\<close>: the structured application errors and the validation of a quote request.
\<close>

record AppError =
  ae_Status :: int
  ae_Code :: string
  ae_Message :: string

definition AppError_Error :: "AppError \<Rightarrow> string" where
  "AppError_Error e = ae_Code e @ '': '' @ ae_Message e"

text \<open>
  \<open>Unwrap\<close> returns the error itself. \<open>errors.Is\<close> of the standard library follows the chain of wrapped errors
  until it finds the target or the end.
\<close>

definition AppError_Unwrap :: "AppError \<Rightarrow> AppError option" where
  "AppError_Unwrap e = Some e"

partial_function (option) errors_Is :: "('e \<Rightarrow> 'e option) \<Rightarrow> 'e \<Rightarrow> 'e \<Rightarrow> bool option" where
  "errors_Is unwrap e target =
     (if e = target then Some True
      else case unwrap e of None \<Rightarrow> Some False | Some e' \<Rightarrow> errors_Is unwrap e' target)"

definition errNotFound :: AppError where
  "errNotFound = \<lparr>ae_Status = 404, ae_Code = ''not_found'', ae_Message = ''quote not found''\<rparr>"
definition errExpired :: AppError where
  "errExpired = \<lparr>ae_Status = 410, ae_Code = ''EXPIRED'', ae_Message = ''quote expired''\<rparr>"
definition errBadCurrency :: AppError where
  "errBadCurrency = \<lparr>ae_Status = 400, ae_Code = ''invalid_currency'',
     ae_Message = ''currency code must be 3-letter uppercase or a crypto symbol''\<rparr>"
definition errBadAmount :: AppError where
  "errBadAmount = \<lparr>ae_Status = 400, ae_Code = ''invalid_amount'', ae_Message = ''amount must be > 0''\<rparr>"
definition errBadTier :: AppError where
  "errBadTier = \<lparr>ae_Status = 400, ae_Code = ''invalid_tier'', ae_Message = ''unsupported user_tier''\<rparr>"
definition errBadSide :: AppError where
  "errBadSide = \<lparr>ae_Status = 400, ae_Code = ''invalid_side'', ae_Message = ''side must be buy or sell''\<rparr>"
definition errSpotUnavailable :: AppError where
  "errSpotUnavailable = \<lparr>ae_Status = 503, ae_Code = ''spot_unavailable'',
     ae_Message = ''spot rate unavailable''\<rparr>"

lemmas app_errors = errNotFound_def errExpired_def errBadCurrency_def errBadAmount_def
  errBadTier_def errBadSide_def errSpotUnavailable_def

text \<open>With the \<open>Unwrap\<close> of an application error the search finds the error itself and otherwise never returns.\<close>

lemma errors_Is_AppError: "errors_Is AppError_Unwrap e target = (if e = target then Some True else None)"
proof -
  have "unwrap = AppError_Unwrap \<longrightarrow> e = target" if "errors_Is unwrap e target = Some r" for unwrap r
  proof (rule errors_Is.raw_induct [OF _ that])
    fix rec and unwrap :: "AppError \<Rightarrow> AppError option" and e target r
    assume "\<And>unwrap e target r. rec unwrap e target = Some r \<Longrightarrow> unwrap = AppError_Unwrap \<longrightarrow> e = target"
      and "(if e = target then Some True
        else case unwrap e of None \<Rightarrow> Some False | Some e' \<Rightarrow> rec unwrap e' target) = Some r"
    then show "unwrap = AppError_Unwrap \<longrightarrow> e = target" by (auto simp: AppError_Unwrap_def split: if_splits)
  qed
  moreover have "errors_Is AppError_Unwrap target target = Some True" by (simp add: errors_Is.simps)
  ultimately show ?thesis by (metis option.exhaust)
qed

definition supportedTiers :: "(string, bool) gomap" where
  "supportedTiers = [(''TIER_1'', True), (''TIER_2'', True), (''TIER_3'', True)]"

text \<open>
  The loop of \<open>validateCurrency\<close> ranges over runes. A byte of a rune beyond ASCII, or of an invalid
  encoding, is at least 128, so a rune outside \<open>A\<close>..\<open>Z\<close> occurs exactly if such a byte occurs.
  An error is \<open>Some\<close>, \<open>nil\<close> is \<open>None\<close>.
\<close>

fun validateCurrency_loop :: "string \<Rightarrow> AppError option" where
  "validateCurrency_loop [] = None"
| "validateCurrency_loop (r # rs) =
     (if of_char r < (65::nat) \<or> of_char r > (90::nat) then Some errBadCurrency
      else validateCurrency_loop rs)"

definition validateCurrency :: "string \<Rightarrow> AppError option" where
  "validateCurrency code =
     (if length code < 3 \<or> length code > 5 then Some errBadCurrency
      else validateCurrency_loop code)"

definition validateTier :: "string \<Rightarrow> AppError option" where
  "validateTier t =
     (if map_of supportedTiers t \<noteq> Some True then Some errBadTier else None)"

definition validateSide :: "string \<Rightarrow> AppError option" where
  "validateSide s = (if s \<noteq> ''BUY'' \<and> s \<noteq> ''SELL'' then Some errBadSide else None)"

definition parseAmount :: "'d decimal_ops \<Rightarrow> string \<Rightarrow> 'd \<times> AppError option" where
  "parseAmount D s =
     (if s = [] then (dZero D, Some errBadAmount)
      else case dNewFromString D s of
             None \<Rightarrow> (dZero D, Some errBadAmount)
           | Some f \<Rightarrow> if dLessThanOrEqual D f (dZero D) then (dZero D, Some errBadAmount)
                       else (f, None))"

record quoteRequest =
  req_From :: string
  req_To :: string
  req_Amount :: string
  req_UserTier :: string
  req_Side :: string

record bulkRequest =
  bulk_Items :: "quoteRequest list"

definition validateRequest :: "'d decimal_ops \<Rightarrow> quoteRequest \<Rightarrow> AppError option" where
  "validateRequest D req =
     (case validateCurrency (req_From req) of Some e \<Rightarrow> Some e | None \<Rightarrow>
      case validateCurrency (req_To req) of Some e \<Rightarrow> Some e | None \<Rightarrow>
      case snd (parseAmount D (req_Amount req)) of Some e \<Rightarrow> Some e | None \<Rightarrow>
      case validateTier (req_UserTier req) of Some e \<Rightarrow> Some e | None \<Rightarrow>
      case validateSide (req_Side req) of Some e \<Rightarrow> Some e | None \<Rightarrow> None)"

text \<open>The request id: the header set by the middleware, else the trimmed query parameter.\<close>

definition requestIDFromContext :: "string \<Rightarrow> string \<Rightarrow> string" where
  "requestIDFromContext header query = (if header \<noteq> [] then header else TrimSpace query)"

section \<open>What validation accepts\<close>

definition upper_alpha :: "string \<Rightarrow> bool" where
  "upper_alpha code \<longleftrightarrow> (\<forall>c \<in> set code. 65 \<le> (of_char c :: nat) \<and> (of_char c :: nat) \<le> 90)"

lemma validateCurrency_loop_None: "validateCurrency_loop code = None \<longleftrightarrow> upper_alpha code"
  by (induction code) (auto simp: upper_alpha_def)

lemma validateCurrency_loop_cases:
  "validateCurrency_loop code = None \<or> validateCurrency_loop code = Some errBadCurrency"
  by (induction code) auto

lemma validateCurrency_None:
  "validateCurrency code = None \<longleftrightarrow> length code \<in> {3..5} \<and> upper_alpha code"
  by (auto simp: validateCurrency_def validateCurrency_loop_None)

lemma validateCurrency_Some: "validateCurrency code = Some e \<Longrightarrow> e = errBadCurrency"
  using validateCurrency_loop_cases [of code] by (auto simp: validateCurrency_def split: if_splits)

lemma validateTier_None: "validateTier t = None \<longleftrightarrow> t \<in> {''TIER_1'', ''TIER_2'', ''TIER_3''}"
  by (auto simp: validateTier_def supportedTiers_def)

lemma validateTier_Some: "validateTier t = Some e \<Longrightarrow> e = errBadTier"
  by (auto simp: validateTier_def split: if_splits)

lemma validateSide_None: "validateSide s = None \<longleftrightarrow> s \<in> {''BUY'', ''SELL''}"
  by (auto simp: validateSide_def)

lemma validateSide_Some: "validateSide s = Some e \<Longrightarrow> e = errBadSide"
  by (auto simp: validateSide_def split: if_splits)

lemma parseAmount_Some: "snd (parseAmount D s) = Some e \<Longrightarrow> e = errBadAmount"
  by (auto simp: parseAmount_def split: if_splits option.splits)

context decimal_laws
begin

lemma parseAmount_pos:
  "parseAmount D s = (a, None) \<longleftrightarrow> s \<noteq> [] \<and> dNewFromString D s = Some a \<and> 0 < val a"
  by (auto simp: parseAmount_def val_simps split: option.splits if_splits)

lemma parseAmount_accepts:
  "snd (parseAmount D s) = None \<longleftrightarrow> s \<noteq> [] \<and> (\<exists>a. dNewFromString D s = Some a \<and> 0 < val a)"
  using parseAmount_pos [of s] by (metis prod.collapse snd_conv)

end

lemmas validate_None = validateCurrency_None validateTier_None validateSide_None

text \<open> A request is accepted exactly if both currency codes are three to five upper-case ASCII
  letters, the amount is a decimal numeral of positive value, the tier is one of the three
  supported ones and the side is \<open>BUY\<close> or \<open>SELL\<close>.
\<close>

lemma validateRequest_accepts:
  assumes "decimal_laws D val"
  shows "validateRequest D req = None \<longleftrightarrow>
    (length (req_From req) \<in> {3..5} \<and> upper_alpha (req_From req)) \<and>
    (length (req_To req) \<in> {3..5} \<and> upper_alpha (req_To req)) \<and>
    (req_Amount req \<noteq> [] \<and> (\<exists>a. dNewFromString D (req_Amount req) = Some a \<and> 0 < val a)) \<and>
    req_UserTier req \<in> {''TIER_1'', ''TIER_2'', ''TIER_3''} \<and>
    req_Side req \<in> {''BUY'', ''SELL''}"
  unfolding decimal_laws.parseAmount_accepts [OF assms, symmetric] validate_None [symmetric]
  by (auto simp: validateRequest_def split: option.splits)


end
