(* ===== verification/Uuid_Interface.thy ===== *)
theory Uuid_Interface
  imports Go_Prelude
begin

text \<open>
  The package \<open>github.com/google/uuid\<close>, a parameter of the model: an identifier is a value of 16
  bytes, \<open>String\<close> prints it and \<open>Parse\<close> reads it. The locale \<open>uuid_laws\<close> holds what the service relies
  on: the printed form identifies the value, and is made of 36 hexadecimal digits and dashes. It is
  interpreted on the 8-4-4-4-12 form the package documents. Generated identifiers (\<open>uuid.NewV7\<close>) are
  arguments of the operations that draw them.
\<close>

type_synonym uuid = "128 word"

record uuid_ops =
  uString :: "uuid \<Rightarrow> string"
  uParse :: "string \<Rightarrow> uuid option"

locale uuid_laws =
  fixes U :: uuid_ops
  assumes Parse_String: "uParse U (uString U u) = Some u"
    and String_length: "length (uString U u) = 36"
    and String_chars: "set (uString U u) \<subseteq> set ''0123456789abcdef-''"
begin

lemma inj_String: "inj (uString U)"
  by (metis Parse_String injI option.inject)

lemma String_eq_iff [simp]: "uString U u = uString U v \<longleftrightarrow> u = v"
  using inj_String by (simp add: inj_eq)

end

section \<open>An executable instance: hexadecimal with dashes\<close>

definition hex_char :: "nat \<Rightarrow> char" where
  "hex_char d = ''0123456789abcdef'' ! d"

definition char_hex :: "char \<Rightarrow> nat option" where
  "char_hex c =
     (let n = of_char c in
      if 48 \<le> n \<and> n < 58 then Some (n - 48) else if 97 \<le> n \<and> n < 103 then Some (n - 87) else None)"

fun hex_fixed :: "nat \<Rightarrow> nat \<Rightarrow> string" where
  "hex_fixed 0 n = []"
| "hex_fixed (Suc w) n = hex_fixed w (n div 16) @ [hex_char (n mod 16)]"

fun read_hex :: "nat \<Rightarrow> string \<Rightarrow> nat option" where
  "read_hex acc [] = Some acc"
| "read_hex acc (c # cs) =
     (case char_hex c of None \<Rightarrow> None | Some d \<Rightarrow> read_hex (16 * acc + d) cs)"

definition uuid_show :: "uuid \<Rightarrow> string" where
  "uuid_show u =
     (let h = hex_fixed 32 (unat u) in
      take 8 h @ ''-'' @ take 4 (drop 8 h) @ ''-'' @ take 4 (drop 12 h) @ ''-''
      @ take 4 (drop 16 h) @ ''-'' @ drop 20 h)"

definition uuid_read :: "string \<Rightarrow> uuid option" where
  "uuid_read s =
     (if length s = 36 \<and> s ! 8 = CHR ''-'' \<and> s ! 13 = CHR ''-'' \<and> s ! 18 = CHR ''-'' \<and> s ! 23 = CHR ''-''
      then map_option word_of_nat
        (read_hex 0 (take 8 s @ take 4 (drop 9 s) @ take 4 (drop 14 s) @ take 4 (drop 19 s) @ drop 24 s))
      else None)"

definition uuid_hex :: uuid_ops where
  "uuid_hex = \<lparr>uString = uuid_show, uParse = uuid_read\<rparr>"

lemma char_hex_hex_char: "d < 16 \<Longrightarrow> char_hex (hex_char d) = Some d"
proof -
  assume "d < 16"
  then have "d \<in> set [0..<16]" by simp
  then show ?thesis
    by (simp add: upt_rec numeral_eq_Suc char_hex_def hex_char_def) (elim disjE; simp)
qed

lemma length_hex_fixed [simp]: "length (hex_fixed w n) = w"
  by (induction w arbitrary: n) simp_all

lemma read_hex_append:
  "read_hex acc (xs @ ys) = (case read_hex acc xs of None \<Rightarrow> None | Some a \<Rightarrow> read_hex a ys)"
  by (induction xs arbitrary: acc) (auto split: option.splits)

lemma read_hex_fixed: "n < 16 ^ w \<Longrightarrow> read_hex 0 (hex_fixed w n) = Some n"
proof (induction w arbitrary: n)
  case 0
  then show ?case by simp
next
  case (Suc w)
  then have "n div 16 < 16 ^ w" by (simp add: div_less_iff_less_mult mult.commute)
  then show ?case
    by (simp add: Suc.IH read_hex_append char_hex_hex_char)
qed

lemma drop_take_join: "drop n xs = take k (drop n xs) @ drop (n + k) xs"
  by (metis add.commute append_take_drop_id drop_drop)

lemma five_parts:
  assumes "length h = 32"
  shows "take 8 h @ take 4 (drop 8 h) @ take 4 (drop 12 h) @ take 4 (drop 16 h) @ drop 20 h = h"
proof -
  have "take 4 (drop 16 h) @ drop 20 h = drop 16 h"
    using drop_take_join [of 16 h 4] by simp
  moreover have "take 4 (drop 12 h) @ drop 16 h = drop 12 h"
    using drop_take_join [of 12 h 4] by simp
  moreover have "take 4 (drop 8 h) @ drop 12 h = drop 8 h"
    using drop_take_join [of 8 h 4] by simp
  ultimately show ?thesis by simp
qed

lemma uuid_read_parts:
  assumes "length a = 8" "length b = 4" "length c = 4" "length d = 4" "length e = 12"
  shows "uuid_read (a @ ''-'' @ b @ ''-'' @ c @ ''-'' @ d @ ''-'' @ e) =
    map_option word_of_nat (read_hex 0 (a @ b @ c @ d @ e))"
  using assms by (simp add: uuid_read_def nth_append)

lemma hex_fixed_chars: "set (hex_fixed w n) \<subseteq> set ''0123456789abcdef''"
proof (induction w arbitrary: n)
  case (Suc w)
  have "hex_char (n mod 16) \<in> set ''0123456789abcdef''"
    unfolding hex_char_def by (rule nth_mem) simp
  with Suc show ?case by auto
qed simp

lemma uuid_show_form:
  "length (uuid_show u) = 36" "set (uuid_show u) \<subseteq> set ''0123456789abcdef-''"
proof -
  show "length (uuid_show u) = 36" by (simp add: uuid_show_def Let_def)
  let ?H = "set ''0123456789abcdef''"
  have part: "set (take k (drop j (hex_fixed 32 n))) \<subseteq> ?H" "set (take k (hex_fixed 32 n)) \<subseteq> ?H"
    "set (drop j (hex_fixed 32 n)) \<subseteq> ?H" for j k n
    using set_take_subset [of k "drop j (hex_fixed 32 n)"] set_take_subset [of k "hex_fixed 32 n"]
      set_drop_subset [of j "hex_fixed 32 n"] hex_fixed_chars [of 32 n] by (blast intro: subset_trans)+
  have dash: "set ''0123456789abcdef-'' = insert (CHR ''-'') ?H" by auto
  show "set (uuid_show u) \<subseteq> set ''0123456789abcdef-''"
    unfolding uuid_show_def Let_def dash set_append
    by (intro Un_least subset_trans [OF part(1) subset_insertI] subset_trans [OF part(2) subset_insertI]
        subset_trans [OF part(3) subset_insertI]) simp_all
qed

interpretation uuid_hex: uuid_laws uuid_hex
proof
  fix u :: uuid
  define h where "h = hex_fixed 32 (unat u)"
  have len: "length h = 32" by (simp add: h_def)
  have "unat u < 16 ^ 32" using unsigned_less [of u] by simp
  then have rd: "read_hex 0 h = Some (unat u)" unfolding h_def by (rule read_hex_fixed)
  have "uuid_read (uuid_show u) = map_option word_of_nat (read_hex 0 h)"
    unfolding uuid_show_def Let_def h_def [symmetric]
    by (subst uuid_read_parts) (simp_all add: len five_parts)
  with rd show "uParse uuid_hex (uString uuid_hex u) = Some u"
    by (simp add: uuid_hex_def)
qed (simp_all only: uuid_hex_def uuid_ops.simps uuid_show_form)

end
