(* ===== verification/Quote_Store.thy ===== *)
theory Quote_Store
  imports Decimal_Interface Uuid_Interface
begin

text \<open>
  The \<open>Store\<close> of \<open>internal/store.go\<close>: quote rows, fee schedules and rate sources held in memory.
  A row is copied on the way in and on the way out, so a row in the map is never aliased by a
  caller; values of the model have the same independence. Each operation holds the store's mutex
  throughout and is one step.
\<close>

section \<open>Records\<close>

datatype QuoteStatus = StatusOpen | StatusClaimed | StatusExpired | StatusCanceled

fun status_string :: "QuoteStatus \<Rightarrow> string" where
  "status_string StatusOpen = ''OPEN''"
| "status_string StatusClaimed = ''CLAIMED''"
| "status_string StatusExpired = ''EXPIRED''"
| "status_string StatusCanceled = ''CANCELED''"

record 'd Quote =
  q_QuoteID :: uuid
  q_From :: string
  q_To :: string
  q_Amount :: string
  q_Rate :: string
  q_SpreadBPS :: int
  q_Fee :: string
  q_FeeCurrency :: string
  q_Total :: string
  q_CryptoAmount :: string
  q_UserTier :: string
  q_Side :: string
  q_Status :: QuoteStatus
  q_SourceVenue :: string
  q_CreatedAt :: time
  q_ExpiresAt :: time
  q_ClaimedAt :: "time option"
  q_ClaimedBy :: string
  q_LockedRate :: 'd
  q_SpotPrice :: 'd

record 'd FeeSchedule =
  fs_ID :: uuid
  fs_UserTier :: string
  fs_Asset :: string
  fs_SizeBandMin :: 'd
  fs_SizeBandMax :: 'd
  fs_Side :: string
  fs_SpreadBPS :: int
  fs_FeeType :: string
  fs_FeeAmount :: 'd
  fs_FeeBPS :: int
  fs_Enabled :: bool
  fs_UpdatedAt :: time

record RateSource =
  rs_ID :: uuid
  rs_Name :: string
  rs_Priority :: int
  rs_Enabled :: bool
  rs_EndpointRef :: string
  rs_Weight :: int
  rs_CreatedAt :: time
  rs_UpdatedAt :: time

record 'd Store =
  st_quotes :: "(uuid, 'd Quote) gomap"
  st_schedules :: "'d FeeSchedule list"
  st_sources :: "(string, RateSource) gomap"

section \<open>Operations\<close>

definition NewStore :: "'d Store" where
  "NewStore = \<lparr>st_quotes = [], st_schedules = [], st_sources = []\<rparr>"

definition SaveQuote :: "'d Quote \<Rightarrow> 'd Store \<Rightarrow> 'd Store" where
  "SaveQuote q s = s\<lparr>st_quotes := AList.update (q_QuoteID q) q (st_quotes s)\<rparr>"

definition GetQuote :: "'d Store \<Rightarrow> uuid \<Rightarrow> 'd Quote option" where
  "GetQuote s i = map_of (st_quotes s) i"

definition UpdateQuote ::
    "uuid \<Rightarrow> ('d Quote \<Rightarrow> 'd Quote) \<Rightarrow> 'd Store \<Rightarrow> 'd Quote option \<times> 'd Store" where
  "UpdateQuote i fn s =
     (case map_of (st_quotes s) i of
        None \<Rightarrow> (None, s)
      | Some q \<Rightarrow> (Some (fn q), s\<lparr>st_quotes := AList.update i (fn q) (st_quotes s)\<rparr>))"

text \<open>
  Ranging over the map gives the rows in some order \<open>iter\<close>, and \<open>sort.Slice\<close> may permute rows of
  equal creation time: a stable sort of an arbitrary reordering covers every outcome.
\<close>

definition ListQuotes :: "('d Quote list \<Rightarrow> 'd Quote list) \<Rightarrow> 'd Store \<Rightarrow> 'd Quote list" where
  "ListQuotes iter s = sort_key q_CreatedAt (iter (map snd (st_quotes s)))"

definition SetFeeSchedules :: "'d FeeSchedule list \<Rightarrow> 'd Store \<Rightarrow> 'd Store" where
  "SetFeeSchedules fs s = s\<lparr>st_schedules := fs\<rparr>"

definition FeeSchedules :: "'d Store \<Rightarrow> 'd FeeSchedule list" where
  "FeeSchedules s = st_schedules s"

fun put_sources :: "RateSource list \<Rightarrow> (string, RateSource) gomap \<Rightarrow> (string, RateSource) gomap" where
  "put_sources [] m = m"
| "put_sources (r # rs) m = put_sources rs (AList.update (rs_Name r) r m)"

definition SetRateSources :: "RateSource list \<Rightarrow> 'd Store \<Rightarrow> 'd Store" where
  "SetRateSources rs s = s\<lparr>st_sources := put_sources rs []\<rparr>"

text \<open>Go compares strings bytewise.\<close>

fun str_less :: "string \<Rightarrow> string \<Rightarrow> bool" where
  "str_less _ [] = False"
| "str_less [] (_ # _) = True"
| "str_less (x # xs) (y # ys) =
     (if x = y then str_less xs ys else (of_char x :: nat) < of_char y)"

definition source_less :: "RateSource \<Rightarrow> RateSource \<Rightarrow> bool" where
  "source_less a b =
     (if rs_Priority a \<noteq> rs_Priority b then rs_Priority a < rs_Priority b
      else str_less (rs_Name a) (rs_Name b))"

text \<open>\<open>sort.Slice\<close> with a strict order: insertion of each element before the first that is larger.\<close>

fun insert_by :: "('a \<Rightarrow> 'a \<Rightarrow> bool) \<Rightarrow> 'a \<Rightarrow> 'a list \<Rightarrow> 'a list" where
  "insert_by lt x [] = [x]"
| "insert_by lt x (y # ys) = (if lt y x then y # insert_by lt x ys else x # y # ys)"

fun sort_by :: "('a \<Rightarrow> 'a \<Rightarrow> bool) \<Rightarrow> 'a list \<Rightarrow> 'a list" where
  "sort_by lt [] = []"
| "sort_by lt (x # xs) = insert_by lt x (sort_by lt xs)"

definition RateSources :: "(RateSource list \<Rightarrow> RateSource list) \<Rightarrow> 'd Store \<Rightarrow> RateSource list" where
  "RateSources iter s =
     sort_by source_less (filter rs_Enabled (iter (map snd (st_sources s))))"

section \<open>Well-formedness\<close>

text \<open>Keys are distinct and every row is stored under its own identifier, every source under its name.\<close>

definition store_inv :: "'d Store \<Rightarrow> bool" where
  "store_inv s \<longleftrightarrow> wf_map (st_quotes s) \<and> keyed q_QuoteID (st_quotes s) \<and>
     wf_map (st_sources s) \<and> keyed rs_Name (st_sources s)"

lemma store_inv_New: "store_inv NewStore"
  by (simp add: store_inv_def NewStore_def)

lemma store_inv_Save: "store_inv s \<Longrightarrow> store_inv (SaveQuote q s)"
  by (simp add: store_inv_def SaveQuote_def wf_map_update keyed_update)

lemma store_inv_Update:
  assumes inv: "store_inv s" and fn: "\<And>q. q_QuoteID (fn q) = q_QuoteID q"
  shows "store_inv (snd (UpdateQuote i fn s))"
proof (cases "map_of (st_quotes s) i")
  case None
  with inv show ?thesis by (simp add: UpdateQuote_def)
next
  case (Some q)
  from inv have "keyed q_QuoteID (st_quotes s)" by (simp add: store_inv_def)
  from keyed_map_of [OF this Some] have "q_QuoteID (fn q) = i" by (simp add: fn)
  with inv Some show ?thesis
    by (simp add: store_inv_def UpdateQuote_def wf_map_update keyed_update)
qed

lemma store_inv_SetFeeSchedules: "store_inv s \<Longrightarrow> store_inv (SetFeeSchedules fs s)"
  by (simp add: store_inv_def SetFeeSchedules_def)

lemma put_sources_inv:
  "wf_map m \<Longrightarrow> keyed rs_Name m \<Longrightarrow> wf_map (put_sources rs m) \<and> keyed rs_Name (put_sources rs m)"
  by (induction rs arbitrary: m) (simp_all add: wf_map_update keyed_update)

lemma store_inv_SetRateSources: "store_inv s \<Longrightarrow> store_inv (SetRateSources rs s)"
  using put_sources_inv [of "[]" rs] by (simp add: store_inv_def SetRateSources_def)

lemma store_invD: "store_inv s \<Longrightarrow> GetQuote s i = Some q \<Longrightarrow> q_QuoteID q = i"
  unfolding store_inv_def GetQuote_def by (blast dest: keyed_map_of)

section \<open>Lookup after update\<close>

lemma GetQuote_New [simp]: "GetQuote NewStore i = None"
  by (simp add: GetQuote_def NewStore_def)

lemma GetQuote_Save [simp]:
  "GetQuote (SaveQuote q s) i = (if i = q_QuoteID q then Some q else GetQuote s i)"
  by (simp add: GetQuote_def SaveQuote_def)

lemma GetQuote_Update [simp]:
  "GetQuote (snd (UpdateQuote i fn s)) j =
     (if j = i then map_option fn (GetQuote s i) else GetQuote s j)"
  by (simp add: GetQuote_def UpdateQuote_def split: option.splits)

lemma UpdateQuote_result [simp]: "fst (UpdateQuote i fn s) = map_option fn (GetQuote s i)"
  by (simp add: GetQuote_def UpdateQuote_def split: option.splits)

lemma UpdateQuote_absent: "GetQuote s i = None \<Longrightarrow> snd (UpdateQuote i fn s) = s"
  by (simp add: GetQuote_def UpdateQuote_def)

lemma schedules_Save [simp]: "st_schedules (SaveQuote q s) = st_schedules s"
  by (simp add: SaveQuote_def)

lemma schedules_Update [simp]: "st_schedules (snd (UpdateQuote i fn s)) = st_schedules s"
  by (simp add: UpdateQuote_def split: option.splits)

lemma GetQuote_SetFeeSchedules [simp]: "GetQuote (SetFeeSchedules fs s) = GetQuote s"
  by (simp add: GetQuote_def SetFeeSchedules_def fun_eq_iff)

text \<open>Rows for the concrete instances of the theorems.\<close>

definition ex_quote :: "uuid \<Rightarrow> time \<Rightarrow> dec10 Quote" where
  "ex_quote i t = \<lparr>q_QuoteID = i, q_From = ''USD'', q_To = ''BTC'', q_Amount = ''500'',
     q_Rate = ''65520'', q_SpreadBPS = 80, q_Fee = ''2.5'', q_FeeCurrency = ''USD'',
     q_Total = ''502.5'', q_CryptoAmount = ''0.00763126'', q_UserTier = ''TIER_1'', q_Side = ''BUY'',
     q_Status = StatusOpen, q_SourceVenue = ''kraken'', q_CreatedAt = t,
     q_ExpiresAt = t + 30 * second, q_ClaimedAt = None, q_ClaimedBy = [],
     q_LockedRate = (65520, 0), q_SpotPrice = (65000, 0)\<rparr>"

section \<open>Listing\<close>

lemma mset_ListQuotes: "reorders iter \<Longrightarrow> mset (ListQuotes iter s) = mset (map snd (st_quotes s))"
  by (simp add: ListQuotes_def reorders_def)

lemma set_ListQuotes:
  assumes "reorders iter" and "store_inv s"
  shows "set (ListQuotes iter s) = {q. GetQuote s (q_QuoteID q) = Some q}"
proof -
  have "set (ListQuotes iter s) = snd ` set (st_quotes s)"
    by (simp add: ListQuotes_def reorders_set [OF assms(1)])
  also have "\<dots> = {q. GetQuote s (q_QuoteID q) = Some q}"
  proof (rule set_eqI)
    fix q
    have "q \<in> snd ` set (st_quotes s) \<longleftrightarrow> (\<exists>i. map_of (st_quotes s) i = Some q)"
      using assms(2) by (force simp: store_inv_def wf_map_in_set [symmetric])
    also have "\<dots> \<longleftrightarrow> GetQuote s (q_QuoteID q) = Some q"
      using store_invD [OF assms(2), of _ q] by (auto simp: GetQuote_def)
    finally show "q \<in> snd ` set (st_quotes s) \<longleftrightarrow> q \<in> {q. GetQuote s (q_QuoteID q) = Some q}"
      by simp
  qed
  finally show ?thesis .
qed

lemma distinct_ListQuotes_ids:
  assumes "reorders iter" and "store_inv s"
  shows "distinct (map q_QuoteID (ListQuotes iter s))"
proof -
  have "distinct (map q_QuoteID (map snd (st_quotes s)))"
    using assms(2) keyed_keys [of q_QuoteID "st_quotes s"]
    by (simp only: store_inv_def wf_map_def)
  moreover have "mset (map q_QuoteID (ListQuotes iter s)) = mset (map q_QuoteID (map snd (st_quotes s)))"
    using mset_ListQuotes [OF assms(1), of s] by (simp only: mset_map)
  ultimately show ?thesis by (metis mset_eq_imp_distinct_iff)
qed

text \<open> \<open>ListQuotes\<close> returns every stored row exactly once and in ascending order of creation time,
  whatever order the runtime ranges over the map in.
\<close>

lemma ListQuotes_sorted_rows:
  assumes "reorders iter" and "store_inv s"
  shows "sorted (map q_CreatedAt (ListQuotes iter s)) \<and>
    set (ListQuotes iter s) = {q. GetQuote s (q_QuoteID q) = Some q} \<and>
    distinct (map q_QuoteID (ListQuotes iter s))"
  using set_ListQuotes [OF assms] distinct_ListQuotes_ids [OF assms]
  by (simp add: ListQuotes_def)


section \<open>The order of rate sources\<close>

lemma str_less_irrefl: "\<not> str_less x x"
  by (induction x) auto

lemma str_less_trans: "str_less x y \<Longrightarrow> str_less y z \<Longrightarrow> str_less x z"
proof (induction x y arbitrary: z rule: str_less.induct)
  case (3 x xs y ys)
  then show ?case by (cases z) (auto split: if_splits)
next
  case (2 y ys)
  then show ?case by (cases z) auto
qed simp

lemma char_order_total: "x \<noteq> y \<Longrightarrow> \<not> (of_char y :: nat) < of_char x \<Longrightarrow> (of_char x :: nat) < of_char y"
  by (metis linorder_neqE_nat of_char_eq_iff)

lemma str_less_total: "x \<noteq> y \<Longrightarrow> str_less x y \<or> str_less y x"
  by (induction x y rule: str_less.induct) (auto simp: neq_Nil_conv intro: char_order_total)

lemma source_less_trans: "source_less a b \<Longrightarrow> source_less b c \<Longrightarrow> source_less a c"
  by (auto simp: source_less_def dest: str_less_trans split: if_splits)

lemma source_not_less_trans:
  "\<not> source_less b a \<Longrightarrow> \<not> source_less c b \<Longrightarrow> \<not> source_less c a"
  by (auto simp: source_less_def split: if_splits)
    (metis str_less_total str_less_trans)+

lemma mset_insert_by [simp]: "mset (insert_by lt x xs) = add_mset x (mset xs)"
  by (induction xs) auto

lemma mset_sort_by [simp]: "mset (sort_by lt xs) = mset xs"
  by (induction xs) auto

lemma set_insert_by [simp]: "set (insert_by lt x xs) = insert x (set xs)"
  by (induction xs) auto

lemma set_sort_by [simp]: "set (sort_by lt xs) = set xs"
  by (induction xs) auto

lemma sorted_insert_by:
  assumes "\<And>a b c. \<not> lt b a \<Longrightarrow> \<not> lt c b \<Longrightarrow> \<not> lt c a"
    and "\<And>a b. lt a b \<Longrightarrow> \<not> lt b a"
    and "sorted_wrt (\<lambda>a b. \<not> lt b a) xs"
  shows "sorted_wrt (\<lambda>a b. \<not> lt b a) (insert_by lt x xs)"
  using assms(3)
proof (induction xs)
  case (Cons y ys)
  show ?case
  proof (cases "lt y x")
    case True
    with Cons assms(2) [OF True] show ?thesis by simp
  next
    case False
    have "\<not> lt z x" if "z \<in> set ys" for z
      using assms(1) [OF False] Cons.prems that by simp
    with False Cons.prems show ?thesis by simp
  qed
qed simp

lemma sorted_sort_by:
  assumes "\<And>a b c. \<not> lt b a \<Longrightarrow> \<not> lt c b \<Longrightarrow> \<not> lt c a"
    and "\<And>a b. lt a b \<Longrightarrow> \<not> lt b a"
  shows "sorted_wrt (\<lambda>a b. \<not> lt b a) (sort_by lt xs)"
  by (induction xs) (auto intro: sorted_insert_by [OF assms])

lemma source_less_asym: "source_less a b \<Longrightarrow> \<not> source_less b a"
  by (auto simp: source_less_def dest: str_less_trans simp: str_less_irrefl split: if_splits)

text \<open>The enabled sources of the registry, ordered by priority and then by name.\<close>

lemma RateSources_sorted:
  assumes "reorders iter"
  shows "sorted_wrt (\<lambda>a b. \<not> source_less b a) (RateSources iter s) \<and>
    mset (RateSources iter s) = mset (filter rs_Enabled (map snd (st_sources s)))"
proof -
  have "mset (filter rs_Enabled (iter xs)) = mset (filter rs_Enabled xs)" for xs
    using assms by (simp add: reorders_def)
  moreover have "sorted_wrt (\<lambda>a b. \<not> source_less b a) (RateSources iter s)"
    unfolding RateSources_def
    by (rule sorted_sort_by) (auto dest: source_not_less_trans source_less_asym)
  ultimately show ?thesis by (simp add: RateSources_def)
qed

end
