(* ===== verification/Go_Utf8.thy ===== *)
theory Go_Utf8
  imports Go_Strings
begin

text \<open>
  What ranging over a Go string, \<open>utf8.DecodeRune\<close> and \<open>utf8.AppendRune\<close> do: decoding and encoding of UTF-8,
  with the replacement character for a byte that starts no well-formed sequence.
\<close>

section \<open>Runes\<close>

text \<open>
  Ranging over a Go string decodes UTF-8; a byte that does not start a well-formed sequence gives the
  replacement character. \<open>WriteRune\<close> encodes.
\<close>

definition byte_at :: "char \<Rightarrow> nat" where "byte_at c = of_char c"

definition is_cont :: "nat \<Rightarrow> nat \<Rightarrow> char \<Rightarrow> bool" where
  "is_cont lo hi c \<longleftrightarrow> lo \<le> byte_at c \<and> byte_at c \<le> hi"

definition cont_bits :: "char \<Rightarrow> nat" where "cont_bits c = byte_at c mod 64"

definition rune_error :: nat where "rune_error = 65533"

text \<open>The range of the second byte of a sequence by its first byte; the rest are \<open>80..BF\<close>.\<close>

definition second_range :: "nat \<Rightarrow> nat \<times> nat" where
  "second_range b = (if b = 224 then (160, 191) else if b = 237 then (128, 159)
     else if b = 240 then (144, 191) else if b = 244 then (128, 143) else (128, 191))"

text \<open>The first rune of \<open>a # s\<close> and the number of bytes of \<open>s\<close> that belong to it.\<close>

definition next_rune :: "char \<Rightarrow> string \<Rightarrow> nat \<times> nat" where
  "next_rune a s =
     (let b = byte_at a; (lo, hi) = second_range b in
      if b < 128 then (b, 0)
      else if 194 \<le> b \<and> b < 224 \<and> 1 \<le> length s \<and> is_cont lo hi (s ! 0)
      then (b mod 32 * 64 + cont_bits (s ! 0), 1)
      else if 224 \<le> b \<and> b < 240 \<and> 2 \<le> length s \<and> is_cont lo hi (s ! 0) \<and> is_cont 128 191 (s ! 1)
      then (b mod 16 * 4096 + cont_bits (s ! 0) * 64 + cont_bits (s ! 1), 2)
      else if 240 \<le> b \<and> b < 245 \<and> 3 \<le> length s \<and> is_cont lo hi (s ! 0) \<and> is_cont 128 191 (s ! 1) \<and>
        is_cont 128 191 (s ! 2)
      then (b mod 8 * 262144 + cont_bits (s ! 0) * 4096 + cont_bits (s ! 1) * 64 + cont_bits (s ! 2), 3)
      else (rune_error, 0))"

function runes :: "string \<Rightarrow> nat list" where
  "runes [] = []"
| "runes (a # s) = (case next_rune a s of (r, k) \<Rightarrow> r # runes (drop k s))"
  by pat_completeness auto
termination by (relation "measure length") auto

definition encode_rune :: "nat \<Rightarrow> string" where
  "encode_rune r =
     (if r < 128 then [char_of r]
      else if r < 2048 then [char_of (192 + r div 64), char_of (128 + r mod 64)]
      else if r < 65536
      then [char_of (224 + r div 4096), char_of (128 + r div 64 mod 64), char_of (128 + r mod 64)]
      else [char_of (240 + r div 262144), char_of (128 + r div 4096 mod 64),
            char_of (128 + r div 64 mod 64), char_of (128 + r mod 64)])"

text \<open>What is left of a string: its runes encoded again. On well-formed UTF-8 this is the string.\<close>

definition sanitize :: "string \<Rightarrow> string" where
  "sanitize s = concat (map encode_rune (runes s))"

section \<open>Lemmas\<close>

lemma byte_at_char_of: "n < 256 \<Longrightarrow> byte_at (char_of n) = n"
  by (simp add: byte_at_def)

lemma encode_rune_plain:
  assumes "32 \<le> r" and "r \<noteq> 34" and "r \<noteq> 92" and "r < 2097152"
  shows "\<forall>c \<in> set (encode_rune r). 32 \<le> byte_at c \<and> byte_at c \<noteq> 34 \<and> byte_at c \<noteq> 92"
proof -
  have "r div 64 < 32" if "r < 2048" using that by simp
  moreover have "r div 4096 < 16" if "r < 65536" using that by simp
  moreover have "r div 262144 < 8" using assms(4) by simp
  ultimately show ?thesis
    using assms by (auto simp: encode_rune_def byte_at_char_of)
qed

lemma cont_bits_less [simp]: "cont_bits c < 64"
  by (simp add: cont_bits_def)

lemma rune_bounds:
  "b mod 32 * 64 + cont_bits c < 2097152"
  "b mod 16 * 4096 + cont_bits c * 64 + cont_bits d < 2097152"
  "b mod 8 * 262144 + cont_bits c * 4096 + cont_bits d * 64 + cont_bits e < 2097152"
proof -
  have "b mod 32 < 32" "b mod 16 < 16" "b mod 8 < 8" by simp_all
  then show "b mod 32 * 64 + cont_bits c < 2097152" "b mod 16 * 4096 + cont_bits c * 64 + cont_bits d < 2097152"
    "b mod 8 * 262144 + cont_bits c * 4096 + cont_bits d * 64 + cont_bits e < 2097152"
    using cont_bits_less [of c] cont_bits_less [of d] cont_bits_less [of e] by linarith+
qed

lemma next_rune_bounded: "fst (next_rune a s) < 2097152"
  by (simp add: next_rune_def Let_def split_def rune_bounds rune_error_def)

lemma runes_bounded: "\<forall>r \<in> set (runes s). r < 2097152"
proof (induction s rule: runes.induct)
  case (2 a s)
  obtain r k where rk: "next_rune a s = (r, k)" by fastforce
  with next_rune_bounded [of a s] "2.IH" [OF rk [symmetric]] show ?case by simp
qed simp

lemma runes_ascii: "(\<forall>c \<in> set s. byte_at c < 128) \<Longrightarrow> runes s = map byte_at s"
  by (induction s) (simp_all add: next_rune_def split_def)

lemma sanitize_ascii: "(\<forall>c \<in> set s. byte_at c < 128) \<Longrightarrow> sanitize s = s"
  by (simp add: sanitize_def runes_ascii) (induction s; simp add: encode_rune_def byte_at_def)

lemma sanitize_Nil [simp]: "sanitize [] = []"
  by (simp add: sanitize_def)

section \<open>Decoding and encoding\<close>

text \<open>What \<open>AppendRune\<close> encodes as it is: the code points without the surrogates.\<close>

definition valid_rune :: "nat \<Rightarrow> bool" where
  "valid_rune r \<longleftrightarrow> r < 55296 \<or> 57344 \<le> r \<and> r < 1114112"

lemma char_of_byte_at [simp]: "char_of (byte_at c) = c"
  by (simp add: byte_at_def)

lemma byte_at_less [simp]: "byte_at c < 256"
  by (simp add: byte_at_def)

lemma cont_byte:
  assumes "is_cont lo hi c" and "128 \<le> lo" and "hi \<le> 191"
  shows "byte_at c = 128 + cont_bits c" and "lo - 128 \<le> cont_bits c" and "cont_bits c \<le> hi - 128"
proof -
  obtain y where y: "byte_at c = 128 + y" using assms by (auto simp: is_cont_def le_iff_add)
  with assms have b: "y < 64" "lo \<le> 128 + y" "128 + y \<le> hi" by (auto simp: is_cont_def)
  then have "(128 + y) mod 64 = y" using mod_mult_self3 [of 2 64 y] by simp
  with y b show "byte_at c = 128 + cont_bits c" "lo - 128 \<le> cont_bits c" "cont_bits c \<le> hi - 128"
    by (auto simp: cont_bits_def)
qed

lemma second_range_bounds: "second_range b = (lo, hi) \<Longrightarrow> 128 \<le> lo \<and> hi \<le> 191"
  by (auto simp: second_range_def split: if_splits)

lemma encode_two:
  assumes "2 \<le> x" and "x < 32" and "y < 64"
  shows "encode_rune (x * 64 + y) = [char_of (192 + x), char_of (128 + y)]"
  using assms by (simp add: encode_rune_def)

lemma base64_digits:
  assumes "(z :: nat) < 64"
  shows "(w * 64 + z) div 64 = w" and "(w * 64 + z) mod 64 = z"
  using assms by simp_all

lemma encode_three:
  assumes "x < 16" and "y < 64" and "z < 64" and "x = 0 \<Longrightarrow> 32 \<le> y"
  shows "encode_rune (x * 4096 + y * 64 + z) = [char_of (224 + x), char_of (128 + y), char_of (128 + z)]"
proof -
  let ?r = "x * 4096 + y * 64 + z"
  have e: "?r = (x * 64 + y) * 64 + z" by simp
  have r: "?r div 64 = x * 64 + y" "?r mod 64 = z" unfolding e by (rule base64_digits [OF assms(3)])+
  moreover have "?r div 4096 = ?r div 64 div 64" by (simp flip: div_mult2_eq)
  ultimately have "?r div 4096 = x" "?r div 64 mod 64 = y" using base64_digits [OF assms(2)] by simp_all
  moreover have "2048 \<le> ?r" "?r < 65536" using assms by (cases "x = 0"; simp)+
  ultimately show ?thesis using r by (simp add: encode_rune_def)
qed

lemma encode_four:
  assumes "x < 8" and "y < 64" and "z < 64" and "v < 64" and "x = 0 \<Longrightarrow> 16 \<le> y"
  shows "encode_rune (x * 262144 + y * 4096 + z * 64 + v) =
    [char_of (240 + x), char_of (128 + y), char_of (128 + z), char_of (128 + v)]"
proof -
  let ?r = "x * 262144 + y * 4096 + z * 64 + v"
  have e: "?r = ((x * 64 + y) * 64 + z) * 64 + v" by simp
  have r: "?r div 64 = (x * 64 + y) * 64 + z" "?r mod 64 = v" unfolding e by (rule base64_digits [OF assms(4)])+
  moreover have "?r div 4096 = ?r div 64 div 64" by (simp flip: div_mult2_eq)
  ultimately have q: "?r div 4096 = x * 64 + y" "?r div 64 mod 64 = z"
    by (simp_all only: base64_digits [OF assms(3)])
  moreover have "?r div 262144 = ?r div 4096 div 64" by (simp flip: div_mult2_eq)
  ultimately have "?r div 262144 = x" "?r div 4096 mod 64 = y" by (simp_all only: base64_digits [OF assms(2)])
  moreover have "65536 \<le> ?r" using assms by (cases "x = 0"; simp)
  ultimately show ?thesis using q r by (simp add: encode_rune_def)
qed

lemma take_nths:
  "1 \<le> length s \<Longrightarrow> take 1 s = [s ! 0]" "2 \<le> length s \<Longrightarrow> take 2 s = [s ! 0, s ! 1]"
  "3 \<le> length s \<Longrightarrow> take 3 s = [s ! 0, s ! 1, s ! 2]"
  by (cases s; simp; cases "tl s"; simp; cases "tl (tl s)"; simp)+

lemma lead_byte:
  assumes "m \<le> byte_at a" and "byte_at a < m + n" and "m mod n = 0"
  shows "char_of (m + byte_at a mod n) = a"
proof -
  obtain x where x: "byte_at a = m + x" using assms(1) by (auto simp: le_iff_add)
  with assms have "byte_at a mod n = x" using mod_add_left_eq [of m n x] by simp
  with x show ?thesis by (metis char_of_byte_at)
qed

lemma cont_char:
  assumes "is_cont lo hi c" and "128 \<le> lo" and "hi \<le> 191"
  shows "char_of (128 + cont_bits c) = c"
  using cont_byte(1) [OF assms] by (metis char_of_byte_at)

lemma two_bytes:
  assumes "194 \<le> byte_at a" and "byte_at a < 224" and "is_cont lo hi c" and "128 \<le> lo" and "hi \<le> 191"
  defines "r \<equiv> byte_at a mod 32 * 64 + cont_bits c"
  shows "encode_rune r = [a, c]" and "128 \<le> r" and "valid_rune r"
proof -
  obtain x where x: "byte_at a = 192 + x" using assms(1) le_iff_add [of 192 "byte_at a"] by auto
  with assms(1,2) have b: "2 \<le> x" "x < 32" by simp_all
  then have m: "byte_at a mod 32 = x" using mod_mult_self3 [of 6 32 x] x by simp
  have "char_of (192 + x) = a" using x by (metis char_of_byte_at)
  then show "encode_rune r = [a, c]"
    using encode_two [OF b cont_bits_less] cont_char [OF assms(3-5)] by (simp add: r_def m)
  have "r < 55296" using b cont_bits_less [of c] unfolding r_def m by linarith
  then show "128 \<le> r" "valid_rune r" using b by (simp_all add: r_def m valid_rune_def)
qed

lemma three_bytes:
  assumes "224 \<le> byte_at a" and "byte_at a < 240" and "second_range (byte_at a) = (lo, hi)"
    and "is_cont lo hi c" and "is_cont 128 191 d"
  defines "r \<equiv> byte_at a mod 16 * 4096 + cont_bits c * 64 + cont_bits d"
  shows "encode_rune r = [a, c, d]" and "128 \<le> r" and "valid_rune r"
proof -
  have bounds: "128 \<le> lo" "hi \<le> 191" using second_range_bounds [OF assms(3)] by simp_all
  obtain x where x: "byte_at a = 224 + x" using assms(1) le_iff_add [of 224 "byte_at a"] by auto
  with assms(2) have b: "x < 16" by simp
  then have m: "byte_at a mod 16 = x" using mod_mult_self3 [of 14 16 x] x by simp
  have low: "x = 0 \<Longrightarrow> 32 \<le> cont_bits c" "x = 13 \<Longrightarrow> cont_bits c \<le> 31"
    using assms(3) cont_byte [OF assms(4) bounds] by (auto simp: second_range_def x)
  have "char_of (224 + x) = a" using x by (metis char_of_byte_at)
  then show "encode_rune r = [a, c, d]"
    using encode_three [OF b cont_bits_less cont_bits_less low(1), of d] cont_char [OF assms(4) bounds] cont_char [OF assms(5)]
    by (simp add: r_def m)
  show "128 \<le> r" using low(1) by (cases "x = 0"; simp add: r_def m)
  have cd: "cont_bits c < 64" "cont_bits d < 64" by simp_all
  consider "x < 13" | "x = 13" | "14 \<le> x" by linarith
  then show "valid_rune r"
  proof cases
    case 1
    with cd have "r < 55296" unfolding r_def m by linarith
    then show ?thesis by (simp add: valid_rune_def)
  next
    case 2
    with cd low(2) have "r < 55296" unfolding r_def m by linarith
    then show ?thesis by (simp add: valid_rune_def)
  next
    case 3
    with b cd have "57344 \<le> r" "r < 1114112" unfolding r_def m by linarith+
    then show ?thesis by (simp add: valid_rune_def)
  qed
qed

lemma four_bytes:
  assumes "240 \<le> byte_at a" and "byte_at a < 245" and "second_range (byte_at a) = (lo, hi)"
    and "is_cont lo hi c" and "is_cont 128 191 d" and "is_cont 128 191 e"
  defines "r \<equiv> byte_at a mod 8 * 262144 + cont_bits c * 4096 + cont_bits d * 64 + cont_bits e"
  shows "encode_rune r = [a, c, d, e]" and "128 \<le> r" and "valid_rune r"
proof -
  have bounds: "128 \<le> lo" "hi \<le> 191" using second_range_bounds [OF assms(3)] by simp_all
  obtain x where x: "byte_at a = 240 + x" using assms(1) le_iff_add [of 240 "byte_at a"] by auto
  with assms(2) have b: "x < 8" "x \<le> 4" by simp_all
  then have m: "byte_at a mod 8 = x" using mod_mult_self3 [of 30 8 x] x by simp
  have low: "x = 0 \<Longrightarrow> 16 \<le> cont_bits c" "x = 4 \<Longrightarrow> cont_bits c \<le> 15"
    using assms(3) cont_byte [OF assms(4) bounds] by (auto simp: second_range_def x)
  have "char_of (240 + x) = a" using x by (metis char_of_byte_at)
  then show "encode_rune r = [a, c, d, e]"
    using encode_four [OF b(1) cont_bits_less cont_bits_less cont_bits_less low(1), of d e]
      cont_char [OF assms(4) bounds] cont_char [OF assms(5)] cont_char [OF assms(6)]
    by (simp add: r_def m)
  have "65536 \<le> r" using low(1) by (cases "x = 0"; simp add: r_def m)
  moreover have "r < 1114112"
    using cont_bits_less [of c] cont_bits_less [of d] cont_bits_less [of e] low(2) b(2)
    unfolding r_def m by (cases "x = 4"; linarith)
  ultimately show "128 \<le> r" "valid_rune r" by (simp_all add: valid_rune_def)
qed

lemma next_rune_ascii: "byte_at a < 128 \<Longrightarrow> next_rune a s = (byte_at a, 0)"
  by (simp add: next_rune_def split_def)

lemma next_rune_two:
  assumes "194 \<le> byte_at a" and "byte_at a < 224"
  shows "next_rune a s =
    (if 1 \<le> length s \<and> is_cont 128 191 (s ! 0) then (byte_at a mod 32 * 64 + cont_bits (s ! 0), 1) else (rune_error, 0))"
  using assms by (simp add: next_rune_def second_range_def Let_def)

lemma next_rune_three:
  assumes "224 \<le> byte_at a" and "byte_at a < 240" and "second_range (byte_at a) = (lo, hi)"
  shows "next_rune a s =
    (if 2 \<le> length s \<and> is_cont lo hi (s ! 0) \<and> is_cont 128 191 (s ! 1)
     then (byte_at a mod 16 * 4096 + cont_bits (s ! 0) * 64 + cont_bits (s ! 1), 2) else (rune_error, 0))"
  using assms by (simp add: next_rune_def Let_def)

lemma next_rune_four:
  assumes "240 \<le> byte_at a" and "byte_at a < 245" and "second_range (byte_at a) = (lo, hi)"
  shows "next_rune a s =
    (if 3 \<le> length s \<and> is_cont lo hi (s ! 0) \<and> is_cont 128 191 (s ! 1) \<and> is_cont 128 191 (s ! 2)
     then (byte_at a mod 8 * 262144 + cont_bits (s ! 0) * 4096 + cont_bits (s ! 1) * 64 + cont_bits (s ! 2), 3)
     else (rune_error, 0))"
  using assms by (simp add: next_rune_def Let_def)

lemma next_rune_other:
  assumes "128 \<le> byte_at a" and "byte_at a < 194 \<or> 245 \<le> byte_at a"
  shows "next_rune a s = (rune_error, 0)"
  using assms by (auto simp: next_rune_def split_def Let_def)

text \<open>A sequence of more than one byte that is the encoding of the rune it gives.\<close>

definition rune_sequence :: "char \<Rightarrow> string \<Rightarrow> nat \<Rightarrow> nat \<Rightarrow> bool" where
  "rune_sequence a s r k \<longleftrightarrow>
     0 < k \<and> k \<le> length s \<and> 128 \<le> r \<and> valid_rune r \<and> encode_rune r = a # take k s"

lemma two_byte_rune:
  assumes "194 \<le> byte_at a" "byte_at a < 224" and "next_rune a s = (r, k)"
  shows "rune_sequence a s r k \<or> r = rune_error \<and> k = 0"
proof (cases "1 \<le> length s \<and> is_cont 128 191 (s ! 0)")
  case True
  then have t: "1 \<le> length s" "is_cont 128 191 (s ! 0)" by simp_all
  from True assms(3) have r: "r = byte_at a mod 32 * 64 + cont_bits (s ! 0)" "k = 1"
    by (simp_all add: next_rune_two [OF assms(1,2)])
  from two_bytes [OF assms(1,2) t(2)] have "encode_rune r = a # take k s" "128 \<le> r" "valid_rune r"
    by (simp_all only: r take_nths(1) [OF t(1)] order.refl)
  with t(1) r(2) show ?thesis by (simp add: rune_sequence_def)
next
  case False
  with assms(3) show ?thesis by (auto simp: next_rune_two [OF assms(1,2)] simp del: One_nat_def)
qed

lemma three_byte_rune:
  assumes "224 \<le> byte_at a" "byte_at a < 240" "second_range (byte_at a) = (lo, hi)" and "next_rune a s = (r, k)"
  shows "rune_sequence a s r k \<or> r = rune_error \<and> k = 0"
proof (cases "2 \<le> length s \<and> is_cont lo hi (s ! 0) \<and> is_cont 128 191 (s ! 1)")
  case True
  then have t: "2 \<le> length s" "is_cont lo hi (s ! 0)" "is_cont 128 191 (s ! 1)" by simp_all
  from True assms(4) have r: "r = byte_at a mod 16 * 4096 + cont_bits (s ! 0) * 64 + cont_bits (s ! 1)" "k = 2"
    by (simp_all add: next_rune_three [OF assms(1-3)])
  from three_bytes [OF assms(1-3) t(2,3)] have "encode_rune r = a # take k s" "128 \<le> r" "valid_rune r"
    by (simp_all only: r take_nths(2) [OF t(1)])
  with t(1) r(2) show ?thesis by (simp add: rune_sequence_def)
next
  case False
  with assms(4) show ?thesis by (auto simp: next_rune_three [OF assms(1-3)] simp del: One_nat_def)
qed

lemma four_byte_rune:
  assumes "240 \<le> byte_at a" "byte_at a < 245" "second_range (byte_at a) = (lo, hi)" and "next_rune a s = (r, k)"
  shows "rune_sequence a s r k \<or> r = rune_error \<and> k = 0"
proof (cases "3 \<le> length s \<and> is_cont lo hi (s ! 0) \<and> is_cont 128 191 (s ! 1) \<and> is_cont 128 191 (s ! 2)")
  case True
  then have t: "3 \<le> length s" "is_cont lo hi (s ! 0)" "is_cont 128 191 (s ! 1)" "is_cont 128 191 (s ! 2)" by simp_all
  from True assms(4) have r: "k = 3"
      "r = byte_at a mod 8 * 262144 + cont_bits (s ! 0) * 4096 + cont_bits (s ! 1) * 64 + cont_bits (s ! 2)"
    by (simp_all add: next_rune_four [OF assms(1-3)])
  from four_bytes [OF assms(1-3) t(2-4)] have "encode_rune r = a # take k s" "128 \<le> r" "valid_rune r"
    by (simp_all only: r take_nths(3) [OF t(1)])
  with t(1) r(1) show ?thesis by (simp add: rune_sequence_def)
next
  case False
  with assms(4) show ?thesis by (auto simp: next_rune_four [OF assms(1-3)] simp del: One_nat_def)
qed

text \<open>The next rune is an ASCII byte, an error of one byte, or such a sequence.\<close>

lemma next_rune_cases:
  assumes "next_rune a s = (r, k)"
  obtains (ascii) "byte_at a < 128" "r = byte_at a" "k = 0"
    | (error) "128 \<le> byte_at a" "r = rune_error" "k = 0"
    | (sequence) "128 \<le> byte_at a" "0 < k" "k \<le> length s" "128 \<le> r" "valid_rune r" "encode_rune r = a # take k s"
proof (cases "byte_at a < 128")
  case True
  with assms have "r = byte_at a" "k = 0" by (simp_all add: next_rune_ascii)
  with True that(1) show thesis by blast
next
  case False
  obtain lo hi where sr: "second_range (byte_at a) = (lo, hi)" by fastforce
  have "next_rune a s = (rune_error, 0)" if "byte_at a < 194 \<or> 245 \<le> byte_at a"
    using False that by (simp add: next_rune_other)
  with assms two_byte_rune [OF _ _ assms] three_byte_rune [OF _ _ sr assms] four_byte_rune [OF _ _ sr assms]
  have "rune_sequence a s r k \<or> r = rune_error \<and> k = 0" by (metis Pair_inject not_le)
  with False that(2,3) show thesis unfolding rune_sequence_def by (metis not_le)
qed

lemma cont_bits_char_of: "y < 64 \<Longrightarrow> cont_bits (char_of (128 + y)) = y"
  using mod_mult_self3 [of 2 64 y] by (simp add: cont_bits_def byte_at_char_of)

lemma is_cont_char_of: "y < 64 \<Longrightarrow> is_cont lo hi (char_of (128 + y)) \<longleftrightarrow> lo \<le> 128 + y \<and> 128 + y \<le> hi"
  by (simp add: is_cont_def byte_at_char_of)

lemma base64_split: "(r :: nat) div 64 * 64 + r mod 64 = r"
  by simp

lemma next_rune_encode_three:
  assumes "2048 \<le> r" and "r < 65536" and "valid_rune r"
  shows "next_rune (char_of (224 + r div 4096)) (char_of (128 + r div 64 mod 64) # char_of (128 + r mod 64) # t) = (r, 2)"
proof -
  let ?x = "r div 4096" and ?y = "r div 64 mod 64" and ?z = "r mod 64"
  have d: "r div 4096 = r div 64 div 64" by (simp flip: div_mult2_eq)
  have r: "r = ?x * 4096 + ?y * 64 + ?z" unfolding d using base64_split [of r] base64_split [of "r div 64"] by linarith
  have x: "?x < 16" using assms(2) by simp
  have y: "?y < 64" and z: "?z < 64" by simp_all
  have a: "byte_at (char_of (224 + ?x)) = 224 + ?x" using x by (simp add: byte_at_char_of)
  have m: "(224 + ?x) mod 16 = ?x" using mod_mult_self3 [of 14 16 ?x] x by simp
  obtain lo hi where sr: "second_range (224 + ?x) = (lo, hi)" by fastforce
  have "32 \<le> ?y" if "?x = 0" using r y z assms(1) that by linarith
  moreover have "?y \<le> 31" if "?x = 13" using r y z assms(3) that unfolding valid_rune_def by linarith
  ultimately have "lo \<le> 128 + ?y \<and> 128 + ?y \<le> hi"
    using sr x y by (auto simp: second_range_def split: if_splits)
  then have "next_rune (char_of (224 + ?x)) (char_of (128 + ?y) # char_of (128 + ?z) # t) = (?x * 4096 + ?y * 64 + ?z, 2)"
    using next_rune_three [of "char_of (224 + ?x)" lo hi] a m sr x y z by (simp add: is_cont_char_of cont_bits_char_of)
  with r show ?thesis by simp
qed

lemma next_rune_encode_four:
  assumes "65536 \<le> r" and "r < 1114112"
  shows "next_rune (char_of (240 + r div 262144))
      (char_of (128 + r div 4096 mod 64) # char_of (128 + r div 64 mod 64) # char_of (128 + r mod 64) # t) = (r, 3)"
proof -
  let ?x = "r div 262144" and ?y = "r div 4096 mod 64" and ?z = "r div 64 mod 64" and ?v = "r mod 64"
  have d: "r div 4096 = r div 64 div 64" "r div 262144 = r div 4096 div 64" by (simp_all flip: div_mult2_eq)
  have r: "r = ?x * 262144 + ?y * 4096 + ?z * 64 + ?v"
    using base64_split [of r] base64_split [of "r div 64"] base64_split [of "r div 4096"] d by linarith
  have x: "?x \<le> 4" using assms(2) by simp
  have y: "?y < 64" and z: "?z < 64" and v: "?v < 64" by simp_all
  have le: "?z \<le> 63" "?v \<le> 63" using z v by linarith+
  have a: "byte_at (char_of (240 + ?x)) = 240 + ?x" using x by (simp add: byte_at_char_of)
  have m: "(240 + ?x) mod 8 = ?x" using mod_mult_self3 [of 30 8 ?x] x by simp
  obtain lo hi where sr: "second_range (240 + ?x) = (lo, hi)" by fastforce
  have "16 \<le> ?y" if "?x = 0" using r y z v assms(1) that by linarith
  moreover have "?y \<le> 15" if "?x = 4" using r y z v assms(2) that by linarith
  ultimately have "lo \<le> 128 + ?y \<and> 128 + ?y \<le> hi"
    using sr x y by (auto simp: second_range_def split: if_splits)
  then have "next_rune (char_of (240 + ?x)) (char_of (128 + ?y) # char_of (128 + ?z) # char_of (128 + ?v) # t) =
      (?x * 262144 + ?y * 4096 + ?z * 64 + ?v, 3)"
    using next_rune_four [of "char_of (240 + ?x)" lo hi] a m sr x y z v le by (simp add: is_cont_char_of cont_bits_char_of)
  with r show ?thesis by simp
qed

lemma next_rune_encode_two:
  assumes "128 \<le> r" and "r < 2048"
  shows "next_rune (char_of (192 + r div 64)) (char_of (128 + r mod 64) # t) = (r, 1)"
proof -
  let ?x = "r div 64" and ?y = "r mod 64"
  have x: "2 \<le> ?x" "?x < 32" using assms by simp_all
  have y: "?y < 64" by simp
  have a: "byte_at (char_of (192 + ?x)) = 192 + ?x" using x by (simp add: byte_at_char_of)
  have m: "(192 + ?x) mod 32 = ?x" using mod_mult_self3 [of 6 32 ?x] x by simp
  then have "next_rune (char_of (192 + ?x)) (char_of (128 + ?y) # t) = (?x * 64 + ?y, 1)"
    using next_rune_two [of "char_of (192 + ?x)"] a x y by (simp add: is_cont_char_of cont_bits_char_of)
  then show ?thesis by simp
qed

text \<open>An encoded rune is read back, whatever follows it.\<close>

lemma next_rune_encode:
  assumes "valid_rune r" and "encode_rune r = a # u"
  shows "next_rune a (u @ t) = (r, length u)"
proof -
  consider "r < 128" | "128 \<le> r" "r < 2048" | "2048 \<le> r" "r < 65536" | "65536 \<le> r" "r < 1114112"
    using assms(1) unfolding valid_rune_def by linarith
  then show ?thesis
  proof cases
    case 1
    with assms(2) show ?thesis by (auto simp: encode_rune_def next_rune_ascii byte_at_char_of)
  next
    case 2
    with assms(2) next_rune_encode_two [OF 2] show ?thesis by (auto simp: encode_rune_def)
  next
    case 3
    with assms(2) next_rune_encode_three [OF 3 assms(1)] show ?thesis by (auto simp: encode_rune_def)
  next
    case 4
    with assms(2) next_rune_encode_four [OF 4] show ?thesis by (auto simp: encode_rune_def)
  qed
qed

lemma encode_rune_Cons: obtains a u where "encode_rune r = a # u"
  by (cases "encode_rune r") (auto simp: encode_rune_def split: if_splits)

lemma runes_encode:
  assumes "valid_rune r"
  shows "runes (encode_rune r @ s) = r # runes s"
proof -
  obtain a u where "encode_rune r = a # u" by (rule encode_rune_Cons)
  with next_rune_encode [OF assms this] show ?thesis by simp
qed

lemma valid_rune_error [simp]: "valid_rune rune_error"
  by (simp add: valid_rune_def rune_error_def)

lemma next_rune_valid: "next_rune a s = (r, k) \<Longrightarrow> valid_rune r"
  by (erule next_rune_cases) (simp_all add: valid_rune_def rune_error_def)

lemma runes_valid: "\<forall>r \<in> set (runes s). valid_rune r"
proof (induction s rule: runes.induct)
  case (2 a s)
  obtain r k where rk: "next_rune a s = (r, k)" by fastforce
  with next_rune_valid [OF rk] "2.IH" [OF rk [symmetric]] show ?case by simp
qed simp

lemma runes_encodes: "\<forall>r \<in> set rs. valid_rune r \<Longrightarrow> runes (concat (map encode_rune rs)) = rs"
  by (induction rs) (simp_all add: runes_encode)

lemma runes_sanitize [simp]: "runes (sanitize s) = runes s"
  unfolding sanitize_def by (rule runes_encodes [OF runes_valid])

lemma sanitize_sanitize [simp]: "sanitize (sanitize s) = sanitize s"
  by (simp add: sanitize_def [of "sanitize s"]) (simp add: sanitize_def)

lemma sanitize_Cons: "next_rune a s = (r, k) \<Longrightarrow> sanitize (a # s) = encode_rune r @ sanitize (drop k s)"
  by (simp add: sanitize_def)

lemma sanitize_append: "sanitize s = s \<Longrightarrow> sanitize (s @ t) = s @ sanitize t"
proof -
  have "\<forall>r \<in> set rs. valid_rune r \<Longrightarrow> sanitize (concat (map encode_rune rs) @ t) = concat (map encode_rune rs) @ sanitize t" for rs
    by (induction rs) (simp_all add: sanitize_def [of "_ @ _"] runes_encode)
  from this [OF runes_valid [of s]] show "sanitize s = s \<Longrightarrow> sanitize (s @ t) = s @ sanitize t"
    by (simp add: sanitize_def [of s])
qed

end
