(* ===== verification/Go_Json.thy ===== *)
theory Go_Json
  imports Errors Quote_Store Go_Utf8
begin

text \<open>
  What the source uses of the standard library's \<open>encoding/json\<close> and \<open>time\<close>: JSON values, decoding
  them into structs, marshalling of strings, and the layout \<open>RFC3339Nano\<close> in UTC. The text syntax of JSON
  values is in \<open>Json_Text\<close>.
\<close>

section \<open>RFC 3339 timestamps\<close>

text \<open>Year, month and day of a day number since 1970-01-01 in the Gregorian calendar.\<close>

definition civil :: "int \<Rightarrow> int \<times> int \<times> int" where
  "civil days =
     (let z = days + 719468; era = z div 146097; doe = z mod 146097;
          yoe = (doe - doe div 1460 + doe div 36524 - doe div 146096) div 365;
          doy = doe - (365 * yoe + yoe div 4 - yoe div 100);
          mp = (5 * doy + 2) div 153; d = doy - (153 * mp + 2) div 5 + 1;
          m = (if mp < 10 then mp + 3 else mp - 9); y = yoe + era * 400 + (if m \<le> 2 then 1 else 0)
      in (y, m, d))"

definition pad :: "nat \<Rightarrow> int \<Rightarrow> string" where
  "pad w n = (let ds = show_nat (nat n) in replicate (w - length ds) (CHR ''0'') @ ds)"

definition fraction :: "int \<Rightarrow> string" where
  "fraction ns =
     (if ns = 0 then [] else CHR ''.'' # rev (dropWhile (\<lambda>c. c = CHR ''0'') (rev (pad 9 ns))))"

definition RFC3339Nano :: "time \<Rightarrow> string" where
  "RFC3339Nano t =
     (let s = t div second; (y, m, d) = civil (s div 86400); r = s mod 86400
      in pad 4 y @ ''-'' @ pad 2 m @ ''-'' @ pad 2 d @ ''T'' @ pad 2 (r div 3600) @ '':'' @
         pad 2 (r div 60 mod 60) @ '':'' @ pad 2 (r mod 60) @ fraction (t mod second) @ ''Z'')"

section \<open>Values and marshalling\<close>

datatype json =
    JNull
  | JBool bool
  | JInt int
  | JFloat rat
  | JStr string
  | JArr "json list"
  | JObj "(string \<times> json) list"

text \<open>The object a map marshals to: its keys in ascending order.\<close>

definition json_of_map :: "(string, json) gomap \<Rightarrow> json" where
  "json_of_map m = JObj (sort_by (\<lambda>a b. str_less (fst a) (fst b)) m)"

text \<open>String escapes of \<open>Marshal\<close> for ASCII, with its default of escaping HTML.\<close>

definition hex_digit :: "nat \<Rightarrow> char" where
  "hex_digit n = (if n < 10 then digit_char n else char_of (n + 87))"

definition json_escape_char :: "char \<Rightarrow> string" where
  "json_escape_char c =
     (let n = of_char c :: nat; bs = char_of (92::nat) in
      if n = 34 then [bs, CHR 0x22] else if n = 92 then [bs, bs]
      else if n = 8 then [bs, CHR ''b''] else if n = 12 then [bs, CHR ''f'']
      else if n = 10 then [bs, CHR ''n''] else if n = 13 then [bs, CHR ''r'']
      else if n = 9 then [bs, CHR ''t'']
      else if n < 32 \<or> n = 60 \<or> n = 62 \<or> n = 38
      then bs # ''u00'' @ [hex_digit (n div 16), hex_digit (n mod 16)]
      else [c])"

text \<open>
  Beyond ASCII, a byte outside every sequence is written as \<open>\ufffd\<close>, the two line separators
  of Unicode are escaped, and other sequences pass.
\<close>

definition json_escape_rune :: "nat \<Rightarrow> char \<Rightarrow> string \<Rightarrow> string" where
  "json_escape_rune r a s =
     (if r < 128 then json_escape_char a
      else if r = rune_error \<and> s = [] then CHR 0x5C # ''ufffd''
      else if r = 8232 then CHR 0x5C # ''u2028''
      else if r = 8233 then CHR 0x5C # ''u2029''
      else a # s)"

function json_escape :: "string \<Rightarrow> string" where
  "json_escape [] = []"
| "json_escape (a # s) = (case next_rune a s of (r, k) \<Rightarrow> json_escape_rune r a (take k s) @ json_escape (drop k s))"
  by pat_completeness auto
termination by (relation "measure length") auto

definition json_string :: "string \<Rightarrow> string" where
  "json_string s = [CHR 0x22] @ json_escape s @ [CHR 0x22]"

definition show_int :: "int \<Rightarrow> string" where
  "show_int n = (if n < 0 then CHR ''-'' # show_nat (nat (- n)) else show_nat (nat n))"

text \<open>The values the source marshals to text are strings and objects of strings.\<close>

definition marshal_strings :: "(string, string) gomap \<Rightarrow> string" where
  "marshal_strings m =
     ''{'' @ concat (map (\<lambda>(n, (k, v)). (if n = 0 then [] else '','') @ json_string k @ '':'' @ json_string v)
       (enumerate 0 (sort_by (\<lambda>a b. str_less (fst a) (fst b)) m))) @ ''}''"

section \<open>Decoding\<close>

text \<open>
  A key of an object selects the field of the same name up to Unicode case folding, under which the long s
  and the Kelvin sign are the ASCII letters they look like; other keys are skipped. A
  \<open>null\<close> leaves a field as it is, and a value of another type than the field's is an error.
\<close>

definition fold_rune :: "nat \<Rightarrow> nat" where
  "fold_rune r = (if 65 \<le> r \<and> r \<le> 90 then r + 32 else if r = 383 then 115 else if r = 8490 then 107 else r)"

definition is_field :: "string \<Rightarrow> string \<Rightarrow> bool" where
  "is_field name key \<longleftrightarrow> map fold_rune (runes key) = map byte_at name"

text \<open>A lower-case key selects the field of exactly its name.\<close>

definition plain_key :: "string \<Rightarrow> bool" where
  "plain_key key \<longleftrightarrow> list_all (\<lambda>c. byte_at c < 128 \<and> (byte_at c < 65 \<or> 90 < byte_at c)) key"

lemma is_field_plain:
  assumes "plain_key key"
  shows "is_field name key \<longleftrightarrow> name = key"
proof -
  have "map fold_rune (runes key) = map byte_at key"
    using assms by (simp add: plain_key_def list_all_iff runes_ascii) (auto simp: fold_rune_def)
  moreover have "inj byte_at" by (metis char_of_byte_at injI)
  ultimately show ?thesis by (metis is_field_def inj_map_eq_map)
qed

lemma sanitize_plain: "plain_key key \<Longrightarrow> sanitize key = key"
  by (rule sanitize_ascii) (simp add: plain_key_def list_all_iff)

definition decode_string :: "json \<Rightarrow> string \<Rightarrow> string option" where
  "decode_string j old = (case j of JNull \<Rightarrow> Some old | JStr s \<Rightarrow> Some s | _ \<Rightarrow> None)"

fun decode_fields :: "(string \<Rightarrow> json \<Rightarrow> 'a \<Rightarrow> 'a option) \<Rightarrow> (string \<times> json) list \<Rightarrow> 'a \<Rightarrow> 'a option" where
  "decode_fields f [] x = Some x"
| "decode_fields f ((k, j) # kjs) x = (case f k j x of None \<Rightarrow> None | Some x' \<Rightarrow> decode_fields f kjs x')"

definition decode_struct :: "(string \<Rightarrow> json \<Rightarrow> 'a \<Rightarrow> 'a option) \<Rightarrow> json \<Rightarrow> 'a \<Rightarrow> 'a option" where
  "decode_struct f j x =
     (case j of JNull \<Rightarrow> Some x | JObj kjs \<Rightarrow> decode_fields f kjs x | _ \<Rightarrow> None)"

text \<open>
  A slice is its backing array as far as it was ever written, and its length; nil is \<open>None\<close>. An array is
  decoded into the elements the backing array already has, so that a repeated key merges into what the
  first one left; an empty array makes a new slice and \<open>null\<close> a nil one.
\<close>

type_synonym 'a slice = "('a list \<times> nat) option"

definition slice_list :: "'a slice \<Rightarrow> 'a list" where
  "slice_list s = (case s of None \<Rightarrow> [] | Some (mem, n) \<Rightarrow> take n mem)"

fun decode_elems :: "(json \<Rightarrow> 'a \<Rightarrow> 'a option) \<Rightarrow> 'a \<Rightarrow> 'a list \<Rightarrow> json list \<Rightarrow> 'a list option" where
  "decode_elems f zero mem [] = Some []"
| "decode_elems f zero mem (j # js) =
     (case f j (case mem of [] \<Rightarrow> zero | x # _ \<Rightarrow> x) of
        None \<Rightarrow> None
      | Some x \<Rightarrow> map_option (Cons x) (decode_elems f zero (tl mem) js))"

definition decode_slice :: "(json \<Rightarrow> 'a \<Rightarrow> 'a option) \<Rightarrow> 'a \<Rightarrow> json \<Rightarrow> 'a slice \<Rightarrow> 'a slice option" where
  "decode_slice f zero j old =
     (case j of
        JNull \<Rightarrow> Some None
      | JArr js \<Rightarrow>
          (if js = [] then Some (Some ([], 0))
           else let mem = (case old of None \<Rightarrow> [] | Some (mem, n) \<Rightarrow> mem) in
             map_option (\<lambda>xs. Some (xs @ drop (length xs) mem, length xs)) (decode_elems f zero mem js))
      | _ \<Rightarrow> None)"

definition empty_request :: quoteRequest where
  "empty_request = \<lparr>req_From = [], req_To = [], req_Amount = [], req_UserTier = [], req_Side = []\<rparr>"

definition quoteRequest_field :: "string \<Rightarrow> json \<Rightarrow> quoteRequest \<Rightarrow> quoteRequest option" where
  "quoteRequest_field k j q =
     (if is_field ''from'' k then map_option (\<lambda>s. q\<lparr>req_From := s\<rparr>) (decode_string j (req_From q))
      else if is_field ''to'' k then map_option (\<lambda>s. q\<lparr>req_To := s\<rparr>) (decode_string j (req_To q))
      else if is_field ''amount'' k then map_option (\<lambda>s. q\<lparr>req_Amount := s\<rparr>) (decode_string j (req_Amount q))
      else if is_field ''user_tier'' k
      then map_option (\<lambda>s. q\<lparr>req_UserTier := s\<rparr>) (decode_string j (req_UserTier q))
      else if is_field ''side'' k then map_option (\<lambda>s. q\<lparr>req_Side := s\<rparr>) (decode_string j (req_Side q))
      else Some q)"

definition decode_quoteRequest :: "json \<Rightarrow> quoteRequest option" where
  "decode_quoteRequest j = decode_struct quoteRequest_field j empty_request"

text \<open>The struct \<open>{Items []T}\<close>.\<close>

definition decode_items :: "(json \<Rightarrow> 'a \<Rightarrow> 'a option) \<Rightarrow> 'a \<Rightarrow> json \<Rightarrow> 'a slice option" where
  "decode_items f zero j =
     decode_struct (\<lambda>k v items. if is_field ''items'' k then decode_slice f zero v items else Some items) j None"

definition decode_bulkRequest :: "json \<Rightarrow> bulkRequest option" where
  "decode_bulkRequest j =
     map_option (\<lambda>items. \<lparr>bulk_Items = slice_list items\<rparr>)
       (decode_items (decode_struct quoteRequest_field) empty_request j)"

definition decode_claimedBy :: "json \<Rightarrow> string option" where
  "decode_claimedBy j =
     decode_struct (\<lambda>k v s. if is_field ''claimed_by'' k then decode_string v s else Some s) j []"

end
