(* ===== verification/Logger.thy ===== *)
theory Logger
  imports Go_Json
begin

text \<open>
  \<open>internal/logger.go\<close>: the levelled logger that writes one JSON object per line, with its own string
  escaper and integer printer, and a reader of such lines that the lines are checked against. The time
  prefix that the standard logger puts before a line is left out.
\<close>

section \<open>Escaping\<close>

definition escape_rune :: "nat \<Rightarrow> string" where
  "escape_rune r =
     (let bs = CHR 0x5C in
      if r = 34 then [bs, CHR 0x22]
      else if r = 92 then [bs, bs]
      else if r = 10 then [bs, CHR ''n'']
      else if r = 13 then [bs, CHR ''r'']
      else if r = 9 then [bs, CHR ''t'']
      else if r < 32 then bs # ''u00'' @ [hex_digit (r div 16), hex_digit (r mod 16)]
      else encode_rune r)"

definition jsonEscape :: "string \<Rightarrow> string" where
  "jsonEscape s = concat (map escape_rune (runes s))"

section \<open>Integers\<close>

text \<open>
  \<open>itoa\<close> fills a buffer of 20 bytes from its end; \<open>i\<close> is the index of the last byte written, and a write
  below index 0 panics (\<open>None\<close>). Negating the smallest integer gives itself.
\<close>

function itoa_loop :: "nat \<Rightarrow> string \<Rightarrow> int \<Rightarrow> (nat \<times> string) option" where
  "itoa_loop i buf v =
     (if 0 < v then (if i = 0 then None else itoa_loop (i - 1) (digit_char (nat (v mod 10)) # buf) (v div 10))
      else Some (i, buf))"
  by pat_completeness auto
termination by (relation "measure (\<lambda>(i, buf, v). i)") auto

declare itoa_loop.simps [simp del]

definition itoa :: "int \<Rightarrow> string option" where
  "itoa v =
     (if v = 0 then Some ''0''
      else let neg = v < 0; v' = (if neg then wrap64 (- v) else v) in
        case itoa_loop 20 [] v' of
          None \<Rightarrow> None
        | Some (i, buf) \<Rightarrow>
            if neg then (if i = 0 then None else Some (CHR ''-'' # buf)) else Some buf)"

section \<open>Log lines\<close>

datatype field_value = FString string | FInt int | FError string | FAny

record field =
  f_k :: string
  f_v :: field_value

definition FStr :: "string \<Rightarrow> string \<Rightarrow> field" where "FStr k v = \<lparr>f_k = k, f_v = FString v\<rparr>"
definition fInt :: "string \<Rightarrow> int \<Rightarrow> field" where "fInt k v = \<lparr>f_k = k, f_v = FInt v\<rparr>"
definition FErr :: "string \<Rightarrow> field" where "FErr err = \<lparr>f_k = ''err'', f_v = FString err\<rparr>"

definition formatAny :: string where "formatAny = []"

definition quoted :: "string \<Rightarrow> string" where
  "quoted s = CHR 0x22 # jsonEscape s @ [CHR 0x22]"

definition field_json :: "field \<Rightarrow> string option" where
  "field_json f =
     (case f_v f of
        FString v \<Rightarrow> Some (quoted v)
      | FInt v \<Rightarrow> itoa v
      | FError e \<Rightarrow> Some (quoted e)
      | FAny \<Rightarrow> Some (quoted formatAny))"

fun write_fields :: "field list \<Rightarrow> string option" where
  "write_fields [] = Some []"
| "write_fields (f # fs) =
     do { v \<leftarrow> field_json f; rest \<leftarrow> write_fields fs;
          Some (CHR '','' # quoted (f_k f) @ '':'' @ v @ rest) }"

definition log_line :: "string \<Rightarrow> field list \<Rightarrow> string option" where
  "log_line msg fs =
     do { rest \<leftarrow> write_fields fs;
          Some (''{'' @ [CHR 0x22] @ ''msg'' @ [CHR 0x22] @ '':'' @ quoted msg @ rest @ ''}'') }"

record logger =
  lg_level :: int

definition lvlDebug :: int where "lvlDebug = 0"
definition lvlInfo :: int where "lvlInfo = 1"
definition lvlWarn :: int where "lvlWarn = 2"
definition lvlError :: int where "lvlError = 3"

definition NewLogger :: "string \<Rightarrow> logger" where
  "NewLogger level =
     (let l = ToLower (TrimSpace level) in
      \<lparr>lg_level = (if l = ''debug'' then lvlDebug else if l = ''warn'' then lvlWarn
                   else if l = ''error'' then lvlError else lvlInfo)\<rparr>)"

text \<open>The lines on the output after a call; \<open>None\<close> is a panic.\<close>

definition log_call :: "logger \<Rightarrow> int \<Rightarrow> string \<Rightarrow> field list \<Rightarrow> string list \<Rightarrow> string list option" where
  "log_call l level msg fs out =
     (if level < lg_level l then Some out
      else map_option (\<lambda>line. out @ [line]) (log_line msg fs))"

definition log_Debug :: "logger \<Rightarrow> string \<Rightarrow> field list \<Rightarrow> string list \<Rightarrow> string list option" where
  "log_Debug l = log_call l lvlDebug"
definition log_Info :: "logger \<Rightarrow> string \<Rightarrow> field list \<Rightarrow> string list \<Rightarrow> string list option" where
  "log_Info l = log_call l lvlInfo"
definition log_Warn :: "logger \<Rightarrow> string \<Rightarrow> field list \<Rightarrow> string list \<Rightarrow> string list option" where
  "log_Warn l = log_call l lvlWarn"
definition log_Error :: "logger \<Rightarrow> string \<Rightarrow> field list \<Rightarrow> string list \<Rightarrow> string list option" where
  "log_Error l = log_call l lvlError"

text \<open>The package-level logger, replaced by a logger that is not nil.\<close>

definition pkgLogger :: logger where "pkgLogger = NewLogger ''info''"

definition setPkgLogger :: "logger option \<Rightarrow> logger \<Rightarrow> logger" where
  "setPkgLogger l pkg = (case l of Some l \<Rightarrow> l | None \<Rightarrow> pkg)"

text \<open>The package-level helpers, on the current default logger.\<close>

definition logWarn :: "logger \<Rightarrow> string \<Rightarrow> field list \<Rightarrow> string list \<Rightarrow> string list option" where
  "logWarn pkg msg fs out = log_Warn pkg msg fs out"
definition logInfo :: "logger \<Rightarrow> string \<Rightarrow> field list \<Rightarrow> string list \<Rightarrow> string list option" where
  "logInfo pkg msg fs out = log_Info pkg msg fs out"

section \<open>A reader of JSON lines\<close>

text \<open>
  Strings of RFC 8259, after the opening quote: the value and what follows the closing quote. A control
  byte or an unknown escape is an error; of the escapes by code only those below 256 are read.
\<close>

definition char_hex :: "char \<Rightarrow> nat option" where
  "char_hex c =
     (let n = byte_at c in
      if 48 \<le> n \<and> n < 58 then Some (n - 48) else if 97 \<le> n \<and> n < 103 then Some (n - 87) else None)"

fun read_string :: "string \<Rightarrow> (string \<times> string) option" where
  "read_string [] = None"
| "read_string (c # s) =
     (if c = CHR 0x22 then Some ([], s)
      else if c = CHR 0x5C then
        (case s of
           [] \<Rightarrow> None
         | e # s' \<Rightarrow>
             if e = CHR 0x22 \<or> e = CHR 0x5C \<or> e = CHR ''/'' then map_option (apfst (Cons e)) (read_string s')
             else if e = CHR ''n'' then map_option (apfst (Cons (CHR 0x0A))) (read_string s')
             else if e = CHR ''r'' then map_option (apfst (Cons (CHR 0x0D))) (read_string s')
             else if e = CHR ''t'' then map_option (apfst (Cons (CHR 0x09))) (read_string s')
             else if e = CHR ''b'' then map_option (apfst (Cons (CHR 0x08))) (read_string s')
             else if e = CHR ''f'' then map_option (apfst (Cons (CHR 0x0C))) (read_string s')
             else if e = CHR ''u'' then
               (case s' of
                  z # y # h # l # s'' \<Rightarrow>
                    (case (char_hex h, char_hex l) of
                       (Some a, Some b) \<Rightarrow>
                         if z = CHR ''0'' \<and> y = CHR ''0''
                         then map_option (apfst (append (encode_rune (16 * a + b)))) (read_string s'') else None
                     | _ \<Rightarrow> None)
                | _ \<Rightarrow> None)
             else None)
      else if byte_at c < 32 then None
      else map_option (apfst (Cons c)) (read_string s))"

datatype log_value = LStr string | LInt int

definition int_char :: "char \<Rightarrow> bool" where
  "int_char c \<longleftrightarrow> c = CHR ''-'' \<or> char_digit c \<noteq> None"

definition read_value :: "string \<Rightarrow> (log_value \<times> string) option" where
  "read_value s =
     (if s \<noteq> [] \<and> hd s = CHR 0x22 then map_option (apfst LStr) (read_string (tl s))
      else map_option (\<lambda>n. (LInt n, dropWhile int_char s)) (Atoi (takeWhile int_char s)))"

definition read_member :: "string \<Rightarrow> ((string \<times> log_value) \<times> string) option" where
  "read_member s =
     (case s of
        c # s1 \<Rightarrow>
          if c = CHR 0x22 then
            (case read_string s1 of
               Some (k, d # s2) \<Rightarrow>
                 if d = CHR '':'' then map_option (apfst (Pair k)) (read_value s2) else None
             | _ \<Rightarrow> None)
          else None
      | [] \<Rightarrow> None)"

text \<open>At most as many members as there are bytes.\<close>

fun read_members :: "nat \<Rightarrow> string \<Rightarrow> (string \<times> log_value) list option" where
  "read_members 0 s = None"
| "read_members (Suc n) s =
     (case read_member s of
        Some (kv, c # s') \<Rightarrow>
          if c = CHR '','' then map_option (Cons kv) (read_members n s')
          else if c = CHR ''}'' \<and> s' = [] then Some [kv] else None
      | _ \<Rightarrow> None)"

definition read_line :: "string \<Rightarrow> (string \<times> log_value) list option" where
  "read_line s = (case s of c # s' \<Rightarrow> if c = CHR ''{'' then read_members (length s') s' else None | [] \<Rightarrow> None)"

section \<open>Strings read back\<close>

lemma read_plain:
  assumes "\<forall>c \<in> set u. 32 \<le> byte_at c \<and> byte_at c \<noteq> 34 \<and> byte_at c \<noteq> 92"
  shows "read_string (u @ s) = map_option (apfst (append u)) (read_string s)"
  using assms
proof (induction u)
  case Nil
  then show ?case by (cases "read_string s") auto
next
  case (Cons c u)
  then have "c \<noteq> CHR 0x22" "c \<noteq> CHR 0x5C" "\<not> byte_at c < 32" by (auto simp: byte_at_def)
  with Cons show ?case by (cases "read_string s") auto
qed

lemma char_hex_digit: "n < 16 \<Longrightarrow> char_hex (hex_digit n) = Some n"
  by (auto simp: char_hex_def hex_digit_def digit_char_def byte_at_def Let_def)

lemma append_one: "map_option (apfst (append [c])) x = map_option (apfst (Cons c)) x"
  by (cases x) auto

lemma read_escape_short:
  "read_string (escape_rune 34 @ s) = map_option (apfst (append (encode_rune 34))) (read_string s)"
  "read_string (escape_rune 92 @ s) = map_option (apfst (append (encode_rune 92))) (read_string s)"
  "read_string (escape_rune 10 @ s) = map_option (apfst (append (encode_rune 10))) (read_string s)"
  "read_string (escape_rune 13 @ s) = map_option (apfst (append (encode_rune 13))) (read_string s)"
  "read_string (escape_rune 9 @ s) = map_option (apfst (append (encode_rune 9))) (read_string s)"
proof -
  have "encode_rune 34 = [CHR 0x22]" "encode_rune 92 = [CHR 0x5C]" "encode_rune 10 = [CHR 0x0A]"
    "encode_rune 13 = [CHR 0x0D]" "encode_rune 9 = [CHR 0x09]"
    by code_simp+
  note enc = this [THEN arg_cong [of _ _ "\<lambda>e. map_option (apfst (append e)) (read_string s)"], unfolded append_one]
  show "read_string (escape_rune 34 @ s) = map_option (apfst (append (encode_rune 34))) (read_string s)"
    "read_string (escape_rune 92 @ s) = map_option (apfst (append (encode_rune 92))) (read_string s)"
    "read_string (escape_rune 10 @ s) = map_option (apfst (append (encode_rune 10))) (read_string s)"
    "read_string (escape_rune 13 @ s) = map_option (apfst (append (encode_rune 13))) (read_string s)"
    "read_string (escape_rune 9 @ s) = map_option (apfst (append (encode_rune 9))) (read_string s)"
    unfolding enc by (simp_all add: escape_rune_def Let_def)
qed

lemma read_escape:
  assumes "r < 2097152"
  shows "read_string (escape_rune r @ s) = map_option (apfst (append (encode_rune r))) (read_string s)"
proof -
  consider "r = 34 \<or> r = 92 \<or> r = 10 \<or> r = 13 \<or> r = 9"
    | "r < 32" "r \<noteq> 10" "r \<noteq> 13" "r \<noteq> 9" | "32 \<le> r" "r \<noteq> 34" "r \<noteq> 92"
    by linarith
  then show ?thesis
  proof cases
    case 1
    then show ?thesis using read_escape_short by blast
  next
    case 2
    have "escape_rune r = CHR 0x5C # ''u00'' @ [hex_digit (r div 16), hex_digit (r mod 16)]"
      using 2 by (simp add: escape_rune_def)
    moreover have "char_hex (hex_digit (r div 16)) = Some (r div 16)" "char_hex (hex_digit (r mod 16)) = Some (r mod 16)"
      using 2(1) by (simp_all add: char_hex_digit)
    ultimately show ?thesis by simp
  next
    case 3
    then have "escape_rune r = encode_rune r" by (simp add: escape_rune_def)
    with read_plain [OF encode_rune_plain [OF 3 assms]] show ?thesis by simp
  qed
qed

lemma read_escapes:
  "(\<forall>r \<in> set rs. r < 2097152) \<Longrightarrow>
   read_string (concat (map escape_rune rs) @ CHR 0x22 # rest) = Some (concat (map encode_rune rs), rest)"
  by (induction rs) (simp_all add: read_escape)

lemma read_jsonEscape: "read_string (jsonEscape s @ CHR 0x22 # rest) = Some (sanitize s, rest)"
  unfolding jsonEscape_def sanitize_def by (rule read_escapes [OF runes_bounded])

section \<open>Integers read back\<close>

lemma length_show_nat: "n < 10 ^ Suc k \<Longrightarrow> length (show_nat n) \<le> Suc k"
proof (induction k arbitrary: n)
  case 0
  then show ?case by (subst show_nat.simps) simp
next
  case (Suc k)
  then have "length (show_nat (n div 10)) \<le> Suc k" by (intro Suc.IH) (simp add: less_mult_imp_div_less mult.commute)
  then show ?case by (subst show_nat.simps) simp
qed

lemma itoa_loop_digits:
  assumes "0 < v" and "length (show_nat (nat v)) \<le> i"
  shows "itoa_loop i buf v = Some (i - length (show_nat (nat v)), show_nat (nat v) @ buf)"
  using assms
proof (induction i arbitrary: v buf)
  case (Suc i)
  show ?case
  proof (cases "v < 10")
    case True
    with Suc.prems have sh: "show_nat (nat v) = [digit_char (nat v)]" by (subst show_nat.simps) simp
    from True Suc.prems(1) have "itoa_loop (Suc i) buf v = itoa_loop i (digit_char (nat v) # buf) 0"
      by (subst itoa_loop.simps) simp
    also have "\<dots> = Some (i, digit_char (nat v) # buf)" by (subst itoa_loop.simps) simp
    finally show ?thesis by (simp add: sh)
  next
    case False
    have sh: "show_nat (nat v) = show_nat (nat (v div 10)) @ [digit_char (nat (v mod 10))]"
      using False by (subst show_nat.simps) (simp add: nat_div_distrib nat_mod_distrib)
    from Suc.prems(1) have "itoa_loop (Suc i) buf v = itoa_loop i (digit_char (nat (v mod 10)) # buf) (v div 10)"
      by (subst itoa_loop.simps) simp
    with Suc.IH [of "v div 10" "digit_char (nat (v mod 10)) # buf"] Suc.prems False sh show ?thesis by simp
  qed
qed simp

lemma itoa_show_int:
  assumes "in_int64 v" and "v \<noteq> - (2 ^ 63)"
  shows "itoa v = Some (show_int v)"
proof (cases "v = 0")
  case True
  have "show_nat 0 = ''0''" by code_simp
  with True show ?thesis by (simp add: itoa_def show_int_def)
next
  case False
  let ?v = "if v < 0 then - v else v"
  have wrap: "wrap64 (- v) = - v" using assms by (intro wrap64_id) (auto simp: in_int64_def)
  have "nat ?v < 10 ^ Suc 18" using assms by (auto simp: in_int64_def)
  then have "length (show_nat (nat ?v)) \<le> 19" using length_show_nat [of "nat ?v" 18] by simp
  then have "itoa_loop 20 [] ?v = Some (20 - length (show_nat (nat ?v)), show_nat (nat ?v))"
    and "0 < 20 - length (show_nat (nat ?v))"
    using itoa_loop_digits [of ?v 20 "[]"] False by auto
  with False wrap show ?thesis by (auto simp: itoa_def show_int_def Let_def split: if_splits)
qed

lemma Atoi_show_int: "in_int64 v \<Longrightarrow> Atoi (show_int v) = Some v"
  using Atoi_show_nat [of "nat v"] Atoi_minus_show_nat [of "nat (- v)"] by (auto simp: show_int_def)

lemma itoa_smallest: "itoa (- (2 ^ 63)) = Some ''-''"
proof -
  have "wrap64 (2 ^ 63) = - (2 ^ 63)" by (simp add: wrap64_def)
  moreover have "itoa_loop 20 [] (- (2 ^ 63)) = Some (20, [])" by (subst itoa_loop.simps) simp
  ultimately show ?thesis by (simp add: itoa_def Let_def)
qed

section \<open>Lines read back\<close>

definition field_ok :: "field \<Rightarrow> bool" where
  "field_ok f = (case f_v f of FInt n \<Rightarrow> in_int64 n \<and> n \<noteq> - (2 ^ 63) | _ \<Rightarrow> True)"

definition field_meaning :: "field \<Rightarrow> string \<times> log_value" where
  "field_meaning f =
     (sanitize (f_k f),
      case f_v f of FString v \<Rightarrow> LStr (sanitize v) | FInt n \<Rightarrow> LInt n | FError e \<Rightarrow> LStr (sanitize e) | FAny \<Rightarrow> LStr [])"

definition reads_member :: "string \<Rightarrow> string \<times> log_value \<Rightarrow> bool" where
  "reads_member u kv \<longleftrightarrow> (\<forall>c rest. \<not> int_char c \<longrightarrow> read_member (u @ c # rest) = Some (kv, c # rest))"

lemma read_quoted: "read_value (quoted s @ rest) = Some (LStr (sanitize s), rest)"
  by (simp add: read_value_def quoted_def read_jsonEscape)

lemma show_int_chars: "c \<in> set (show_int v) \<Longrightarrow> int_char c"
  using show_nat_digits [of c] by (fastforce simp: show_int_def int_char_def split: if_splits)

lemma read_show_int:
  assumes "in_int64 v" and "\<not> int_char c"
  shows "read_value (show_int v @ c # rest) = Some (LInt v, c # rest)"
proof -
  have "takeWhile int_char (show_int v @ c # rest) = show_int v" "dropWhile int_char (show_int v @ c # rest) = c # rest"
    using assms(2) show_int_chars by (simp_all add: takeWhile_append2 dropWhile_append2)
  moreover have "show_int v @ c # rest \<noteq> [] \<and> hd (show_int v @ c # rest) \<noteq> CHR 0x22"
  proof -
    have "show_int v \<noteq> []" by (simp add: show_int_def)
    then have "int_char (hd (show_int v))" using show_int_chars by (meson list.set_sel(1))
    then show ?thesis using \<open>show_int v \<noteq> []\<close> by (auto simp: int_char_def char_digit_def)
  qed
  ultimately show ?thesis by (simp add: read_value_def Atoi_show_int [OF assms(1)])
qed

lemma reads_member_quoted:
  assumes "\<And>c rest. \<not> int_char c \<Longrightarrow> read_value (t @ c # rest) = Some (v, c # rest)"
  shows "reads_member (quoted k @ '':'' @ t) (sanitize k, v)"
  using assms by (simp add: reads_member_def read_member_def quoted_def read_jsonEscape)

lemma reads_member_string: "reads_member (quoted k @ CHR '':'' # quoted v) (sanitize k, LStr (sanitize v))"
  using reads_member_quoted [of "quoted v" "LStr (sanitize v)" k] by (simp add: read_quoted)

lemma field_json_reads:
  assumes "field_ok f"
  shows "\<exists>t. field_json f = Some t \<and> reads_member (quoted (f_k f) @ '':'' @ t) (field_meaning f)"
proof (cases "f_v f")
  case (FInt n)
  with assms have "in_int64 n" "itoa n = Some (show_int n)" by (simp_all add: field_ok_def itoa_show_int)
  with FInt show ?thesis
    using reads_member_quoted [of "show_int n" "LInt n" "f_k f"] by (simp add: field_json_def field_meaning_def read_show_int)
qed (use reads_member_string [of "f_k f" "[]"] in \<open>simp_all add: field_json_def field_meaning_def reads_member_string formatAny_def\<close>)

lemma write_fields_reads:
  assumes "list_all field_ok fs"
  shows "\<exists>t. write_fields fs = Some t \<and> length fs \<le> length t \<and>
    (\<forall>u kv n. reads_member u kv \<longrightarrow> length fs \<le> n \<longrightarrow>
      read_members (Suc n) (u @ t @ ''}'') = Some (kv # map field_meaning fs))"
  using assms
proof (induction fs)
  case Nil
  have "\<not> int_char (CHR ''}'')" by (simp add: int_char_def char_digit_def)
  then show ?case by (auto simp: reads_member_def)
next
  case (Cons f fs)
  from Cons.prems have ok: "field_ok f" "list_all field_ok fs" by simp_all
  obtain t where t: "field_json f = Some t" and m: "reads_member (quoted (f_k f) @ '':'' @ t) (field_meaning f)"
    using field_json_reads [OF ok(1)] by blast
  obtain ts where ts: "write_fields fs = Some ts" "length fs \<le> length ts"
    and IH: "\<And>u kv n. reads_member u kv \<Longrightarrow> length fs \<le> n \<Longrightarrow>
      read_members (Suc n) (u @ ts @ ''}'') = Some (kv # map field_meaning fs)"
    using Cons.IH [OF ok(2)] by blast
  have comma: "\<not> int_char (CHR '','')" by (simp add: int_char_def char_digit_def)
  have "read_members (Suc n) (u @ (CHR '','' # quoted (f_k f) @ '':'' @ t @ ts) @ ''}'') = Some (kv # map field_meaning (f # fs))"
    if u: "reads_member u kv" and le: "length (f # fs) \<le> n" for u kv n
  proof -
    obtain n' where n: "n = Suc n'" "length fs \<le> n'" using le by (cases n) auto
    from IH [OF m n(2)] u comma n(1) show ?thesis by (simp add: reads_member_def)
  qed
  with t ts show ?case by simp
qed

lemma log_line_meaning:
  assumes "list_all field_ok fs"
  shows "\<exists>line. log_line msg fs = Some line \<and>
    read_line line = Some ((''msg'', LStr (sanitize msg)) # map field_meaning fs)"
proof -
  obtain t where t: "write_fields fs = Some t" "length fs \<le> length t"
    and r: "\<And>u kv n. reads_member u kv \<Longrightarrow> length fs \<le> n \<Longrightarrow>
      read_members (Suc n) (u @ t @ ''}'') = Some (kv # map field_meaning fs)"
    using write_fields_reads [OF assms] by blast
  have msg: "jsonEscape ''msg'' = ''msg''" "sanitize ''msg'' = ''msg''" by code_simp+
  have m: "reads_member (quoted ''msg'' @ '':'' @ quoted msg) (''msg'', LStr (sanitize msg))"
    using reads_member_quoted [of "quoted msg" "LStr (sanitize msg)" "''msg''"] by (simp add: read_quoted msg)
  let ?rest = "quoted ''msg'' @ '':'' @ quoted msg @ t @ ''}''"
  have line: "log_line msg fs = Some (''{'' @ ?rest)" by (simp add: log_line_def t quoted_def msg)
  obtain n where "length ?rest = Suc n" "length fs \<le> n" using t(2) by (simp add: quoted_def)
  with r [OF m, of n] have "read_line (''{'' @ ?rest) = Some ((''msg'', LStr (sanitize msg)) # map field_meaning fs)"
    by (simp add: read_line_def)
  with line show ?thesis by blast
qed

text \<open>A line has no control bytes: nothing that is logged can start a line of its own.\<close>

definition printable :: "string \<Rightarrow> bool" where
  "printable s \<longleftrightarrow> (\<forall>c \<in> set s. 32 \<le> byte_at c)"

lemma printable_simps [simp]:
  "printable []" "printable (c # s) \<longleftrightarrow> 32 \<le> byte_at c \<and> printable s" "printable (s @ t) \<longleftrightarrow> printable s \<and> printable t"
  by (auto simp: printable_def)

lemma byte_at_CHR [simp]:
  "byte_at (CHR 0x22) = 34" "byte_at (CHR 0x5C) = 92" "byte_at (CHR '':'') = 58" "byte_at (CHR '','') = 44"
  "byte_at (CHR ''{'') = 123" "byte_at (CHR ''}'') = 125" "byte_at (CHR ''-'') = 45"
  "byte_at (CHR ''n'') = 110" "byte_at (CHR ''r'') = 114" "byte_at (CHR ''t'') = 116" "byte_at (CHR ''u'') = 117"
  "byte_at (CHR ''0'') = 48" "byte_at (CHR ''m'') = 109" "byte_at (CHR ''s'') = 115" "byte_at (CHR ''g'') = 103"
  by (simp_all add: byte_at_def)

lemma printable_escape:
  assumes "r < 2097152"
  shows "printable (escape_rune r)"
proof -
  have "printable (encode_rune r)" if "32 \<le> r" "r \<noteq> 34" "r \<noteq> 92"
    using encode_rune_plain [OF that assms] by (simp add: printable_def)
  moreover have "32 \<le> byte_at (hex_digit n)" if "n < 16" for n
    using that by (simp add: hex_digit_def digit_char_def byte_at_def)
  ultimately show ?thesis by (simp add: escape_rune_def Let_def)
qed

lemma printable_quoted: "printable (quoted s)"
  using runes_bounded [of s] printable_escape
  by (auto simp: quoted_def jsonEscape_def printable_def)

lemma printable_show_nat: "printable (show_nat n)"
  using show_nat_digits [of _ n] by (force simp: printable_def digit_char_def byte_at_def)

lemma printable_field: "field_ok f \<Longrightarrow> field_json f = Some t \<Longrightarrow> printable t"
  using printable_quoted printable_show_nat
  by (auto simp: field_json_def field_ok_def itoa_show_int show_int_def split: field_value.splits)

lemma printable_fields: "list_all field_ok fs \<Longrightarrow> write_fields fs = Some t \<Longrightarrow> printable t"
  by (induction fs arbitrary: t) (auto simp: printable_quoted printable_field split: bind_splits)

section \<open>Properties\<close>

text \<open>
  (C26) A call below the level of the logger writes nothing; any other call writes exactly one line, free
  of control bytes, that a JSON reader reads back as the message and the fields in order, as long as
  no field is the smallest integer. Whatever the message and the fields contain, they cannot forge a
  line or a field.
\<close>

theorem log_call_writes_one_line:
  assumes ok: "list_all field_ok fs"
  shows "if level < lg_level l then log_call l level msg fs out = Some out
    else \<exists>line. log_call l level msg fs out = Some (out @ [line]) \<and> printable line \<and>
      read_line line = Some ((''msg'', LStr (sanitize msg)) # map field_meaning fs)"
proof -
  obtain line where line: "log_line msg fs = Some line"
    "read_line line = Some ((''msg'', LStr (sanitize msg)) # map field_meaning fs)"
    using log_line_meaning [OF ok] by blast
  then have "printable line"
    using printable_fields [OF ok] by (auto simp: log_line_def printable_quoted split: bind_splits)
  with line show ?thesis by (simp add: log_call_def)
qed

text \<open> The integer printer never runs out of its 20 bytes, and \<open>Atoi\<close> reads back what it prints, for every
  64-bit integer but the smallest, which negation leaves negative: of that one it prints the sign.
\<close>

lemma itoa_round_trip:
  assumes "in_int64 v"
  shows "if v = - (2 ^ 63) then itoa v = Some ''-'' else \<exists>s. itoa v = Some s \<and> Atoi s = Some v"
  using assms itoa_show_int [OF assms] itoa_smallest Atoi_show_int [OF assms] by simp

section \<open>Concrete instances\<close>

theorem log_call_writes_one_line_witness:
  "\<exists>line. log_call (NewLogger ''warn'') lvlError [CHR ''a'', CHR 0x0A, CHR 0x22] [fInt ''n'' (- 42)] [] = Some [line] \<and>
     printable line \<and>
     read_line line = Some [(''msg'', LStr [CHR ''a'', CHR 0x0A, CHR 0x22]), (''n'', LInt (- 42))]"
proof -
  have lvl: "\<not> lvlError < lg_level (NewLogger ''warn'')"
    by (simp add: NewLogger_def Let_def lvlError_def lvlWarn_def lvlDebug_def lvlInfo_def)
  have san: "sanitize [CHR ''a'', CHR 0x0A, CHR 0x22] = [CHR ''a'', CHR 0x0A, CHR 0x22]" "sanitize ''n'' = ''n''"
    by code_simp+
  show ?thesis
    using log_call_writes_one_line [of "[fInt ''n'' (- 42)]" lvlError "NewLogger ''warn''"
        "[CHR ''a'', CHR 0x0A, CHR 0x22]" "[]"] lvl san
    by (simp add: fInt_def field_ok_def field_meaning_def in_int64_def)
qed


end
