(* ===== verification/Rate_Cache.thy ===== *)
theory Rate_Cache
  imports Decimal_Interface
begin

text \<open>
  The bounded LRU cache of \<open>internal/spot.go\<close>: a map from keys to elements of a doubly linked list
  (\<open>container/list\<close>), most recently used first. The locale \<open>rate_cache\<close> is what the spot service
  relies on; it is interpreted on the two-structure implementation, which refines a plain
  recency-ordered association list.
\<close>

record 'd Rate =
  r_From :: string
  r_To :: string
  r_Bid :: 'd
  r_Ask :: 'd
  r_Mid :: 'd
  r_TS :: time
  r_SourceVenue :: string
  r_Stale :: bool

section \<open>The implementation\<close>

text \<open>
  A list element is an object with an identity; \<open>items\<close> holds the identities of elements, the list
  holds \<open>(identity, key, rate)\<close> front to back.
\<close>

type_synonym 'd element = "nat \<times> string \<times> 'd Rate"

record 'd lruCache =
  c_cap :: int
  c_items :: "(string, nat) gomap"
  c_ll :: "'d element list"
  c_next :: nat

definition newLRUCache :: "int \<Rightarrow> 'd lruCache" where
  "newLRUCache cap = \<lparr>c_cap = (if cap \<le> 0 then 4096 else cap), c_items = [], c_ll = [], c_next = 0\<rparr>"

definition find_element :: "nat \<Rightarrow> 'd element list \<Rightarrow> 'd element option" where
  "find_element i ll = find (\<lambda>x. fst x = i) ll"

definition MoveToFront :: "nat \<Rightarrow> 'd element list \<Rightarrow> 'd element list" where
  "MoveToFront i ll =
     (case find_element i ll of None \<Rightarrow> ll | Some x \<Rightarrow> x # filter (\<lambda>y. fst y \<noteq> i) ll)"

definition set_rate :: "nat \<Rightarrow> 'd Rate \<Rightarrow> 'd element list \<Rightarrow> 'd element list" where
  "set_rate i r ll = map (\<lambda>(j, k, v). if j = i then (j, k, r) else (j, k, v)) ll"

definition evict_oldest :: "'d lruCache \<Rightarrow> 'd lruCache" where
  "evict_oldest c =
     (if c_cap c \<le> int (length (c_ll c)) then
        (case rev (c_ll c) of
           [] \<Rightarrow> c
         | oldest # _ \<Rightarrow> c\<lparr>c_ll := butlast (c_ll c),
                            c_items := AList.delete (fst (snd oldest)) (c_items c)\<rparr>)
      else c)"

definition lru_put :: "string \<Rightarrow> 'd Rate \<Rightarrow> 'd lruCache \<Rightarrow> 'd lruCache" where
  "lru_put key r c =
     (case map_of (c_items c) key of
        Some el \<Rightarrow> c\<lparr>c_ll := MoveToFront el (set_rate el r (c_ll c))\<rparr>
      | None \<Rightarrow>
          (let c' = evict_oldest c
           in c'\<lparr>c_ll := (c_next c', key, r) # c_ll c',
                 c_items := AList.update key (c_next c') (c_items c'),
                 c_next := Suc (c_next c')\<rparr>))"

definition lru_get :: "string \<Rightarrow> 'd lruCache \<Rightarrow> 'd Rate option \<times> 'd lruCache" where
  "lru_get key c =
     (case map_of (c_items c) key of
        None \<Rightarrow> (None, c)
      | Some el \<Rightarrow> (map_option (\<lambda>x. snd (snd x)) (find_element el (c_ll c)),
                    c\<lparr>c_ll := MoveToFront el (c_ll c)\<rparr>))"

section \<open>The specification: a recency list\<close>

definition recency :: "'d lruCache \<Rightarrow> (string \<times> 'd Rate) list" where
  "recency c = map snd (c_ll c)"

definition spec_put :: "int \<Rightarrow> string \<Rightarrow> 'v \<Rightarrow> (string \<times> 'v) list \<Rightarrow> (string \<times> 'v) list" where
  "spec_put cap k v xs =
     (if k \<in> fst ` set xs then (k, v) # filter (\<lambda>p. fst p \<noteq> k) xs
      else (k, v) # (if cap \<le> int (length xs) then butlast xs else xs))"

definition spec_get :: "string \<Rightarrow> (string \<times> 'v) list \<Rightarrow> 'v option \<times> (string \<times> 'v) list" where
  "spec_get k xs =
     (case map_of xs k of None \<Rightarrow> (None, xs) | Some v \<Rightarrow> (Some v, (k, v) # filter (\<lambda>p. fst p \<noteq> k) xs))"

text \<open>
  The two structures agree: the map sends exactly the keys of the list to the identities of their
  elements, identities and keys are distinct, and the list is no longer than the capacity.
\<close>

definition lru_inv :: "'d lruCache \<Rightarrow> bool" where
  "lru_inv c \<longleftrightarrow> 0 < c_cap c \<and> int (length (c_ll c)) \<le> c_cap c \<and>
     distinct (map fst (c_ll c)) \<and> distinct (map fst (recency c)) \<and>
     list_all (\<lambda>x. fst x < c_next c) (c_ll c) \<and>
     map_of (c_items c) = map_of (map (\<lambda>x. (fst (snd x), fst x)) (c_ll c))"

lemma lru_inv_new: "lru_inv (newLRUCache cap)"
  by (simp add: lru_inv_def newLRUCache_def recency_def)

lemma find_element_map_of: "find_element i ll = map_option (Pair i) (map_of ll i)"
  by (induction ll) (auto simp: find_element_def)

lemma map_of_items:
  assumes "lru_inv c"
  shows "map_of (c_items c) k = Some i \<longleftrightarrow> (\<exists>r. (i, k, r) \<in> set (c_ll c))"
    and "map_of (c_items c) k = None \<longleftrightarrow> k \<notin> fst ` set (recency c)"
proof -
  have d: "distinct (map fst (map (\<lambda>x. (fst (snd x), fst x)) (c_ll c)))"
    using assms by (simp add: lru_inv_def recency_def comp_def)
  show "map_of (c_items c) k = Some i \<longleftrightarrow> (\<exists>r. (i, k, r) \<in> set (c_ll c))"
    using map_of_eq_Some_iff [OF d, of k i] assms by (force simp: lru_inv_def)
  show "map_of (c_items c) k = None \<longleftrightarrow> k \<notin> fst ` set (recency c)"
    using assms by (simp add: lru_inv_def map_of_eq_None_iff recency_def image_image)
qed

lemma element_of_key:
  assumes "lru_inv c" and "map_of (c_items c) k = Some i"
  obtains r where "map_of (c_ll c) i = Some (k, r)" and "map_of (recency c) k = Some r"
proof -
  from map_of_items(1) [OF assms(1)] assms(2) obtain r where r: "(i, k, r) \<in> set (c_ll c)" by auto
  moreover have "(k, r) \<in> set (recency c)" using r by (force simp: recency_def)
  ultimately show ?thesis
    using assms(1) that by (simp add: lru_inv_def)
qed

text \<open>In a list with distinct identities and keys, dropping an identity is dropping its key.\<close>

lemma filter_id_key:
  assumes "distinct (map fst ll)" and "distinct (map fst (map snd ll))" and "(i, k, r) \<in> set ll"
  shows "map snd (filter (\<lambda>y. fst y \<noteq> i) ll) = filter (\<lambda>p. fst p \<noteq> k) (map snd ll)"
proof -
  have "fst y \<noteq> i \<longleftrightarrow> fst (snd y) \<noteq> k" if "y \<in> set ll" for y
    using assms that by (auto simp: distinct_map inj_on_def) (metis fst_conv snd_conv)+
  then have "filter (\<lambda>y. fst y \<noteq> i) ll = filter (\<lambda>y. fst (snd y) \<noteq> k) ll"
    by (rule filter_cong [OF refl])
  then show ?thesis by (simp add: filter_map comp_def)
qed

lemma map_of_filter_key:
  "map_of (map (\<lambda>x. (fst (snd x), fst x)) (filter (\<lambda>y. fst (snd y) \<noteq> k) ll)) k' =
     (if k' = k then None else map_of (map (\<lambda>x. (fst (snd x), fst x)) ll) k')"
  by (induction ll) auto

section \<open>Refinement\<close>

text \<open>Moving an element to the front with a new rate, common to \<open>put\<close> and \<open>get\<close>.\<close>

lemma refresh_element:
  assumes inv: "lru_inv c" and el: "map_of (c_items c) k = Some i"
    and c': "c' = c\<lparr>c_ll := (i, k, r) # filter (\<lambda>y. fst y \<noteq> i) (c_ll c)\<rparr>"
  shows "lru_inv c'" and "recency c' = (k, r) # filter (\<lambda>p. fst p \<noteq> k) (recency c)"
proof -
  obtain r0 where mem: "(i, k, r0) \<in> set (c_ll c)" using map_of_items(1) [OF inv] el by auto
  have d: "distinct (map fst (c_ll c))" "distinct (map fst (map snd (c_ll c)))"
    using inv by (simp_all add: lru_inv_def recency_def)
  note flt = filter_id_key [OF d mem]
  show rec: "recency c' = (k, r) # filter (\<lambda>p. fst p \<noteq> k) (recency c)"
    using flt by (simp add: c' recency_def)
  have key: "filter (\<lambda>y. fst y \<noteq> i) (c_ll c) = filter (\<lambda>y. fst (snd y) \<noteq> k) (c_ll c)"
    using d mem by (intro filter_cong) (auto simp: distinct_map inj_on_def, (metis fst_conv snd_conv)+)
  have len: "length (filter (\<lambda>y. fst y \<noteq> i) (c_ll c)) < length (c_ll c)"
    using mem by (intro length_filter_less [of "(i, k, r0)"]) simp_all
  have "i < c_next c" using inv mem by (auto simp: lru_inv_def list_all_iff)
  moreover have "map_of (c_items c) = map_of (map (\<lambda>x. (fst (snd x), fst x)) (c_ll c'))"
  proof
    fix k'
    show "map_of (c_items c) k' = map_of (map (\<lambda>x. (fst (snd x), fst x)) (c_ll c')) k'"
      using inv el by (simp add: c' key map_of_filter_key lru_inv_def)
  qed
  moreover have "distinct (map fst (recency c'))"
    using inv unfolding rec by (auto simp: lru_inv_def distinct_map_filter)
  moreover have "distinct (map fst (c_ll c'))"
    using d(1) by (auto simp: c' distinct_map_filter)
  ultimately show "lru_inv c'"
    using inv len by (auto simp: lru_inv_def c' list_all_iff recency_def)
qed

lemma evict_oldest_inv:
  assumes inv: "lru_inv c"
  shows "lru_inv (evict_oldest c)" and "int (length (c_ll (evict_oldest c))) < c_cap c"
    and "recency (evict_oldest c) =
      (if c_cap c \<le> int (length (recency c)) then butlast (recency c) else recency c)"
    and "c_cap (evict_oldest c) = c_cap c" and "c_next (evict_oldest c) = c_next c"
proof -
  have "lru_inv (evict_oldest c) \<and> int (length (c_ll (evict_oldest c))) < c_cap c \<and>
    recency (evict_oldest c) =
      (if c_cap c \<le> int (length (recency c)) then butlast (recency c) else recency c) \<and>
    c_cap (evict_oldest c) = c_cap c \<and> c_next (evict_oldest c) = c_next c"
  proof (cases "c_cap c \<le> int (length (c_ll c))")
    case False
    with inv show ?thesis by (simp add: evict_oldest_def recency_def)
  next
    case True
    with inv have "c_ll c \<noteq> []" by (auto simp: lru_inv_def)
    then obtain xs i k r where ll: "c_ll c = xs @ [(i, k, r)]"
      by (metis prod_cases3 rev_exhaust)
    then have ev: "evict_oldest c = c\<lparr>c_ll := xs, c_items := AList.delete k (c_items c)\<rparr>"
      using True by (simp add: evict_oldest_def)
    have "k \<notin> (\<lambda>x. fst (snd x)) ` set xs"
      using inv by (auto simp: lru_inv_def recency_def ll)
    then have none: "map_of (map (\<lambda>x. (fst (snd x), fst x)) xs) k = None"
      by (force simp: map_of_eq_None_iff)
    have "map_of (AList.delete k (c_items c)) = map_of (map (\<lambda>x. (fst (snd x), fst x)) xs)"
    proof
      fix k'
      show "map_of (AList.delete k (c_items c)) k' = map_of (map (\<lambda>x. (fst (snd x), fst x)) xs) k'"
        using inv none
        by (auto simp: map_of_delete_if lru_inv_def ll map_add_def split: option.split)
    qed
    with inv True show ?thesis by (auto simp: ev lru_inv_def ll recency_def)
  qed
  then show "lru_inv (evict_oldest c)" and "int (length (c_ll (evict_oldest c))) < c_cap c"
    and "recency (evict_oldest c) =
      (if c_cap c \<le> int (length (recency c)) then butlast (recency c) else recency c)"
    and "c_cap (evict_oldest c) = c_cap c" and "c_next (evict_oldest c) = c_next c"
    by simp_all
qed

lemma filter_set_rate: "filter (\<lambda>y. fst y \<noteq> i) (set_rate i r ll) = filter (\<lambda>y. fst y \<noteq> i) ll"
  by (induction ll) (auto simp: set_rate_def split: if_splits)

lemma find_set_rate: "map_of ll i = Some (k, r0) \<Longrightarrow> find_element i (set_rate i r ll) = Some (i, k, r)"
  by (induction ll) (auto simp: set_rate_def find_element_def split: if_splits)

lemma lru_put_hit:
  assumes inv: "lru_inv c" and el: "map_of (c_items c) k = Some i"
  shows "lru_put k r c = c\<lparr>c_ll := (i, k, r) # filter (\<lambda>y. fst y \<noteq> i) (c_ll c)\<rparr>"
proof -
  obtain r0 where "map_of (c_ll c) i = Some (k, r0)" using element_of_key [OF inv el] by blast
  then show ?thesis
    using find_set_rate [of "c_ll c" i k r0 r] el
    by (simp add: lru_put_def MoveToFront_def filter_set_rate)
qed

lemma lru_get_hit:
  assumes inv: "lru_inv c" and el: "map_of (c_items c) k = Some i"
  obtains r where "map_of (recency c) k = Some r"
    and "lru_get k c = (Some r, c\<lparr>c_ll := (i, k, r) # filter (\<lambda>y. fst y \<noteq> i) (c_ll c)\<rparr>)"
proof -
  obtain r where r: "map_of (c_ll c) i = Some (k, r)" "map_of (recency c) k = Some r"
    using element_of_key [OF inv el] by blast
  then show ?thesis
    using el that by (simp add: lru_get_def MoveToFront_def find_element_map_of)
qed

lemma lru_put_refines:
  assumes inv: "lru_inv c"
  shows "lru_inv (lru_put k r c)"
    and "recency (lru_put k r c) = spec_put (c_cap c) k r (recency c)"
proof -
  have "lru_inv (lru_put k r c) \<and> recency (lru_put k r c) = spec_put (c_cap c) k r (recency c)"
  proof (cases "map_of (c_items c) k")
    case (Some i)
    then have "k \<in> fst ` set (recency c)" using map_of_items(2) [OF inv, of k] by auto
    then show ?thesis
      using refresh_element [OF inv Some lru_put_hit [OF inv Some]] by (simp add: spec_put_def)
  next
    case None
    define e where "e = evict_oldest c"
    note ev = evict_oldest_inv [OF inv, folded e_def]
    have put: "lru_put k r c = e\<lparr>c_ll := (c_next e, k, r) # c_ll e,
        c_items := AList.update k (c_next e) (c_items e), c_next := Suc (c_next e)\<rparr>"
      using None by (simp add: lru_put_def e_def Let_def)
    have new: "k \<notin> fst ` set (recency c)" using map_of_items(2) [OF inv, of k] None by simp
    moreover have "set (recency e) \<subseteq> set (recency c)"
      using ev(3) by (auto dest: in_set_butlastD)
    ultimately have "k \<notin> fst ` set (recency e)" by blast
    moreover have "c_next e \<notin> fst ` set (c_ll e)"
      using ev(1) by (auto simp: lru_inv_def list_all_iff)
    ultimately have "lru_inv (lru_put k r c)"
      using ev(1,2,4) by (auto simp: put lru_inv_def recency_def list_all_iff less_SucI fun_eq_iff)
    moreover have "recency (lru_put k r c) = spec_put (c_cap c) k r (recency c)"
      using new ev(3) by (simp add: put spec_put_def recency_def)
    ultimately show ?thesis ..
  qed
  then show "lru_inv (lru_put k r c)"
    and "recency (lru_put k r c) = spec_put (c_cap c) k r (recency c)" by simp_all
qed

lemma lru_get_refines:
  assumes inv: "lru_inv c"
  shows "lru_inv (snd (lru_get k c))"
    and "(fst (lru_get k c), recency (snd (lru_get k c))) = spec_get k (recency c)"
proof -
  have "lru_inv (snd (lru_get k c)) \<and>
    (fst (lru_get k c), recency (snd (lru_get k c))) = spec_get k (recency c)"
  proof (cases "map_of (c_items c) k")
    case None
    then have "map_of (recency c) k = None"
      using map_of_items(2) [OF inv, of k] by (simp add: map_of_eq_None_iff)
    with None inv show ?thesis by (simp add: lru_get_def spec_get_def)
  next
    case (Some i)
    obtain r where r: "map_of (recency c) k = Some r"
      and g: "lru_get k c = (Some r, c\<lparr>c_ll := (i, k, r) # filter (\<lambda>y. fst y \<noteq> i) (c_ll c)\<rparr>)"
      using lru_get_hit [OF inv Some] by blast
    from refresh_element [OF inv Some, of "snd (lru_get k c)" r] r g show ?thesis
      by (simp add: spec_get_def)
  qed
  then show "lru_inv (snd (lru_get k c))"
    and "(fst (lru_get k c), recency (snd (lru_get k c))) = spec_get k (recency c)" by simp_all
qed

lemma c_cap_put [simp]: "c_cap (lru_put k r c) = c_cap c"
  by (auto simp: lru_put_def evict_oldest_def Let_def split: option.split list.split)

lemma recency_bounded: "lru_inv c \<Longrightarrow> int (length (recency c)) \<le> c_cap c"
  by (simp add: lru_inv_def recency_def)

text \<open>
  (C15) The cache, a map of element pointers kept beside a linked list, implements a recency list:
  \<open>put\<close> and \<open>get\<close> keep the two structures consistent and the capacity bound, return what the
  recency list returns and leave the recency list in the same order, the least recently used entry
  being the one that is dropped at capacity.
\<close>

theorem lru_cache_refines_recency_list:
  assumes "lru_inv c"
  shows "lru_inv (lru_put k r c) \<and> lru_inv (snd (lru_get k c)) \<and>
    recency (lru_put k r c) = spec_put (c_cap c) k r (recency c) \<and>
    (fst (lru_get k c), recency (snd (lru_get k c))) = spec_get k (recency c) \<and>
    int (length (recency (lru_put k r c))) \<le> c_cap c"
  using lru_put_refines [OF assms, of k r] lru_get_refines [OF assms, of k]
    recency_bounded [of "lru_put k r c"]
  by (simp only: c_cap_put simp_thms)

definition ex_rate :: "string \<Rightarrow> int \<Rightarrow> time \<Rightarrow> dec10 Rate" where
  "ex_rate to p t = \<lparr>r_From = ''USD'', r_To = to, r_Bid = (p, 0), r_Ask = (p, 0), r_Mid = (p, 0),
     r_TS = t, r_SourceVenue = ''kraken'', r_Stale = False\<rparr>"

text \<open>A cache of capacity two: reading \<open>a\<close> makes \<open>b\<close> the entry that the next \<open>put\<close> drops.\<close>

definition ex_cache :: "dec10 lruCache" where
  "ex_cache = snd (lru_get ''a'' (lru_put ''b'' (ex_rate ''b'' 2 0)
     (lru_put ''a'' (ex_rate ''a'' 1 0) (newLRUCache 2))))"

lemma ex_cache_inv: "lru_inv ex_cache"
  unfolding ex_cache_def by (intro lru_get_refines(1) lru_put_refines(1) lru_inv_new)

theorem lru_cache_refines_recency_list_witness:
  "recency (lru_put ''c'' (ex_rate ''c'' 3 0) ex_cache) =
     [(''c'', ex_rate ''c'' 3 0), (''a'', ex_rate ''a'' 1 0)]"
proof -
  have "recency (lru_put ''c'' (ex_rate ''c'' 3 0) ex_cache) =
      spec_put (c_cap ex_cache) ''c'' (ex_rate ''c'' 3 0) (recency ex_cache)"
    using lru_cache_refines_recency_list [OF ex_cache_inv] by blast
  also have "\<dots> = [(''c'', ex_rate ''c'' 3 0), (''a'', ex_rate ''a'' 1 0)]"
    by (simp add: spec_put_def recency_def ex_cache_def lru_get_def lru_put_def newLRUCache_def
        evict_oldest_def MoveToFront_def find_element_def Let_def)
  finally show ?thesis .
qed

section \<open>The interface of the cache\<close>

locale rate_cache =
  fixes put :: "string \<Rightarrow> 'r \<Rightarrow> 'c \<Rightarrow> 'c"
    and get :: "string \<Rightarrow> 'c \<Rightarrow> 'r option \<times> 'c"
    and lookup :: "'c \<Rightarrow> string \<Rightarrow> 'r option"
    and invar :: "'c \<Rightarrow> bool"
  assumes get_value: "invar c \<Longrightarrow> fst (get k c) = lookup c k"
    and get_keeps: "invar c \<Longrightarrow> lookup (snd (get k c)) = lookup c"
    and put_same: "invar c \<Longrightarrow> lookup (put k r c) k = Some r"
    and put_other: "invar c \<Longrightarrow> k' \<noteq> k \<Longrightarrow> lookup (put k r c) k' \<in> {lookup c k', None}"
    and invar_get: "invar c \<Longrightarrow> invar (snd (get k c))"
    and invar_put: "invar c \<Longrightarrow> invar (put k r c)"
begin

lemma get_after_put: "invar c \<Longrightarrow> fst (get k (put k r c)) = Some r"
  by (simp add: get_value invar_put put_same)

lemma get_after_get: "invar c \<Longrightarrow> fst (get k' (snd (get k c))) = fst (get k' c)"
  by (simp add: get_value get_keeps invar_get)

text \<open>A value found after a \<open>put\<close> of another key was there before.\<close>

lemma put_no_invention: "invar c \<Longrightarrow> k' \<noteq> k \<Longrightarrow> lookup (put k r c) k' = Some v \<Longrightarrow> lookup c k' = Some v"
  using put_other [of c k' k r] by auto

end

definition lru_lookup :: "'d lruCache \<Rightarrow> string \<Rightarrow> 'd Rate option" where
  "lru_lookup c = map_of (recency c)"

lemma map_of_butlast: "map_of (butlast xs) k \<in> {map_of xs k, None}"
  by (induction xs) auto

lemma map_of_filter_ne: "map_of (filter (\<lambda>p. fst p \<noteq> k) xs) k' = (if k' = k then None else map_of xs k')"
  by (induction xs) auto

interpretation lru: rate_cache lru_put lru_get lru_lookup lru_inv
proof (unfold_locales, goal_cases)
  case (1 c k)
  then show ?case
    using lru_get_refines(2) [OF 1, of k]
    by (auto simp: lru_lookup_def spec_get_def split: option.splits)
next
  case (2 c k)
  show ?case
  proof
    fix k'
    show "lru_lookup (snd (lru_get k c)) k' = lru_lookup c k'"
      using lru_get_refines(2) [OF 2, of k]
      by (auto simp: lru_lookup_def spec_get_def map_of_filter_ne split: option.splits)
  qed
next
  case (3 c k r)
  then show ?case by (simp add: lru_lookup_def lru_put_refines(2) spec_put_def)
next
  case (4 c k' k r)
  then show ?case
    using map_of_butlast [of "recency c" k']
    by (simp add: lru_lookup_def lru_put_refines(2) spec_put_def map_of_filter_ne)
next
  case (5 c k)
  then show ?case by (rule lru_get_refines(1))
next
  case (6 c k r)
  then show ?case by (rule lru_put_refines(1))
qed

end
