(* ===== verification/Metrics.thy ===== *)
theory Metrics
  imports Go_Strings
begin

text \<open>
  \<open>internal/metrics.go\<close>: the process-wide collectors the modelled operations move (a histogram as the
  list of the durations it observed), the path labels of the request metrics, and the string splitter
  they use.
\<close>

section \<open>Collectors\<close>

record metrics =
  m_spotCacheHits :: int
  m_spotCacheMisses :: int
  m_spotPollTotal :: "(string, int) gomap"
  m_spotPubsubLagMs :: int
  m_loadedSchedules :: int
  m_quoteRequestSeconds :: "(string, duration list) gomap"
  m_quoteStatusTotal :: "(string \<times> string, int) gomap"
  m_quoteSourceStale :: int
  m_venueFailover :: "(string \<times> string, int) gomap"
  m_wsActiveConnections :: int
  m_wsMessagesSent :: int
  m_wsMessagesDropped :: int
  m_fxLookupSeconds :: "duration list"
  m_claimTotal :: "(string, int) gomap"

definition newMetrics :: metrics where
  "newMetrics = \<lparr>m_spotCacheHits = 0, m_spotCacheMisses = 0, m_spotPollTotal = [],
     m_spotPubsubLagMs = 0, m_loadedSchedules = 0, m_quoteRequestSeconds = [], m_quoteStatusTotal = [], m_quoteSourceStale = 0,
     m_venueFailover = [], m_wsActiveConnections = 0, m_wsMessagesSent = 0,
     m_wsMessagesDropped = 0, m_fxLookupSeconds = [], m_claimTotal = []\<rparr>"

text \<open>\<open>WithLabelValues(k).Inc()\<close> on a counter vector; an unused label counts zero.\<close>

definition vec_count :: "('k, int) gomap \<Rightarrow> 'k \<Rightarrow> int" where
  "vec_count v k = (case map_of v k of None \<Rightarrow> 0 | Some n \<Rightarrow> n)"

definition vec_inc :: "'k \<Rightarrow> ('k, int) gomap \<Rightarrow> ('k, int) gomap" where
  "vec_inc k v = AList.update k (vec_count v k + 1) v"

lemma vec_count_inc: "vec_count (vec_inc k v) k' = vec_count v k' + (if k' = k then 1 else 0)"
  by (simp add: vec_count_def vec_inc_def)

definition inc_hits :: "metrics \<Rightarrow> metrics" where
  "inc_hits m = m\<lparr>m_spotCacheHits := m_spotCacheHits m + 1\<rparr>"
definition inc_misses :: "metrics \<Rightarrow> metrics" where
  "inc_misses m = m\<lparr>m_spotCacheMisses := m_spotCacheMisses m + 1\<rparr>"
definition inc_stale :: "metrics \<Rightarrow> metrics" where
  "inc_stale m = m\<lparr>m_quoteSourceStale := m_quoteSourceStale m + 1\<rparr>"
definition inc_failover :: "string \<Rightarrow> string \<Rightarrow> metrics \<Rightarrow> metrics" where
  "inc_failover a b m = m\<lparr>m_venueFailover := vec_inc (a, b) (m_venueFailover m)\<rparr>"
definition inc_poll :: "string \<Rightarrow> metrics \<Rightarrow> metrics" where
  "inc_poll r m = m\<lparr>m_spotPollTotal := vec_inc r (m_spotPollTotal m)\<rparr>"
definition inc_claim :: "string \<Rightarrow> metrics \<Rightarrow> metrics" where
  "inc_claim r m = m\<lparr>m_claimTotal := vec_inc r (m_claimTotal m)\<rparr>"

definition observed :: "(string, duration list) gomap \<Rightarrow> string \<Rightarrow> duration list" where
  "observed v k = (case map_of v k of None \<Rightarrow> [] | Some ds \<Rightarrow> ds)"

definition observe_request :: "string \<Rightarrow> duration \<Rightarrow> metrics \<Rightarrow> metrics" where
  "observe_request path d m =
     m\<lparr>m_quoteRequestSeconds := AList.update path (observed (m_quoteRequestSeconds m) path @ [d]) (m_quoteRequestSeconds m)\<rparr>"

lemma observed_request:
  "observed (m_quoteRequestSeconds (observe_request path d m)) k =
    observed (m_quoteRequestSeconds m) k @ (if k = path then [d] else [])"
  by (simp add: observe_request_def observed_def)

text \<open>The total of a vector over the second label.\<close>

definition vec_total :: "('a \<times> 'b, int) gomap \<Rightarrow> 'a \<Rightarrow> int" where
  "vec_total v a = sum_list (map snd (filter (\<lambda>((x, y), n). x = a) v))"

lemma vec_total_Cons:
  "vec_total ((k, n) # v) a = (if fst k = a then n else 0) + vec_total v a"
  by (cases k) (simp add: vec_total_def)

lemma vec_total_inc: "vec_total (vec_inc k v) a = vec_total v a + (if fst k = a then 1 else 0)"
proof (induction v)
  case Nil
  then show ?case by (simp add: vec_inc_def vec_count_def vec_total_def split_def)
next
  case (Cons e v)
  obtain k' n where e: "e = (k', n)" by (cases e)
  show ?case
  proof (cases "k' = k")
    case True
    then show ?thesis by (simp add: e vec_inc_def vec_count_def vec_total_Cons)
  next
    case False
    then have "vec_inc k (e # v) = e # vec_inc k v" by (simp add: e vec_inc_def vec_count_def)
    with Cons.IH show ?thesis by (simp add: e vec_total_Cons)
  qed
qed

section \<open>Splitting\<close>

text \<open>
  The loop of \<open>splitN\<close>: \<open>out\<close> the parts so far, \<open>cur\<close> the bytes since \<open>start\<close>, then the bytes to come.
\<close>

fun splitN_loop :: "char \<Rightarrow> int \<Rightarrow> string list \<Rightarrow> string \<Rightarrow> string \<Rightarrow> string list" where
  "splitN_loop sep n out cur [] = out @ [cur]"
| "splitN_loop sep n out cur (c # cs) =
     (if c = sep then
        (let out' = out @ [cur] in
         if 0 < n \<and> n \<le> int (length out') + 1 then out' @ [cs]
         else splitN_loop sep n out' [] cs)
      else splitN_loop sep n out (cur @ [c]) cs)"

definition splitN :: "string \<Rightarrow> char \<Rightarrow> int \<Rightarrow> string list" where
  "splitN s sep n = splitN_loop sep n [] [] s"

section \<open>Path labels\<close>

definition labeledPath :: "string \<Rightarrow> string" where
  "labeledPath p =
     (if HasPrefix p ''/v1/quotes/'' then
        (let parts = splitN (drop (length ''/v1/quotes/'') p) (CHR ''/'') 3 in
         if length parts = 1 \<and> parts ! 0 \<noteq> [] then ''/v1/quotes/:id''
         else if length parts = 2 \<and> parts ! 1 = ''refresh'' then ''/v1/quotes/:id/refresh''
         else ''/v1/quotes/*'')
      else if HasPrefix p ''/internal/v1/quotes/'' then ''/internal/v1/quotes/:id/claim''
      else if p = ''/v1/fee-schedules'' \<or> p = ''/v1/rate-sources'' then p
      else p)"

section \<open>Properties\<close>

lemma split_upto_prefix:
  assumes "sep \<notin> set cur"
  shows "split_upto (Suc (Suc k)) sep (cur @ sep # cs) = cur # split_upto (Suc k) sep cs"
  using split_upto_append_free [OF assms, of cs] by simp

lemma splitN_loop_upto:
  assumes "sep \<notin> set cur"
  shows "splitN_loop sep (int (length out + 2 + k)) out cur s = out @ split_upto (Suc (Suc k)) sep (cur @ s)"
  using assms
proof (induction s arbitrary: out cur k)
  case Nil
  then show ?case by (simp add: IndexByte_None_iff [THEN iffD2])
next
  case (Cons c cs)
  show ?case
  proof (cases "c = sep")
    case False
    with Cons.IH [of "cur @ [c]" out k] Cons.prems show ?thesis
      by (simp del: split_upto.simps)
  next
    case True
    show ?thesis
    proof (cases k)
      case 0
      with True show ?thesis
        using split_upto_prefix [OF Cons.prems, of 0 cs] by (simp del: split_upto.simps(3))
    next
      case (Suc k')
      with True show ?thesis
        using split_upto_prefix [OF Cons.prems, of k cs] Cons.IH [of "[]" "out @ [cur]" k']
        by (simp add: Let_def del: split_upto.simps)
    qed
  qed
qed

text \<open> With a bound of at least two parts, the metrics code's own \<open>splitN\<close> is \<open>strings.SplitN\<close>, the
  function it replaces. (With the bound 1 it is not: it still splits once.)
\<close>

lemma splitN_eq_SplitN:
  assumes "2 \<le> n"
  shows "splitN s sep n = SplitN s sep n"
proof -
  define k where "k = nat (n - 2)"
  with assms have n: "n = int (length ([] :: string list) + 2 + k)" by simp
  then have "nat n = Suc (Suc k)" by simp
  then show ?thesis
    using splitN_loop_upto [of sep "[]" "[]" k s] assms
    by (simp only: splitN_def SplitN_def n [symmetric]) simp
qed


end
