(* ===== verification/Spot_Service.thy ===== *)
theory Spot_Service
  imports Rate_Cache Metrics
begin

text \<open>
  The \<open>SpotService\<close> of \<open>internal/spot.go\<close>: cached spot rates with a staleness bound, a last-good
  fallback, and a circuit breaker per venue. A call reads the clock it is given (\<open>ck 0\<close> for the age
  of a rate, \<open>ck 1\<close> for a reseed). The poll hook is a callback that may itself change the service,
  so it is an argument of \<open>Get\<close>; the update callback is the flag \<open>sp_onUpdate\<close> and the list of
  notifications \<open>Update\<close> returns.
\<close>

section \<open>State\<close>

record Venue =
  v_Name :: string
  v_Errors :: int
  v_Down :: bool
  v_OpenedAt :: time
  v_ErrorThreshold :: int

definition new_venue :: "string \<Rightarrow> int \<Rightarrow> Venue" where
  "new_venue n th = \<lparr>v_Name = n, v_Errors = 0, v_Down = False, v_OpenedAt = zero_time,
     v_ErrorThreshold = th\<rparr>"

record 'd SpotService =
  sp_cache :: "'d lruCache"
  sp_lastGood :: "(string, 'd Rate) gomap"
  sp_maxStaleAge :: duration
  sp_venues :: "(string, Venue) gomap"
  sp_venueOrder :: "string list"
  sp_errorThreshold :: int
  sp_ready :: bool
  sp_onUpdate :: bool

type_synonym 'd poll_hook =
  "(string \<Rightarrow> string \<Rightarrow> 'd SpotService \<times> metrics \<Rightarrow> 'd Rate option \<times> ('d SpotService \<times> metrics)) option"

section \<open>Seeding and updates\<close>

definition pairKey :: "string \<Rightarrow> string \<Rightarrow> string" where
  "pairKey from to = from @ ''-'' @ to"

definition seed_rate :: "'d decimal_ops \<Rightarrow> time \<Rightarrow> string \<Rightarrow> string \<Rightarrow> int \<Rightarrow> int \<Rightarrow> int \<Rightarrow> 'd Rate" where
  "seed_rate D now from to bid ask mid = \<lparr>r_From = from, r_To = to, r_Bid = dNewFromInt D bid,
     r_Ask = dNewFromInt D ask, r_Mid = dNewFromInt D mid, r_TS = now, r_SourceVenue = ''kraken'',
     r_Stale = False\<rparr>"

definition seeds :: "'d decimal_ops \<Rightarrow> time \<Rightarrow> 'd Rate list" where
  "seeds D now =
     [seed_rate D now ''USD'' ''BTC'' 64900 65100 65000,
      seed_rate D now ''USD'' ''ETH'' 3495 3505 3500,
      seed_rate D now ''EUR'' ''BTC'' 69800 70200 70000,
      seed_rate D now ''GBP'' ''BTC'' 82000 83000 82500]"

fun put_rates :: "'d Rate list \<Rightarrow> 'd lruCache \<Rightarrow> 'd lruCache" where
  "put_rates [] c = c"
| "put_rates (r # rs) c = put_rates rs (lru_put (pairKey (r_From r) (r_To r)) r c)"

fun put_lastGood :: "'d Rate list \<Rightarrow> (string, 'd Rate) gomap \<Rightarrow> (string, 'd Rate) gomap" where
  "put_lastGood [] m = m"
| "put_lastGood (r # rs) m = put_lastGood rs (AList.update (pairKey (r_From r) (r_To r)) r m)"

definition seed_venues :: "string list" where
  "seed_venues = [''kraken'', ''coinbase'', ''binance'']"

fun put_venues :: "int \<Rightarrow> string list \<Rightarrow> (string, Venue) gomap \<Rightarrow> (string, Venue) gomap" where
  "put_venues th [] m = m"
| "put_venues th (n # ns) m = put_venues th ns (AList.update n (new_venue n th) m)"

definition seed :: "'d decimal_ops \<Rightarrow> time \<Rightarrow> 'd SpotService \<Rightarrow> 'd SpotService" where
  "seed D now s =
     s\<lparr>sp_cache := put_rates (seeds D now) (newLRUCache (c_cap (sp_cache s))),
       sp_lastGood := put_lastGood (seeds D now) (sp_lastGood s),
       sp_venueOrder := seed_venues,
       sp_venues := put_venues (sp_errorThreshold s) seed_venues (sp_venues s),
       sp_ready := True\<rparr>"

definition NewSpotService :: "'d decimal_ops \<Rightarrow> time \<Rightarrow> duration \<Rightarrow> 'd SpotService" where
  "NewSpotService D now maxStaleAge =
     seed D now \<lparr>sp_cache = newLRUCache 4096, sp_lastGood = [], sp_maxStaleAge = maxStaleAge,
       sp_venues = [], sp_venueOrder = [], sp_errorThreshold = 3, sp_ready = False,
       sp_onUpdate = False\<rparr>"

definition Update ::
    "clock \<Rightarrow> 'd Rate \<Rightarrow> 'd SpotService \<Rightarrow> 'd SpotService \<times> (string \<times> 'd Rate) list" where
  "Update ck r0 s =
     (let r = r0\<lparr>r_TS := ck 0\<rparr>; key = pairKey (r_From r) (r_To r)
      in (s\<lparr>sp_cache := lru_put key r (sp_cache s),
            sp_lastGood := AList.update key r (sp_lastGood s)\<rparr>,
          if sp_onUpdate s then [(key, r)] else []))"

definition SetOnUpdate :: "bool \<Rightarrow> 'd SpotService \<Rightarrow> 'd SpotService" where
  "SetOnUpdate fn s = s\<lparr>sp_onUpdate := fn\<rparr>"

definition IsReady :: "'d SpotService \<Rightarrow> bool" where
  "IsReady s \<longleftrightarrow> sp_ready s \<and> 0 < length (c_ll (sp_cache s))"

definition ReSeed :: "'d decimal_ops \<Rightarrow> time \<Rightarrow> 'd SpotService \<Rightarrow> 'd SpotService" where
  "ReSeed D now s = seed D now s"

definition SetMaxStaleAge :: "duration \<Rightarrow> 'd SpotService \<Rightarrow> 'd SpotService" where
  "SetMaxStaleAge d s = s\<lparr>sp_maxStaleAge := d\<rparr>"

section \<open>Get\<close>

text \<open>The error of \<open>Get\<close> names the pair: \<open>no spot rate for pair FROM-TO\<close>.\<close>

datatype spot_error = NoSpotRate string string

text \<open>The tail of \<open>Get\<close>: count a miss, then the last good rate, flagged stale, or an error.\<close>

definition Get_lastGood ::
    "string \<Rightarrow> string \<Rightarrow> 'd SpotService \<Rightarrow> metrics \<Rightarrow>
     (spot_error + 'd Rate) \<times> 'd SpotService \<times> metrics" where
  "Get_lastGood from to s m =
     (case map_of (sp_lastGood s) (pairKey from to) of
        Some lg \<Rightarrow> (Inr (lg\<lparr>r_Stale := True\<rparr>), s, inc_stale (inc_misses m))
      | None \<Rightarrow> (Inl (NoSpotRate from to), s, inc_misses m))"

text \<open>Reseed from the defaults and look the pair up again.\<close>

definition Get_reseed ::
    "'d decimal_ops \<Rightarrow> clock \<Rightarrow> string \<Rightarrow> string \<Rightarrow> 'd SpotService \<Rightarrow> metrics \<Rightarrow>
     (spot_error + 'd Rate) \<times> 'd SpotService \<times> metrics" where
  "Get_reseed D ck from to s m =
     (let s1 = ReSeed D (ck 1) s; (r, c) = lru_get (pairKey from to) (sp_cache s1);
          s2 = s1\<lparr>sp_cache := c\<rparr>
      in case r of
           Some r \<Rightarrow> (Inr r, s2, inc_misses m)
         | None \<Rightarrow> Get_lastGood from to s2 m)"

definition Get ::
    "'d decimal_ops \<Rightarrow> clock \<Rightarrow> 'd poll_hook \<Rightarrow> string \<Rightarrow> string \<Rightarrow> 'd SpotService \<Rightarrow> metrics \<Rightarrow>
     (spot_error + 'd Rate) \<times> 'd SpotService \<times> metrics" where
  "Get D ck hook from to s m =
     (let (r, c) = lru_get (pairKey from to) (sp_cache s); s1 = s\<lparr>sp_cache := c\<rparr>
      in case r of
           None \<Rightarrow> Get_lastGood from to s1 m
         | Some r \<Rightarrow>
             if ck 0 - r_TS r \<le> sp_maxStaleAge s then (Inr r, s1, inc_hits m)
             else case hook of
                    None \<Rightarrow> Get_reseed D ck from to s1 m
                  | Some poll \<Rightarrow>
                      (case poll from to (s1, m) of
                         (Some pr, (s2, m2)) \<Rightarrow> (Inr pr, s2, inc_misses m2)
                       | (None, (s2, m2)) \<Rightarrow> Get_reseed D ck from to s2 m2))"

section \<open>Venues\<close>

definition RecordVenueError :: "clock \<Rightarrow> string \<Rightarrow> 'd SpotService \<Rightarrow> 'd SpotService" where
  "RecordVenueError ck name s =
     (let v = (case map_of (sp_venues s) name of
                 Some v \<Rightarrow> v | None \<Rightarrow> new_venue name (sp_errorThreshold s));
          v1 = v\<lparr>v_Errors := v_Errors v + 1\<rparr>;
          v2 = (if v_ErrorThreshold v1 \<le> v_Errors v1 \<and> \<not> v_Down v1
                then v1\<lparr>v_Down := True, v_OpenedAt := ck 0\<rparr> else v1)
      in s\<lparr>sp_venues := AList.update name v2 (sp_venues s)\<rparr>)"

definition RecordVenueSuccess :: "string \<Rightarrow> 'd SpotService \<Rightarrow> 'd SpotService" where
  "RecordVenueSuccess name s =
     (case map_of (sp_venues s) name of
        Some v \<Rightarrow> s\<lparr>sp_venues := AList.update name (v\<lparr>v_Errors := 0, v_Down := False\<rparr>) (sp_venues s)\<rparr>
      | None \<Rightarrow> s)"

definition IsVenueDown :: "string \<Rightarrow> 'd SpotService \<Rightarrow> bool" where
  "IsVenueDown name s =
     (case map_of (sp_venues s) name of Some v \<Rightarrow> v_Down v | None \<Rightarrow> False)"

definition FetchVenueOrder :: "'d SpotService \<Rightarrow> string list" where
  "FetchVenueOrder s = sp_venueOrder s"

text \<open>The loop of \<open>AdvanceVenue\<close>: the first position that holds the venue and has a successor.\<close>

fun next_venue :: "string \<Rightarrow> string list \<Rightarrow> string option" where
  "next_venue from [] = None"
| "next_venue from [v] = None"
| "next_venue from (v # w # ws) = (if v = from then Some w else next_venue from (w # ws))"

definition AdvanceVenue :: "string \<Rightarrow> 'd SpotService \<Rightarrow> metrics \<Rightarrow> (string \<times> bool) \<times> metrics" where
  "AdvanceVenue from s m =
     (case next_venue from (sp_venueOrder s) of
        Some w \<Rightarrow> ((w, True), inc_failover from w m)
      | None \<Rightarrow> ((from, False), m))"

definition HalfOpenProbe :: "string \<Rightarrow> 'd SpotService \<Rightarrow> bool \<times> 'd SpotService" where
  "HalfOpenProbe name s =
     (case map_of (sp_venues s) name of
        None \<Rightarrow> (False, s)
      | Some v \<Rightarrow>
          if \<not> v_Down v then (False, s)
          else (True, s\<lparr>sp_venues :=
                 AList.update name (v\<lparr>v_Down := False, v_Errors := 0\<rparr>) (sp_venues s)\<rparr>))"

section \<open>Invariant\<close>

text \<open>
  A venue is down exactly if its errors have reached the threshold. Every cached pair has a last
  good rate, so a pair once known stays known when its cache entry is evicted or a reseed empties
  the cache.
\<close>

definition venue_ok :: "Venue \<Rightarrow> bool" where
  "venue_ok v \<longleftrightarrow> 0 \<le> v_Errors v \<and> 0 < v_ErrorThreshold v \<and>
     (v_Down v \<longleftrightarrow> v_ErrorThreshold v \<le> v_Errors v)"

definition venues_ok :: "(string, Venue) gomap \<Rightarrow> bool" where
  "venues_ok m \<longleftrightarrow> (\<forall>n v. map_of m n = Some v \<longrightarrow> venue_ok v)"

definition known_pair :: "'d SpotService \<Rightarrow> string \<Rightarrow> bool" where
  "known_pair s k \<longleftrightarrow> map_of (sp_lastGood s) k \<noteq> None"

definition spot_inv :: "'d SpotService \<Rightarrow> bool" where
  "spot_inv s \<longleftrightarrow> lru_inv (sp_cache s) \<and> 4 \<le> c_cap (sp_cache s) \<and> 0 < sp_errorThreshold s \<and>
     venues_ok (sp_venues s) \<and> (\<forall>k. lru_lookup (sp_cache s) k \<noteq> None \<longrightarrow> known_pair s k)"

lemma spot_invD:
  assumes "spot_inv s"
  shows "lru_inv (sp_cache s)" "4 \<le> c_cap (sp_cache s)" "0 < sp_errorThreshold s"
    "venues_ok (sp_venues s)" "lru_lookup (sp_cache s) k \<noteq> None \<Longrightarrow> known_pair s k"
  using assms by (simp_all add: spot_inv_def)

subsection \<open>Seeding\<close>

definition seed_table :: "'d decimal_ops \<Rightarrow> time \<Rightarrow> (string \<times> 'd Rate) list" where
  "seed_table D now = map (\<lambda>r. (pairKey (r_From r) (r_To r), r)) (seeds D now)"

lemma recency_new [simp]: "recency (newLRUCache cap) = []"
  by (simp add: recency_def newLRUCache_def)

lemma lru_inv_put_rates: "lru_inv c \<Longrightarrow> lru_inv (put_rates rs c)"
  by (induction rs arbitrary: c) (simp_all add: lru_put_refines)

lemma c_cap_put_rates [simp]: "c_cap (put_rates rs c) = c_cap c"
  by (induction rs arbitrary: c) simp_all

lemma recency_seed:
  assumes "4 \<le> cap"
  shows "recency (put_rates (seeds D now) (newLRUCache cap)) = rev (seed_table D now)"
proof -
  have cap: "c_cap (newLRUCache cap) = cap" using assms by (simp add: newLRUCache_def)
  show ?thesis
    using assms
    by (simp add: seeds_def seed_table_def seed_rate_def pairKey_def lru_put_refines lru_inv_new
        spec_put_def cap)
qed

lemma lookup_seed:
  assumes "4 \<le> cap"
  shows "lru_lookup (put_rates (seeds D now) (newLRUCache cap)) k = map_of (seed_table D now) k"
proof -
  have "distinct (map fst (seed_table D now))"
    by (simp add: seed_table_def seeds_def seed_rate_def pairKey_def)
  then have "map_of (rev (seed_table D now)) = map_of (seed_table D now)"
    by (rule map_of_rev_distinct)
  then show ?thesis
    by (simp add: lru_lookup_def recency_seed [OF assms])
qed

lemma map_of_put_lastGood:
  "map_of (put_lastGood rs m) k =
     (case map_of (rev (map (\<lambda>r. (pairKey (r_From r) (r_To r), r)) rs)) k of
        None \<Rightarrow> map_of m k | Some r \<Rightarrow> Some r)"
  by (induction rs arbitrary: m) (auto simp: map_add_def split: option.splits)

lemma known_pair_seed:
  "known_pair (seed D now s) k \<longleftrightarrow> known_pair s k \<or> map_of (seed_table D now) k \<noteq> None"
proof -
  have "map_of (rev (seed_table D now)) k = None \<longleftrightarrow> map_of (seed_table D now) k = None"
    by (simp add: map_of_eq_None_iff)
  then show ?thesis
    by (auto simp: known_pair_def seed_def map_of_put_lastGood seed_table_def split: option.splits)
qed

lemma venue_ok_new: "0 < th \<Longrightarrow> venue_ok (new_venue n th)"
  by (simp add: venue_ok_def new_venue_def)

lemma venues_ok_update: "venues_ok m \<Longrightarrow> venue_ok v \<Longrightarrow> venues_ok (AList.update n v m)"
  by (simp add: venues_ok_def)

lemma venues_ok_put: "0 < th \<Longrightarrow> venues_ok m \<Longrightarrow> venues_ok (put_venues th ns m)"
  by (induction ns arbitrary: m) (simp_all add: venues_ok_update venue_ok_new)

lemma spot_inv_seed:
  assumes "4 \<le> c_cap (sp_cache s)" "0 < sp_errorThreshold s" "venues_ok (sp_venues s)"
  shows "spot_inv (seed D now s)"
proof -
  have cap: "c_cap (newLRUCache (c_cap (sp_cache s))) = c_cap (sp_cache s)"
    using assms(1) by (simp add: newLRUCache_def)
  have "lru_lookup (sp_cache (seed D now s)) k \<noteq> None \<Longrightarrow> known_pair (seed D now s) k" for k
    using lookup_seed [OF assms(1), of D now k] known_pair_seed [of D now s k]
    by (simp add: seed_def)
  moreover have "c_cap (sp_cache (seed D now s)) = c_cap (sp_cache s)"
    by (simp add: seed_def cap)
  ultimately show ?thesis
    using assms
    by (simp add: spot_inv_def) (simp add: seed_def lru_inv_put_rates lru_inv_new venues_ok_put)
qed

lemma spot_inv_New: "spot_inv (NewSpotService D now age)"
  unfolding NewSpotService_def
  by (rule spot_inv_seed) (simp_all add: newLRUCache_def venues_ok_def)

lemma spot_inv_ReSeed: "spot_inv s \<Longrightarrow> spot_inv (ReSeed D now s)"
  unfolding ReSeed_def by (intro spot_inv_seed) (auto dest: spot_invD)

subsection \<open>Updates and lookups\<close>

lemma spot_inv_Update:
  assumes "spot_inv s"
  shows "spot_inv (fst (Update ck r s))"
proof -
  let ?k = "pairKey (r_From r) (r_To r)"
  have "known_pair (fst (Update ck r s)) k"
    if "lru_lookup (sp_cache (fst (Update ck r s))) k \<noteq> None" for k
  proof (cases "k = ?k")
    case True
    then show ?thesis by (simp add: known_pair_def Update_def Let_def)
  next
    case False
    with that obtain v where "lru_lookup (sp_cache s) k = Some v"
      using lru.put_no_invention [OF spot_invD(1) [OF assms] False] by (auto simp: Update_def Let_def)
    then have "known_pair s k" using spot_invD(5) [OF assms] by simp
    with False show ?thesis by (simp add: known_pair_def Update_def Let_def)
  qed
  with assms show ?thesis
    by (simp add: spot_inv_def) (simp add: Update_def Let_def lru_put_refines)
qed

lemma spot_inv_touch:
  assumes "spot_inv s"
  shows "spot_inv (s\<lparr>sp_cache := snd (lru_get k (sp_cache s))\<rparr>)"
proof -
  have "c_cap (snd (lru_get k (sp_cache s))) = c_cap (sp_cache s)"
    by (simp add: lru_get_def split: option.split)
  with assms show ?thesis
    by (simp add: spot_inv_def known_pair_def lru.get_keeps lru.invar_get)
qed

lemma Get_lastGood_frame [simp]: "fst (snd (Get_lastGood from to s m)) = s"
  by (simp add: Get_lastGood_def split: option.split)

lemma spot_inv_SetOnUpdate [simp]: "spot_inv (SetOnUpdate fn s) \<longleftrightarrow> spot_inv s"
  by (simp add: SetOnUpdate_def spot_inv_def known_pair_def)

lemma spot_inv_Get_reseed:
  assumes "spot_inv s"
  shows "spot_inv (fst (snd (Get_reseed D ck from to s m)))"
  using spot_inv_touch [OF spot_inv_ReSeed [OF assms]]
  by (simp add: Get_reseed_def Let_def split: prod.split option.split) (metis snd_conv)

text \<open>The hook is code of its own; \<open>hook_ok\<close> says that it keeps the invariant.\<close>

definition hook_ok :: "'d poll_hook \<Rightarrow> bool" where
  "hook_ok hook \<longleftrightarrow> (\<forall>poll from to s m. hook = Some poll \<longrightarrow> spot_inv s \<longrightarrow>
     spot_inv (fst (snd (poll from to (s, m)))))"

lemma hook_ok_None [simp]: "hook_ok None"
  by (simp add: hook_ok_def)

lemma spot_inv_Get:
  assumes "spot_inv s" and "hook_ok hook"
  shows "spot_inv (fst (snd (Get D ck hook from to s m)))"
proof -
  obtain r c where g: "lru_get (pairKey from to) (sp_cache s) = (r, c)" by fastforce
  have t: "spot_inv (s\<lparr>sp_cache := c\<rparr>)"
    using spot_inv_touch [OF assms(1), of "pairKey from to"] g by simp
  show ?thesis
  proof (cases hook)
    case None
    with t g show ?thesis
      by (simp add: Get_def Let_def spot_inv_Get_reseed split: option.split)
  next
    case (Some poll)
    obtain p s2 m2 where p: "poll from to (s\<lparr>sp_cache := c\<rparr>, m) = (p, s2, m2)"
      by (metis prod_cases3)
    have "spot_inv (fst (snd (poll from to (s\<lparr>sp_cache := c\<rparr>, m))))"
      using assms(2) t Some unfolding hook_ok_def by blast
    with p have "spot_inv s2" by simp
    with t g p Some show ?thesis
      by (simp add: Get_def Let_def spot_inv_Get_reseed split: option.split)
  qed
qed

section \<open>What Get returns\<close>

text \<open>The result of \<open>Get\<close> by cases, over the abstract contents of the cache.\<close>

lemma Get_reseed_value:
  assumes "spot_inv s"
  shows "fst (Get_reseed D ck from to s m) =
    (case map_of (seed_table D (ck 1)) (pairKey from to) of
       Some r \<Rightarrow> Inr r
     | None \<Rightarrow> (case map_of (sp_lastGood s) (pairKey from to) of
                 Some lg \<Rightarrow> Inr (lg\<lparr>r_Stale := True\<rparr>) | None \<Rightarrow> Inl (NoSpotRate from to)))"
proof -
  let ?k = "pairKey from to"
  let ?s = "ReSeed D (ck 1) s"
  have inv: "lru_inv (sp_cache ?s)" using spot_invD(1) [OF spot_inv_ReSeed [OF assms]] .
  have val: "fst (lru_get ?k (sp_cache ?s)) = map_of (seed_table D (ck 1)) ?k"
    using lru.get_value [OF inv, of ?k] lookup_seed [OF spot_invD(2) [OF assms], of D "ck 1" ?k]
    by (simp add: ReSeed_def seed_def)
  have "distinct (map fst (seed_table D (ck 1)))"
    by (simp add: seed_table_def seeds_def seed_rate_def pairKey_def)
  then have lg: "map_of (sp_lastGood ?s) ?k =
      (case map_of (seed_table D (ck 1)) ?k of None \<Rightarrow> map_of (sp_lastGood s) ?k | Some r \<Rightarrow> Some r)"
    by (simp add: ReSeed_def seed_def map_of_put_lastGood seed_table_def [symmetric] map_of_rev_distinct)
  obtain r c where "lru_get ?k (sp_cache ?s) = (r, c)" by fastforce
  with val lg show ?thesis
    by (simp add: Get_reseed_def Let_def Get_lastGood_def split: option.split)
qed

lemma Get_value:
  assumes inv: "spot_inv s"
  shows "fst (Get D ck None from to s m) =
    (case lru_lookup (sp_cache s) (pairKey from to) of
       Some r \<Rightarrow>
         if ck 0 - r_TS r \<le> sp_maxStaleAge s then Inr r
         else fst (Get_reseed D ck from to s m)
     | None \<Rightarrow> (case map_of (sp_lastGood s) (pairKey from to) of
                 Some lg \<Rightarrow> Inr (lg\<lparr>r_Stale := True\<rparr>) | None \<Rightarrow> Inl (NoSpotRate from to)))"
proof -
  obtain r c where g: "lru_get (pairKey from to) (sp_cache s) = (r, c)" by fastforce
  have r: "r = lru_lookup (sp_cache s) (pairKey from to)"
    using lru.get_value [OF spot_invD(1) [OF inv], of "pairKey from to"] g by simp
  have t: "spot_inv (s\<lparr>sp_cache := c\<rparr>)"
    using spot_inv_touch [OF inv, of "pairKey from to"] g by simp
  show ?thesis
    using g r Get_reseed_value [OF inv] Get_reseed_value [OF t]
    by (simp add: Get_def Let_def Get_lastGood_def split: option.split)
qed

lemma seed_table_fresh: "map_of (seed_table D now) k = Some r \<Longrightarrow> r_TS r = now \<and> r_Stale r = False"
  by (auto simp: seed_table_def seeds_def seed_rate_def split: if_splits)


text \<open>An update is served back while it is fresh, stamped with the time of the update.\<close>

lemma Get_Update:
  assumes "spot_inv s" and "ck' 0 - ck 0 \<le> sp_maxStaleAge s"
  shows "fst (Get D ck' None (r_From r) (r_To r) (fst (Update ck r s)) m) = Inr (r\<lparr>r_TS := ck 0\<rparr>)"
proof -
  have "lru_lookup (sp_cache (fst (Update ck r s))) (pairKey (r_From r) (r_To r)) =
      Some (r\<lparr>r_TS := ck 0\<rparr>)"
    by (simp add: Update_def Let_def lru.put_same spot_invD(1) [OF assms(1)])
  moreover have "sp_maxStaleAge (fst (Update ck r s)) = sp_maxStaleAge s"
    by (simp add: Update_def Let_def)
  ultimately show ?thesis
    using assms(2) by (simp add: Get_value [OF spot_inv_Update [OF assms(1)]])
qed

text \<open> \<open>Get\<close> fails exactly on a pair that has never been seeded or updated; a pair once known is
  always served, whatever the cache has evicted.
\<close>

lemma Get_fails_iff_unknown:
  assumes "spot_inv s"
  shows "(fst (Get D ck None from to s m) = Inl (NoSpotRate from to) \<longleftrightarrow>
      \<not> known_pair s (pairKey from to)) \<and>
    (known_pair s k \<longrightarrow> known_pair (fst (Update ck r s)) k \<and> known_pair (ReSeed D now s) k)"
proof (intro conjI impI)
  have "lru_lookup (sp_cache s) (pairKey from to) = None" if "\<not> known_pair s (pairKey from to)"
    using spot_invD(5) [OF assms, of "pairKey from to"] that by blast
  then show "fst (Get D ck None from to s m) = Inl (NoSpotRate from to) \<longleftrightarrow>
      \<not> known_pair s (pairKey from to)"
    unfolding Get_value [OF assms] Get_reseed_value [OF assms] known_pair_def
    by (auto split: option.split)
  assume k: "known_pair s k"
  then show "known_pair (fst (Update ck r s)) k"
    by (simp add: known_pair_def Update_def Let_def)
  from k show "known_pair (ReSeed D now s) k"
    by (simp add: ReSeed_def known_pair_seed)
qed

text \<open> What a stale entry of a seeded pair turns into: without a poll hook, the live rate is
  discarded and the built-in default rate of the pair is returned, stamped with the current time and
  not flagged stale.
\<close>

lemma Get_stale_returns_default:
  assumes "spot_inv s" and "lru_lookup (sp_cache s) (pairKey from to) = Some live"
    and "sp_maxStaleAge s < ck 0 - r_TS live"
    and "map_of (seed_table D (ck 1)) (pairKey from to) = Some dflt"
  shows "fst (Get D ck None from to s m) = Inr dflt \<and> r_TS dflt = ck 1 \<and> \<not> r_Stale dflt"
  using assms(2-4) seed_table_fresh [OF assms(4)]
  by (simp add: Get_value [OF assms(1)] Get_reseed_value [OF assms(1)])

section \<open>The circuit breaker\<close>

lemma RecordVenueError_inv:
  assumes "spot_inv s"
  shows "spot_inv (RecordVenueError ck n s)"
proof -
  define v where "v = (case map_of (sp_venues s) n of
      Some v \<Rightarrow> v | None \<Rightarrow> new_venue n (sp_errorThreshold s))"
  have "venue_ok v"
    using assms by (auto simp: v_def spot_inv_def venues_ok_def venue_ok_new split: option.split)
  then have "venues_ok (sp_venues (RecordVenueError ck n s))"
    using spot_invD(4) [OF assms]
    by (auto simp: RecordVenueError_def v_def [symmetric] Let_def venue_ok_def intro!: venues_ok_update)
  with assms show ?thesis
    by (simp add: spot_inv_def) (simp add: RecordVenueError_def Let_def known_pair_def)
qed

lemma venue_ok_reset: "venue_ok v \<Longrightarrow> venue_ok (v\<lparr>v_Errors := 0, v_Down := False\<rparr>)"
  by (simp add: venue_ok_def)

lemma venue_reset_commute: "v\<lparr>v_Down := False, v_Errors := 0\<rparr> = v\<lparr>v_Errors := 0, v_Down := False\<rparr>"
  by simp

lemma venue_reset_inv:
  assumes "spot_inv s" and "map_of (sp_venues s) n = Some v"
  shows "spot_inv (s\<lparr>sp_venues := AList.update n (v\<lparr>v_Errors := 0, v_Down := False\<rparr>) (sp_venues s)\<rparr>)"
proof -
  have "venue_ok v" using assms by (auto simp: spot_inv_def venues_ok_def)
  with assms show ?thesis
    by (simp add: spot_inv_def known_pair_def venues_ok_update venue_ok_reset)
qed

lemma RecordVenueSuccess_inv: "spot_inv s \<Longrightarrow> spot_inv (RecordVenueSuccess n s)"
  by (simp add: RecordVenueSuccess_def venue_reset_inv split: option.split)

lemma HalfOpenProbe_inv: "spot_inv s \<Longrightarrow> spot_inv (snd (HalfOpenProbe n s))"
  by (simp add: HalfOpenProbe_def venue_reset_commute venue_reset_inv split: option.split)

lemma SetMaxStaleAge_inv: "spot_inv s \<Longrightarrow> spot_inv (SetMaxStaleAge d s)"
  by (simp add: spot_inv_def SetMaxStaleAge_def known_pair_def)

lemma SetOnUpdate_inv: "spot_inv s \<Longrightarrow> spot_inv (SetOnUpdate b s)"
  by (simp add: spot_inv_def SetOnUpdate_def known_pair_def)

text \<open>The errors a venue has recorded since it was last reset.\<close>

definition venue_errors :: "string \<Rightarrow> 'd SpotService \<Rightarrow> int" where
  "venue_errors n s = (case map_of (sp_venues s) n of Some v \<Rightarrow> v_Errors v | None \<Rightarrow> 0)"

definition venue_threshold :: "string \<Rightarrow> 'd SpotService \<Rightarrow> int" where
  "venue_threshold n s =
     (case map_of (sp_venues s) n of Some v \<Rightarrow> v_ErrorThreshold v | None \<Rightarrow> sp_errorThreshold s)"

lemma IsVenueDown_iff:
  assumes "spot_inv s"
  shows "IsVenueDown n s \<longleftrightarrow> venue_threshold n s \<le> venue_errors n s"
  using assms
  by (auto simp: IsVenueDown_def venue_threshold_def venue_errors_def spot_inv_def venues_ok_def
      venue_ok_def split: option.split)

lemma RecordVenueError_counts:
  "venue_errors n (RecordVenueError ck n s) = venue_errors n s + 1"
  "venue_threshold n (RecordVenueError ck n s) = venue_threshold n s"
  by (simp_all add: venue_errors_def venue_threshold_def RecordVenueError_def Let_def new_venue_def
      split: option.split)

fun record_errors :: "clock list \<Rightarrow> string \<Rightarrow> 'd SpotService \<Rightarrow> 'd SpotService" where
  "record_errors [] n s = s"
| "record_errors (ck # cks) n s = record_errors cks n (RecordVenueError ck n s)"

lemma record_errors_counts:
  "venue_errors n (record_errors cks n s) = venue_errors n s + int (length cks)"
  "venue_threshold n (record_errors cks n s) = venue_threshold n s"
  by (induction cks arbitrary: s) (simp_all add: RecordVenueError_counts)

lemma record_errors_inv: "spot_inv s \<Longrightarrow> spot_inv (record_errors cks n s)"
  by (induction cks arbitrary: s) (simp_all add: RecordVenueError_inv)

text \<open>
  (C33) The breaker trips exactly at its threshold: after a success or a half-open probe of a known
  venue that was down, the venue is up, and it is down again after \<open>k\<close> consecutive errors if and only
  if \<open>k\<close> has reached the venue's threshold.
\<close>

theorem breaker_trips_at_threshold:
  assumes "spot_inv s" and "map_of (sp_venues s) n = Some v"
  shows "(IsVenueDown n (record_errors cks n (RecordVenueSuccess n s)) \<longleftrightarrow>
      v_ErrorThreshold v \<le> int (length cks)) \<and>
    (IsVenueDown n s \<longrightarrow> HalfOpenProbe n s = (True, RecordVenueSuccess n s))"
proof
  have "venue_errors n (RecordVenueSuccess n s) = 0"
    and "venue_threshold n (RecordVenueSuccess n s) = v_ErrorThreshold v"
    using assms(2) by (simp_all add: venue_errors_def venue_threshold_def RecordVenueSuccess_def)
  then show "IsVenueDown n (record_errors cks n (RecordVenueSuccess n s)) \<longleftrightarrow>
      v_ErrorThreshold v \<le> int (length cks)"
    by (simp add: IsVenueDown_iff record_errors_inv RecordVenueSuccess_inv assms(1)
        record_errors_counts)
  show "IsVenueDown n s \<longrightarrow> HalfOpenProbe n s = (True, RecordVenueSuccess n s)"
    using assms(2)
    by (simp add: IsVenueDown_def HalfOpenProbe_def RecordVenueSuccess_def venue_reset_commute)
qed

section \<open>Concrete instances\<close>

text \<open>A service started at instant 0 with the default bound of 250 milliseconds, in which a live rate
  of 70000 for the pair USD-BTC arrives at instant 5.\<close>

definition ex_spot :: "dec10 SpotService" where
  "ex_spot = NewSpotService dec10_ops 0 (250 * millisecond)"

definition ex_live :: "dec10 SpotService" where
  "ex_live = fst (Update (\<lambda>_. 5) (ex_rate ''BTC'' 70000 0) ex_spot)"

lemma ex_spot_inv: "spot_inv ex_spot" "spot_inv ex_live"
  by (simp_all add: ex_spot_def ex_live_def spot_inv_New spot_inv_Update)

lemma ex_maxStaleAge: "sp_maxStaleAge ex_spot = 250000000" "sp_maxStaleAge ex_live = 250000000"
  by (simp_all add: ex_live_def Update_def Let_def ex_spot_def NewSpotService_def seed_def millisecond_def)

lemma ex_live_cached:
  "lru_lookup (sp_cache ex_live) ''USD-BTC'' = Some (ex_rate ''BTC'' 70000 5)"
  unfolding ex_live_def Update_def Let_def
  by (simp add: pairKey_def ex_rate_def lru.put_same spot_invD(1) [OF ex_spot_inv(1)])




theorem breaker_trips_at_threshold_witness:
  "\<not> IsVenueDown ''kraken'' (record_errors [\<lambda>_. 1, \<lambda>_. 2] ''kraken'' (RecordVenueSuccess ''kraken'' ex_spot)) \<and>
   IsVenueDown ''kraken''
     (record_errors [\<lambda>_. 1, \<lambda>_. 2, \<lambda>_. 3] ''kraken'' (RecordVenueSuccess ''kraken'' ex_spot))"
proof -
  have v: "map_of (sp_venues ex_spot) ''kraken'' = Some (new_venue ''kraken'' 3)"
    by (simp add: ex_spot_def NewSpotService_def seed_def seed_venues_def)
  then show ?thesis
    using breaker_trips_at_threshold [OF ex_spot_inv(1) v, of "[\<lambda>_. 1, \<lambda>_. 2]"]
      breaker_trips_at_threshold [OF ex_spot_inv(1) v, of "[\<lambda>_. 1, \<lambda>_. 2, \<lambda>_. 3]"]
    by (simp add: new_venue_def)
qed

end
