(* ===== verification/Web_Socket.thy ===== *)
theory Web_Socket
  imports Go_Json Rate_Cache Metrics Spot_Service
begin

unbundle bit_operations_syntax

text \<open>
  \<open>internal/ws.go\<close>: WebSocket frames, the hub that fans rate updates out to subscribers, and the
  commands of a subscriber. A connection is the list of bytes written to it; whether a write of a call
  succeeds is given by the network (\<open>wr k\<close> for the \<open>k\<close>-th write of the call), and the bytes a failed
  write may have sent are left out.
\<close>

type_synonym byte = "8 word"

section \<open>Frames\<close>

definition be_bytes :: "nat \<Rightarrow> nat \<Rightarrow> byte list" where
  "be_bytes w n = map (\<lambda>i. word_of_nat (n div 256 ^ i)) (rev [0..<w])"

fun be_nat_acc :: "nat \<Rightarrow> byte list \<Rightarrow> nat" where
  "be_nat_acc acc [] = acc"
| "be_nat_acc acc (b # bs) = be_nat_acc (acc * 256 + unat b) bs"

abbreviation be_nat :: "byte list \<Rightarrow> nat" where
  "be_nat \<equiv> be_nat_acc 0"

text \<open>The header of an unmasked final text frame: the three encodings of the length.\<close>

definition frame_header :: "nat \<Rightarrow> byte list" where
  "frame_header plen =
     (if plen \<le> 125 then [0x81, word_of_nat plen]
      else if plen \<le> 0xFFFF then [0x81, 126] @ be_bytes 2 plen
      else [0x81, 127] @ be_bytes 8 plen)"

record wsSubscriber =
  ws_conn :: "byte list"
  ws_pairs :: "(string, unit) gomap"
  ws_done :: bool
  ws_closed :: bool

definition wsSubscriber_close :: "wsSubscriber \<Rightarrow> wsSubscriber" where
  "wsSubscriber_close sub = (if ws_done sub then sub else sub\<lparr>ws_done := True, ws_closed := True\<rparr>)"

definition sendFrame ::
    "(nat \<Rightarrow> bool) \<Rightarrow> byte list \<Rightarrow> wsSubscriber \<Rightarrow> metrics \<Rightarrow> bool \<times> wsSubscriber \<times> metrics" where
  "sendFrame wr payload sub m =
     (if \<not> wr 0 then (False, sub, m\<lparr>m_wsMessagesDropped := m_wsMessagesDropped m + 1\<rparr>)
      else let sub1 = sub\<lparr>ws_conn := ws_conn sub @ frame_header (length payload)\<rparr> in
        if \<not> wr 1 then (False, sub1, m\<lparr>m_wsMessagesDropped := m_wsMessagesDropped m + 1\<rparr>)
        else (True, sub1\<lparr>ws_conn := ws_conn sub1 @ payload\<rparr>,
              m\<lparr>m_wsMessagesSent := m_wsMessagesSent m + 1\<rparr>))"

text \<open>
  Reading a frame from a stream of bytes: a payload with the rest of the stream, an error (a short
  read or a close frame), or the panic of \<open>make\<close> on a length that is negative or beyond what the
  runtime can allocate.
\<close>

datatype frame_error = ErrShortRead | ErrEOF

datatype frame_result = Frame "byte list" "byte list" | FrameError frame_error | FramePanic

definition ReadFull :: "nat \<Rightarrow> byte list \<Rightarrow> (byte list \<times> byte list) option" where
  "ReadFull n r = (if length r < n then None else Some (take n r, drop n r))"

definition maxAlloc :: int where "maxAlloc = 2 ^ 48"

definition unmask :: "byte list \<Rightarrow> byte list \<Rightarrow> byte list" where
  "unmask mk payload = map (\<lambda>i. payload ! i XOR mk ! (i mod 4)) [0..<length payload]"

text \<open>The length after the second header byte: 7 bits, or 16 or 64 bits that follow.\<close>

definition read_length :: "byte \<Rightarrow> byte list \<Rightarrow> (int \<times> byte list) option" where
  "read_length b r =
     (let plen = unat (b AND 0x7f) in
      if plen = 126 then map_option (\<lambda>(ext, r'). (int (be_nat ext), r')) (ReadFull 2 r)
      else if plen = 127 then map_option (\<lambda>(ext, r'). (wrap64 (int (be_nat ext)), r')) (ReadFull 8 r)
      else Some (int plen, r))"

definition read_payload :: "byte \<Rightarrow> byte list option \<Rightarrow> int \<Rightarrow> byte list \<Rightarrow> frame_result" where
  "read_payload opcode mk plen r =
     (if plen < 0 \<or> maxAlloc < plen then FramePanic
      else case ReadFull (nat plen) r of
             None \<Rightarrow> FrameError ErrShortRead
           | Some (payload, r') \<Rightarrow>
               (let payload' = (case mk of None \<Rightarrow> payload | Some k \<Rightarrow> unmask k payload) in
                if opcode = 0x8 then FrameError ErrEOF
                else if opcode = 0x9 then Frame [] r'
                else if opcode = 0xA then Frame [] r'
                else Frame payload' r'))"

definition readWSFrame :: "byte list \<Rightarrow> frame_result" where
  "readWSFrame r =
     (case ReadFull 2 r of
        None \<Rightarrow> FrameError ErrShortRead
      | Some (hdr, r1) \<Rightarrow>
          (let opcode = hdr ! 0 AND 0x0f; masked = (hdr ! 1 AND 0x80 \<noteq> 0) in
           case read_length (hdr ! 1) r1 of
             None \<Rightarrow> FrameError ErrShortRead
           | Some (plen, r2) \<Rightarrow>
               if masked then
                 (case ReadFull 4 r2 of
                    None \<Rightarrow> FrameError ErrShortRead
                  | Some (mk, r3) \<Rightarrow> read_payload opcode (Some mk) plen r3)
               else read_payload opcode None plen r2))"

section \<open>The hub\<close>

text \<open>Subscribers are pointers; the model numbers them.\<close>

record wsHub =
  hub_subscribers :: "(nat, wsSubscriber) gomap"

definition newWSHub :: wsHub where
  "newWSHub = \<lparr>hub_subscribers = []\<rparr>"

definition hub_add :: "nat \<Rightarrow> wsSubscriber \<Rightarrow> wsHub \<Rightarrow> metrics \<Rightarrow> wsHub \<times> metrics" where
  "hub_add p sub h m =
     (h\<lparr>hub_subscribers := AList.update p sub (hub_subscribers h)\<rparr>,
      m\<lparr>m_wsActiveConnections := m_wsActiveConnections m + 1\<rparr>)"

text \<open>\<open>remove\<close> also closes the subscriber, which the handler still points to.\<close>

definition hub_remove :: "nat \<Rightarrow> wsSubscriber \<Rightarrow> wsHub \<Rightarrow> metrics \<Rightarrow> wsSubscriber \<times> wsHub \<times> metrics" where
  "hub_remove p sub h m =
     (if map_of (hub_subscribers h) p \<noteq> None
      then (wsSubscriber_close sub, h\<lparr>hub_subscribers := AList.delete p (hub_subscribers h)\<rparr>,
            m\<lparr>m_wsActiveConnections := m_wsActiveConnections m - 1\<rparr>)
      else (wsSubscriber_close sub, h, m))"

definition string_bytes :: "string \<Rightarrow> byte list" where
  "string_bytes s = map (\<lambda>c. word_of_nat (of_char c)) s"

definition rate_frame :: "'d decimal_ops \<Rightarrow> string \<Rightarrow> 'd Rate \<Rightarrow> byte list" where
  "rate_frame D pair r =
     string_bytes (marshal_strings [(''pair'', pair), (''rate'', dString D (r_Mid r)),
       (''ts'', RFC3339Nano (r_TS r)), (''source'', r_SourceVenue r)])"

text \<open>The loop over a snapshot of the subscribers, in the order the map is ranged over.\<close>

fun fanout_loop ::
    "(nat \<Rightarrow> nat \<Rightarrow> bool) \<Rightarrow> string \<Rightarrow> byte list \<Rightarrow> nat list \<Rightarrow> wsHub \<Rightarrow> metrics \<Rightarrow> wsHub \<times> metrics" where
  "fanout_loop wr pair frame [] h m = (h, m)"
| "fanout_loop wr pair frame (p # ps) h m =
     (case map_of (hub_subscribers h) p of
        None \<Rightarrow> fanout_loop wr pair frame ps h m
      | Some sub \<Rightarrow>
          if map_of (ws_pairs sub) pair = None then fanout_loop wr pair frame ps h m
          else (case sendFrame (wr p) frame sub m of
                  (ok, sub', m') \<Rightarrow>
                    fanout_loop wr pair frame ps
                      (h\<lparr>hub_subscribers := AList.update p sub' (hub_subscribers h)\<rparr>) m'))"

definition fanout ::
    "'d decimal_ops \<Rightarrow> (nat list \<Rightarrow> nat list) \<Rightarrow> (nat \<Rightarrow> nat \<Rightarrow> bool) \<Rightarrow> string \<Rightarrow> 'd Rate \<Rightarrow>
     wsHub \<Rightarrow> metrics \<Rightarrow> wsHub \<times> metrics" where
  "fanout D iter wr pair r h m =
     fanout_loop wr pair (rate_frame D pair r) (iter (map fst (hub_subscribers h))) h m"

section \<open>Commands\<close>

definition normalizePair :: "string \<Rightarrow> string" where
  "normalizePair p =
     (let p' = ToUpper (TrimSpace p) in
      if CHR ''-'' \<in> set p' then p'
      else if 6 \<le> length p' then take 3 p' @ ''-'' @ drop 3 p'
      else p')"

record ws_command =
  cmd_Action :: string
  cmd_Pairs :: "string list"

definition decode_command :: "json \<Rightarrow> ws_command option" where
  "decode_command j =
     map_option (\<lambda>(action, pairs). \<lparr>cmd_Action = action, cmd_Pairs = slice_list pairs\<rparr>)
       (decode_struct (\<lambda>k v (action, pairs).
          if is_field ''action'' k then map_option (\<lambda>s. (s, pairs)) (decode_string v action)
          else if is_field ''pairs'' k then map_option (Pair action) (decode_slice decode_string [] v pairs)
          else Some (action, pairs)) j ([], None))"

fun add_pairs :: "string list \<Rightarrow> (string, unit) gomap \<Rightarrow> (string, unit) gomap" where
  "add_pairs [] m = m"
| "add_pairs (p # ps) m = add_pairs ps (AList.update (normalizePair p) () m)"

fun delete_pairs :: "string list \<Rightarrow> (string, unit) gomap \<Rightarrow> (string, unit) gomap" where
  "delete_pairs [] m = m"
| "delete_pairs (p # ps) m = delete_pairs ps (AList.delete (normalizePair p) m)"

definition pong :: "byte list" where
  "pong = string_bytes (''{'' @ json_string ''pong'' @ '':true}'')"

text \<open>One payload of the read loop; \<open>None\<close> is a payload that is not JSON.\<close>

definition handle_command ::
    "(nat \<Rightarrow> bool) \<Rightarrow> json option \<Rightarrow> wsSubscriber \<Rightarrow> metrics \<Rightarrow> wsSubscriber \<times> metrics" where
  "handle_command wr payload sub m =
     (case Option.bind payload decode_command of
        None \<Rightarrow> (sub, m)
      | Some cmd \<Rightarrow>
          (let action = ToLower (cmd_Action cmd) in
           if action = ''subscribe'' then (sub\<lparr>ws_pairs := add_pairs (cmd_Pairs cmd) (ws_pairs sub)\<rparr>, m)
           else if action = ''unsubscribe''
           then (sub\<lparr>ws_pairs := delete_pairs (cmd_Pairs cmd) (ws_pairs sub)\<rparr>, m)
           else if action = ''ping'' then snd (sendFrame wr pong sub m)
           else (sub, m)))"

section \<open>Frames round trip\<close>

lemma be_nat_acc_append: "be_nat_acc a (xs @ [b]) = be_nat_acc a xs * 256 + unat b"
  by (induction xs arbitrary: a) simp_all

lemma be_bytes_Suc: "be_bytes (Suc w) n = be_bytes w (n div 256) @ [word_of_nat n]"
proof -
  have "rev [0..<Suc w] = map Suc (rev [0..<w]) @ [0]"
    by (simp flip: map_Suc_upt add: rev_map upt_conv_Cons del: upt_Suc)
  then show ?thesis
    by (simp add: be_bytes_def comp_def div_mult2_eq)
qed

lemma length_be_bytes [simp]: "length (be_bytes w n) = w"
  by (simp add: be_bytes_def)

lemma be_nat_be_bytes: "n < 256 ^ w \<Longrightarrow> be_nat (be_bytes w n) = n"
proof (induction w arbitrary: n)
  case (Suc w)
  then have "n div 256 < 256 ^ w" by (simp add: less_mult_imp_div_less mult.commute)
  with Suc.IH show ?case
    by (simp add: be_bytes_Suc be_nat_acc_append unat_of_nat)
qed (simp add: be_bytes_def)

lemma seven_bits_table:
  "\<forall>n \<in> set [0..<128]. unat ((word_of_nat n :: byte) AND 0x7f) = n \<and> (word_of_nat n :: byte) AND 0x80 = 0 \<and>
     unat (((word_of_nat n :: byte) OR 0x80) AND 0x7f) = n \<and> ((word_of_nat n :: byte) OR 0x80) AND 0x80 \<noteq> 0"
  by code_simp

lemma seven_bits:
  assumes "n < 128"
  shows "unat ((word_of_nat n :: byte) AND 0x7f) = n" "(word_of_nat n :: byte) AND 0x80 = 0"
    "unat (((word_of_nat n :: byte) OR 0x80) AND 0x7f) = n" "((word_of_nat n :: byte) OR 0x80) AND 0x80 \<noteq> 0"
  using seven_bits_table assms by simp_all

lemma ReadFull_append [simp]: "length xs = n \<Longrightarrow> ReadFull n (xs @ ys) = Some (xs, ys)"
  by (simp add: ReadFull_def)

text \<open>The frame a client sends, with its mask bit set and its payload masked.\<close>

definition client_frame :: "byte list \<Rightarrow> byte list \<Rightarrow> byte list" where
  "client_frame mk payload =
     (let h = frame_header (length payload) in [h ! 0, h ! 1 OR 0x80] @ drop 2 h @ mk @ unmask mk payload)"

lemma frame_header_parts:
  "\<exists>b ext. frame_header n = [0x81, b] @ ext \<and> b AND 0x80 = 0 \<and> (b OR 0x80) AND 0x80 \<noteq> 0 \<and>
    (n < 2 ^ 63 \<longrightarrow> (\<forall>r. read_length b (ext @ r) = Some (int n, r) \<and>
      read_length (b OR 0x80) (ext @ r) = Some (int n, r)))"
proof -
  consider "n \<le> 125" | "125 < n" "n \<le> 0xFFFF" | "0xFFFF < n" by linarith
  then show ?thesis
  proof cases
    case 1
    with seven_bits [of n] show ?thesis
      by (intro exI [of _ "word_of_nat n"] exI [of _ "[]"])
        (simp add: frame_header_def read_length_def Let_def)
  next
    case 2
    then have "be_nat (be_bytes 2 n) = n" by (simp add: be_nat_be_bytes)
    with 2 seven_bits [of 126] show ?thesis
      by (intro exI [of _ 126] exI [of _ "be_bytes 2 n"])
        (simp add: frame_header_def read_length_def Let_def)
  next
    case 3
    have "n < 2 ^ 63 \<longrightarrow> be_nat (be_bytes 8 n) = n \<and> wrap64 (int n) = int n"
      by (simp add: be_nat_be_bytes wrap64_id in_int64_def)
    with 3 seven_bits [of 127] show ?thesis
      by (intro exI [of _ 127] exI [of _ "be_bytes 8 n"])
        (simp add: frame_header_def read_length_def Let_def)
  qed
qed

lemma unmask_unmask: "unmask mk (unmask mk payload) = payload"
  by (rule nth_equalityI) (simp_all add: unmask_def ac_simps flip: xor.assoc)

lemma read_payload_text:
  assumes "int (length payload) \<le> maxAlloc"
  shows "read_payload 1 None (int (length payload)) (payload @ r) = Frame payload r"
    "length mk = 4 \<Longrightarrow> read_payload 1 (Some mk) (int (length payload)) (unmask mk payload @ r) = Frame payload r"
  using assms unmask_unmask [of mk payload] by (simp_all add: read_payload_def unmask_def)

text \<open>
  Frames round trip: what \<open>sendFrame\<close> writes for a payload, of any of the three length encodings, is
  read back by \<open>readWSFrame\<close> as that payload with the rest of the stream untouched, and so is the
  masked frame of a client.
\<close>

lemma frame_reads_back:
  assumes "int (length payload) \<le> maxAlloc" and "length mk = 4"
  shows "readWSFrame (frame_header (length payload) @ payload @ r) = Frame payload r \<and>
    readWSFrame (client_frame mk payload @ r) = Frame payload r"
proof -
  obtain b ext where h: "frame_header (length payload) = [0x81, b] @ ext"
    and b: "b AND 0x80 = 0" "(b OR 0x80) AND 0x80 \<noteq> 0"
    and l: "length payload < 2 ^ 63 \<longrightarrow> (\<forall>r. read_length b (ext @ r) = Some (int (length payload), r) \<and>
      read_length (b OR 0x80) (ext @ r) = Some (int (length payload), r))"
    using frame_header_parts by blast
  have len: "length payload < 2 ^ 63" using assms(1) by (simp add: maxAlloc_def)
  have two: "ReadFull 2 (x # y # zs) = Some ([x, y], zs)" for x y zs
    using ReadFull_append [of "[x, y]" 2 zs] by simp
  have four: "ReadFull 4 (mk @ zs) = Some (mk, zs)" for zs using assms(2) by simp
  show ?thesis
    using l len b read_payload_text [OF assms(1)] assms(2)
    by (simp add: readWSFrame_def client_frame_def h two four Let_def)
qed

text \<open> A 64-bit length with its top bit set becomes a negative length, on which the allocation of the
  payload panics, whatever follows in the stream.
\<close>

lemma oversized_length_panics:
  assumes "2 ^ 63 \<le> n" and "n < 2 ^ 64"
  shows "readWSFrame ([0x81, 127] @ be_bytes 8 n @ r) = FramePanic"
proof -
  have two: "ReadFull 2 (x # y # zs) = Some ([x, y], zs)" for x y zs
    using ReadFull_append [of "[x, y]" 2 zs] by simp
  have "be_nat (be_bytes 8 n) = n" using assms(2) by (simp add: be_nat_be_bytes)
  moreover have "(int n + 2 ^ 63) mod 2 ^ 64 = (int n - 2 ^ 63 + 2 ^ 64) mod 2 ^ 64"
    by (simp add: algebra_simps)
  then have "(int n + 2 ^ 63) mod 2 ^ 64 = int n - 2 ^ 63"
    using assms by (simp only: mod_add_self2) (simp add: mod_pos_pos_trivial)
  then have "wrap64 (int n) < 0"
    using assms by (simp add: wrap64_def)
  ultimately show ?thesis
    using seven_bits [of 127]
    by (simp add: readWSFrame_def two Let_def read_length_def read_payload_def)
qed

section \<open>Fan-out\<close>

text \<open>What a call of \<open>sendFrame\<close> puts on the connection, and the subscriber it leaves.\<close>

definition frame_written :: "(nat \<Rightarrow> bool) \<Rightarrow> byte list \<Rightarrow> byte list" where
  "frame_written wr payload =
     (if \<not> wr 0 then [] else if \<not> wr 1 then frame_header (length payload)
      else frame_header (length payload) @ payload)"

lemma sendFrame_conn:
  "fst (snd (sendFrame wr payload sub m)) = sub\<lparr>ws_conn := ws_conn sub @ frame_written wr payload\<rparr>"
  by (simp add: sendFrame_def frame_written_def Let_def)

definition ws_outcomes :: "metrics \<Rightarrow> int" where
  "ws_outcomes m = m_wsMessagesSent m + m_wsMessagesDropped m"

lemma sendFrame_outcome: "ws_outcomes (snd (snd (sendFrame wr payload sub m))) = ws_outcomes m + 1"
  by (simp add: sendFrame_def ws_outcomes_def Let_def)

definition wants :: "wsHub \<Rightarrow> string \<Rightarrow> nat \<Rightarrow> bool" where
  "wants h pair p \<longleftrightarrow> (\<exists>sub. map_of (hub_subscribers h) p = Some sub \<and> map_of (ws_pairs sub) pair \<noteq> None)"

lemma fanout_loop_spec:
  assumes "distinct ps"
  shows "(\<forall>p. map_of (hub_subscribers (fst (fanout_loop wr pair frame ps h m))) p =
      map_option (\<lambda>sub. if p \<in> set ps \<and> wants h pair p
        then sub\<lparr>ws_conn := ws_conn sub @ frame_written (wr p) frame\<rparr> else sub)
        (map_of (hub_subscribers h) p)) \<and>
    ws_outcomes (snd (fanout_loop wr pair frame ps h m)) =
      ws_outcomes m + int (length (filter (wants h pair) ps))"
  using assms
proof (induction ps arbitrary: h m)
  case (Cons p ps)
  show ?case
  proof (cases "wants h pair p")
    case True
    then obtain sub where sub: "map_of (hub_subscribers h) p = Some sub" "map_of (ws_pairs sub) pair \<noteq> None"
      by (auto simp: wants_def)
    obtain ok sub' m' where sf: "sendFrame (wr p) frame sub m = (ok, sub', m')" by (metis prod_cases3)
    have sub': "sub' = sub\<lparr>ws_conn := ws_conn sub @ frame_written (wr p) frame\<rparr>"
      using sendFrame_conn [of "wr p" frame sub m] sf by simp
    have m': "ws_outcomes m' = ws_outcomes m + 1"
      using sendFrame_outcome [of "wr p" frame sub m] sf by simp
    define h' where "h' = h\<lparr>hub_subscribers := AList.update p sub' (hub_subscribers h)\<rparr>"
    have h': "map_of (hub_subscribers h') q =
        (if q = p then Some sub' else map_of (hub_subscribers h) q)" for q
      by (simp add: h'_def)
    have w: "wants h' pair = wants h pair"
      using sub by (auto simp: wants_def h' sub' fun_eq_iff)
    have step: "fanout_loop wr pair frame (p # ps) h m = fanout_loop wr pair frame ps h' m'"
      using sub sf by (simp add: h'_def)
    have nin: "p \<notin> set ps" and dist: "distinct ps" using Cons.prems by auto
    show ?thesis
      unfolding step using Cons.IH [OF dist, of h' m', unfolded w] True nin
      by (simp add: h' m' sub sub')
  next
    case False
    then have step: "fanout_loop wr pair frame (p # ps) h m = fanout_loop wr pair frame ps h m"
      by (auto simp: wants_def split: option.split)
    have iff: "q \<in> set (p # ps) \<and> wants h pair q \<longleftrightarrow> q \<in> set ps \<and> wants h pair q" for q
      using False by auto
    show ?thesis
      unfolding step iff using Cons.IH [of h m] Cons.prems False by simp
  qed
qed (simp add: option.map_ident)

text \<open>
  (C32) A rate update reaches exactly the subscribers of its pair: each of them gets the frame on its
  connection, as far as the connection takes it, the connection of every other subscriber and every
  pair set stay as they were, and the counters of sent and dropped messages together go up by the
  number of subscribers of the pair.
\<close>

theorem fanout_reaches_subscribers:
  assumes "reorders iter" and "wf_map (hub_subscribers h)"
  shows "(\<forall>p. map_of (hub_subscribers (fst (fanout D iter wr pair r h m))) p =
      map_option (\<lambda>sub. if map_of (ws_pairs sub) pair \<noteq> None
        then sub\<lparr>ws_conn := ws_conn sub @ frame_written (wr p) (rate_frame D pair r)\<rparr> else sub)
        (map_of (hub_subscribers h) p)) \<and>
    ws_outcomes (snd (fanout D iter wr pair r h m)) =
      ws_outcomes m + int (card {p. wants h pair p})"
proof -
  let ?ps = "iter (map fst (hub_subscribers h))"
  have ms: "mset ?ps = mset (map fst (hub_subscribers h))" using assms(1) by (simp add: reorders_def)
  have dist: "distinct ?ps" using assms(2) mset_eq_imp_distinct_iff [OF ms] by (simp add: wf_map_def)
  have set: "set ?ps = fst ` set (hub_subscribers h)" using mset_eq_setD [OF ms] by simp
  have in_ps: "map_of (hub_subscribers h) p = Some sub \<Longrightarrow> p \<in> set ?ps" for p sub
    unfolding set by (force dest: map_of_SomeD)
  have eq: "map_option (\<lambda>sub. if p \<in> set ?ps \<and> wants h pair p then f p sub else sub)
      (map_of (hub_subscribers h) p) =
    map_option (\<lambda>sub. if map_of (ws_pairs sub) pair \<noteq> None then f p sub else sub)
      (map_of (hub_subscribers h) p)" for p f
    using in_ps [of p] by (cases "map_of (hub_subscribers h) p") (auto simp: wants_def)
  have "set (filter (wants h pair) ?ps) = {p. wants h pair p}"
    using in_ps by (auto simp: wants_def)
  then have "length (filter (wants h pair) ?ps) = card {p. wants h pair p}"
    using distinct_card [OF distinct_filter [OF dist]] by metis
  then show ?thesis
    using fanout_loop_spec [OF dist, of wr pair "rate_frame D pair r" h m]
    unfolding eq [of _ "\<lambda>p sub. sub\<lparr>ws_conn := ws_conn sub @ frame_written (wr p) (rate_frame D pair r)\<rparr>"]
    by (simp add: fanout_def)
qed

section \<open>Subscriptions\<close>

lemma map_of_add_pairs:
  "map_of (add_pairs ps m) k = (if k \<in> normalizePair ` set ps then Some () else map_of m k)"
  by (induction ps arbitrary: m) auto

lemma map_of_delete_pairs:
  "map_of (delete_pairs ps m) k = (if k \<in> normalizePair ` set ps then None else map_of m k)"
  by (induction ps arbitrary: m) (auto simp: map_of_delete_if)

lemma ToUpper_upper: "upper_alpha s \<Longrightarrow> ToUpper s = s"
  by (induction s) (auto simp: ToUpper_def upper_char_def upper_alpha_def Let_def)

lemma upper_no_dash: "upper_alpha s \<Longrightarrow> CHR ''-'' \<notin> set s"
  by (auto simp: upper_alpha_def)

lemma graph_ascii_parts [simp]:
  "graph_ascii (xs @ ys) \<longleftrightarrow> graph_ascii xs \<and> graph_ascii ys"
  "graph_ascii (c # xs) \<longleftrightarrow> 33 \<le> (of_char c :: nat) \<and> (of_char c :: nat) \<le> 126 \<and> graph_ascii xs"
  "graph_ascii []"
  by (auto simp: graph_ascii_def)

lemma upper_graph: "upper_alpha s \<Longrightarrow> graph_ascii s"
  by (fastforce simp: upper_alpha_def graph_ascii_def)

lemma upper_alpha_append [simp]: "upper_alpha (xs @ ys) \<longleftrightarrow> upper_alpha xs \<and> upper_alpha ys"
  by (auto simp: upper_alpha_def)

lemma ToUpper_append [simp]: "ToUpper (xs @ ys) = ToUpper xs @ ToUpper ys" "ToUpper ''-'' = ''-''"
  by (simp_all add: ToUpper_def upper_char_def)

text \<open> Subscriptions name the pairs that updates are published under: a pair key of upper-case codes is
  its own canonical form, as is the same pair written without the dash if the first code has three
  letters; and after a subscribe command a subscriber gets the updates of exactly the pairs it had and
  those the command names, after an unsubscribe command of exactly the others.
\<close>

lemma subscriptions_follow_commands:
  assumes "upper_alpha from" and "upper_alpha to"
  shows "normalizePair (pairKey from to) = pairKey from to \<and>
    (length from = 3 \<and> 3 \<le> length to \<longrightarrow> normalizePair (from @ to) = pairKey from to) \<and>
    (ToLower (cmd_Action cmd) = ''subscribe'' \<and> decode_command j = Some cmd \<longrightarrow>
      map_of (ws_pairs (fst (handle_command wr (Some j) sub m))) k =
        (if k \<in> normalizePair ` set (cmd_Pairs cmd) then Some () else map_of (ws_pairs sub) k)) \<and>
    (ToLower (cmd_Action cmd) = ''unsubscribe'' \<and> decode_command j = Some cmd \<longrightarrow>
      map_of (ws_pairs (fst (handle_command wr (Some j) sub m))) k =
        (if k \<in> normalizePair ` set (cmd_Pairs cmd) then None else map_of (ws_pairs sub) k))"
proof (intro conjI impI)
  have g: "graph_ascii from" "graph_ascii to" using assms by (simp_all add: upper_graph)
  have up: "ToUpper from = from" "ToUpper to = to" using assms by (simp_all add: ToUpper_upper)
  have "TrimSpace (from @ ''-'' @ to) = from @ ''-'' @ to" by (rule TrimSpace_graph) (simp add: g)
  moreover have "ToUpper (from @ ''-'' @ to) = from @ ''-'' @ to"
    unfolding ToUpper_append up by simp
  ultimately show "normalizePair (pairKey from to) = pairKey from to"
    by (simp add: normalizePair_def pairKey_def)
  have "TrimSpace (from @ to) = from @ to" by (rule TrimSpace_graph) (simp add: g)
  then show "normalizePair (from @ to) = pairKey from to" if "length from = 3 \<and> 3 \<le> length to"
    using that upper_no_dash [OF assms(1)] upper_no_dash [OF assms(2)]
    by (simp add: normalizePair_def pairKey_def up)
qed (simp_all add: handle_command_def map_of_add_pairs map_of_delete_pairs)

section \<open>Concrete instances\<close>


definition ex_subscriber :: "string \<Rightarrow> wsSubscriber" where
  "ex_subscriber pair = \<lparr>ws_conn = [], ws_pairs = [(pair, ())], ws_done = False, ws_closed = False\<rparr>"

definition ex_hub :: wsHub where
  "ex_hub = \<lparr>hub_subscribers = [(1, ex_subscriber ''USD-BTC''), (2, ex_subscriber ''USD-ETH'')]\<rparr>"

theorem fanout_reaches_subscribers_witness:
  "map_option ws_conn (map_of (hub_subscribers (fst (fanout dec10_ops rev (\<lambda>_ _. True) ''USD-BTC''
     (ex_rate ''BTC'' 70000 5) ex_hub newMetrics))) 1) =
     Some (frame_written (\<lambda>_. True) (rate_frame dec10_ops ''USD-BTC'' (ex_rate ''BTC'' 70000 5))) \<and>
   map_option ws_conn (map_of (hub_subscribers (fst (fanout dec10_ops rev (\<lambda>_ _. True) ''USD-BTC''
     (ex_rate ''BTC'' 70000 5) ex_hub newMetrics))) 2) = Some []"
proof -
  have "wf_map (hub_subscribers ex_hub)" by (simp add: ex_hub_def wf_map_def)
  then show ?thesis
    using fanout_reaches_subscribers [of rev ex_hub dec10_ops "\<lambda>_ _. True" "''USD-BTC''"
        "ex_rate ''BTC'' 70000 5" newMetrics]
    by (simp add: ex_hub_def ex_subscriber_def)
qed


end
