(* ===== verification/Feed.thy ===== *)
theory Feed
  imports Web_Socket Quote_Store "HOL-Library.Sublist"
begin

text \<open>
  \<open>internal/feed.go\<close>: the in-process rate feed with its bounded subscriber channels, the subscriber
  loop, the consumer that turns messages into rate updates, the poll fallback and the choice of a rate
  source. A message type is a parameter of the feed itself; the consumer uses \<open>FeedMessage\<close>.
\<close>

section \<open>The in-process feed\<close>

text \<open>
  A channel is an object with a buffer of 64 messages; the feed holds the channels of its current
  subscribers. Channels are numbered in the order of their creation.
\<close>

record 'm channel =
  ch_buf :: "'m list"
  ch_closed :: bool

record 'm inProcFeed =
  f_subs :: "nat list"
  f_closed :: bool
  f_chans :: "nat \<Rightarrow> 'm channel"
  f_next :: nat

definition chan_cap :: nat where "chan_cap = 64"

definition make_chan :: "'m channel" where
  "make_chan = \<lparr>ch_buf = [], ch_closed = False\<rparr>"

definition newInProcFeed :: "'m inProcFeed" where
  "newInProcFeed = \<lparr>f_subs = [], f_closed = False, f_chans = (\<lambda>_. make_chan), f_next = 0\<rparr>"

text \<open>The \<open>select\<close> with a default case: drop when the buffer is full; a send on a closed channel panics.\<close>

definition try_send :: "'m \<Rightarrow> 'm channel \<Rightarrow> 'm channel option" where
  "try_send msg ch =
     (if ch_closed ch then None
      else if length (ch_buf ch) < chan_cap then Some (ch\<lparr>ch_buf := ch_buf ch @ [msg]\<rparr>)
      else Some ch)"

fun Publish_loop :: "'m \<Rightarrow> nat list \<Rightarrow> (nat \<Rightarrow> 'm channel) \<Rightarrow> (nat \<Rightarrow> 'm channel) option" where
  "Publish_loop msg [] chans = Some chans"
| "Publish_loop msg (c # cs) chans =
     (case try_send msg (chans c) of
        None \<Rightarrow> None
      | Some ch \<Rightarrow> Publish_loop msg cs (chans(c := ch)))"

definition Publish :: "'m \<Rightarrow> 'm inProcFeed \<Rightarrow> 'm inProcFeed option" where
  "Publish msg f = map_option (\<lambda>chans. f\<lparr>f_chans := chans\<rparr>) (Publish_loop msg (f_subs f) (f_chans f))"

text \<open>The head of \<open>Subscribe\<close>: \<open>None\<close> is the return of \<open>context.Canceled\<close> on a closed feed.\<close>

definition Subscribe_register :: "'m inProcFeed \<Rightarrow> nat option \<times> 'm inProcFeed" where
  "Subscribe_register f =
     (let ch = f_next f; f1 = f\<lparr>f_chans := (f_chans f)(ch := make_chan), f_next := Suc ch\<rparr>
      in if f_closed f then (None, f1) else (Some ch, f1\<lparr>f_subs := f_subs f1 @ [ch]\<rparr>))"

definition removeSub :: "nat \<Rightarrow> 'm inProcFeed \<Rightarrow> 'm inProcFeed" where
  "removeSub ch f = f\<lparr>f_subs := remove1 ch (f_subs f)\<rparr>"

text \<open>Closing a closed channel panics.\<close>

fun close_all :: "nat list \<Rightarrow> (nat \<Rightarrow> 'm channel) \<Rightarrow> (nat \<Rightarrow> 'm channel) option" where
  "close_all [] chans = Some chans"
| "close_all (c # cs) chans =
     (if ch_closed (chans c) then None
      else close_all cs (chans(c := (chans c)\<lparr>ch_closed := True\<rparr>)))"

definition feed_Close :: "'m inProcFeed \<Rightarrow> 'm inProcFeed option" where
  "feed_Close f =
     map_option (\<lambda>chans. f\<lparr>f_closed := True, f_chans := chans, f_subs := []\<rparr>)
       (close_all (f_subs f) (f_chans f))"

section \<open>Subscribers\<close>

text \<open>
  The loop of \<open>Subscribe\<close> on one channel. \<open>Returned None\<close> is the return of \<open>nil\<close>, \<open>Returned (Some e)\<close>
  of the context's error. The handled messages are those the handler was called with, in order;
  \<open>sb_seen\<close> and \<open>sb_dropped\<close> only record what was published while the subscriber was registered and
  how much of it did not fit.
\<close>

datatype sub_phase = Looping | Returned "string option"

record 'm feed_sub =
  sb_phase :: sub_phase
  sb_done :: bool
  sb_handled :: "'m list"
  sb_seen :: "'m list"
  sb_dropped :: nat

record 'm feed_world =
  fw_feed :: "'m inProcFeed"
  fw_subs :: "nat \<Rightarrow> 'm feed_sub option"

definition new_sub :: "'m feed_sub" where
  "new_sub = \<lparr>sb_phase = Looping, sb_done = False, sb_handled = [], sb_seen = [], sb_dropped = 0\<rparr>"

definition note_publish :: "'m \<Rightarrow> 'm inProcFeed \<Rightarrow> (nat \<Rightarrow> 'm feed_sub option) \<Rightarrow> (nat \<Rightarrow> 'm feed_sub option)" where
  "note_publish msg f subs =
     (\<lambda>i. map_option (\<lambda>sb.
        if i \<in> set (f_subs f)
        then sb\<lparr>sb_seen := sb_seen sb @ [msg],
                sb_dropped := (if length (ch_buf (f_chans f i)) < chan_cap then sb_dropped sb else Suc (sb_dropped sb))\<rparr>
        else sb) (subs i))"

inductive feed_step :: "'m feed_world \<Rightarrow> 'm feed_world \<Rightarrow> bool" where
  fs_publish: "Publish msg (fw_feed w) = Some f \<Longrightarrow>
    feed_step w \<lparr>fw_feed = f, fw_subs = note_publish msg (fw_feed w) (fw_subs w)\<rparr>"
| fs_subscribe: "Subscribe_register (fw_feed w) = (Some ch, f) \<Longrightarrow>
    feed_step w \<lparr>fw_feed = f, fw_subs = (fw_subs w)(ch \<mapsto> new_sub)\<rparr>"
| fs_refused: "Subscribe_register (fw_feed w) = (None, f) \<Longrightarrow> feed_step w (w\<lparr>fw_feed := f\<rparr>)"
| fs_close: "feed_Close (fw_feed w) = Some f \<Longrightarrow> feed_step w (w\<lparr>fw_feed := f\<rparr>)"
| fs_cancel: "fw_subs w ch = Some sb \<Longrightarrow>
    feed_step w (w\<lparr>fw_subs := (fw_subs w)(ch \<mapsto> sb\<lparr>sb_done := True\<rparr>)\<rparr>)"
| fs_done: "fw_subs w ch = Some sb \<Longrightarrow> sb_phase sb = Looping \<Longrightarrow> sb_done sb \<Longrightarrow>
    feed_step w (w\<lparr>fw_feed := removeSub ch (fw_feed w),
      fw_subs := (fw_subs w)(ch \<mapsto> sb\<lparr>sb_phase := Returned (Some ''context canceled'')\<rparr>)\<rparr>)"
| fs_receive: "fw_subs w ch = Some sb \<Longrightarrow> sb_phase sb = Looping \<Longrightarrow>
    ch_buf (f_chans (fw_feed w) ch) = m # ms \<Longrightarrow>
    feed_step w (w\<lparr>fw_feed := (fw_feed w)\<lparr>f_chans := (f_chans (fw_feed w))
        (ch := (f_chans (fw_feed w) ch)\<lparr>ch_buf := ms\<rparr>)\<rparr>,
      fw_subs := (fw_subs w)(ch \<mapsto> sb\<lparr>sb_handled := sb_handled sb @ [m]\<rparr>)\<rparr>)"
| fs_closed: "fw_subs w ch = Some sb \<Longrightarrow> sb_phase sb = Looping \<Longrightarrow>
    ch_buf (f_chans (fw_feed w) ch) = [] \<Longrightarrow> ch_closed (f_chans (fw_feed w) ch) \<Longrightarrow>
    feed_step w (w\<lparr>fw_feed := removeSub ch (fw_feed w),
      fw_subs := (fw_subs w)(ch \<mapsto> sb\<lparr>sb_phase := Returned None\<rparr>)\<rparr>)"

definition feed_start :: "'m feed_world" where
  "feed_start = \<lparr>fw_feed = newInProcFeed, fw_subs = Map.empty\<rparr>"

section \<open>The invariant\<close>

definition sub_ok :: "'m channel \<Rightarrow> 'm feed_sub \<Rightarrow> bool" where
  "sub_ok ch sb \<longleftrightarrow> length (ch_buf ch) \<le> chan_cap \<and>
     subseq (sb_handled sb @ ch_buf ch) (sb_seen sb) \<and>
     length (sb_handled sb @ ch_buf ch) + sb_dropped sb = length (sb_seen sb)"

definition sub_inv :: "'m inProcFeed \<Rightarrow> nat \<Rightarrow> 'm feed_sub \<Rightarrow> bool" where
  "sub_inv f i sb \<longleftrightarrow> i < f_next f \<and> sub_ok (f_chans f i) sb \<and>
     (sb_phase sb = Looping \<longrightarrow> i \<in> set (f_subs f) \<or> ch_closed (f_chans f i))"

definition feed_inv :: "'m feed_world \<Rightarrow> bool" where
  "feed_inv w \<longleftrightarrow>
     distinct (f_subs (fw_feed w)) \<and>
     (\<forall>i \<in> set (f_subs (fw_feed w)). i < f_next (fw_feed w) \<and> \<not> ch_closed (f_chans (fw_feed w) i) \<and>
       (\<exists>sb. fw_subs w i = Some sb \<and> sb_phase sb = Looping)) \<and>
     (\<forall>i sb. fw_subs w i = Some sb \<longrightarrow> sub_inv (fw_feed w) i sb) \<and>
     (f_closed (fw_feed w) \<longrightarrow> f_subs (fw_feed w) = [])"

lemma feed_invI:
  assumes "distinct (f_subs f)"
    and "\<And>i. i \<in> set (f_subs f) \<Longrightarrow> i < f_next f \<and> \<not> ch_closed (f_chans f i) \<and> (\<exists>sb. subs i = Some sb \<and> sb_phase sb = Looping)"
    and "\<And>i sb. subs i = Some sb \<Longrightarrow> sub_inv f i sb" and "f_closed f \<Longrightarrow> f_subs f = []"
  shows "feed_inv \<lparr>fw_feed = f, fw_subs = subs\<rparr>"
  using assms by (simp add: feed_inv_def)

lemma feed_inv_start: "feed_inv feed_start"
  by (simp add: feed_inv_def feed_start_def newInProcFeed_def)

lemma Publish_loop_Some:
  assumes "distinct cs" and "\<forall>i \<in> set cs. \<not> ch_closed (chans i)"
  shows "Publish_loop msg cs chans = Some (\<lambda>i. if i \<in> set cs \<and> length (ch_buf (chans i)) < chan_cap
     then (chans i)\<lparr>ch_buf := ch_buf (chans i) @ [msg]\<rparr> else chans i)"
  using assms
proof (induction cs arbitrary: chans)
  case (Cons c cs)
  let ?ch = "if length (ch_buf (chans c)) < chan_cap then (chans c)\<lparr>ch_buf := ch_buf (chans c) @ [msg]\<rparr> else chans c"
  have "try_send msg (chans c) = Some ?ch" using Cons.prems by (simp add: try_send_def)
  moreover have "Publish_loop msg cs (chans(c := ?ch)) = Some (\<lambda>i. if i \<in> set cs \<and>
      length (ch_buf ((chans(c := ?ch)) i)) < chan_cap
      then ((chans(c := ?ch)) i)\<lparr>ch_buf := ch_buf ((chans(c := ?ch)) i) @ [msg]\<rparr> else (chans(c := ?ch)) i)"
    using Cons.prems by (intro Cons.IH) auto
  ultimately show ?case using Cons.prems(1) by (auto intro!: ext)
qed simp

lemma close_all_Some:
  assumes "distinct cs" and "\<forall>i \<in> set cs. \<not> ch_closed (chans i)"
  shows "close_all cs chans = Some (\<lambda>i. if i \<in> set cs then (chans i)\<lparr>ch_closed := True\<rparr> else chans i)"
  using assms
proof (induction cs arbitrary: chans)
  case (Cons c cs)
  let ?chans = "chans(c := (chans c)\<lparr>ch_closed := True\<rparr>)"
  have "close_all cs ?chans = Some (\<lambda>i. if i \<in> set cs then (?chans i)\<lparr>ch_closed := True\<rparr> else ?chans i)"
    using Cons.prems by (intro Cons.IH) auto
  with Cons.prems show ?case by (auto intro!: ext)
qed simp

lemma feed_invD:
  assumes "feed_inv w"
  shows "distinct (f_subs (fw_feed w))"
    and "\<forall>i \<in> set (f_subs (fw_feed w)). \<not> ch_closed (f_chans (fw_feed w) i)"
    and "fw_subs w i = Some sb \<Longrightarrow> sub_inv (fw_feed w) i sb"
    and "i \<in> set (f_subs (fw_feed w)) \<Longrightarrow> i < f_next (fw_feed w) \<and> (\<exists>sb. fw_subs w i = Some sb \<and> sb_phase sb = Looping)"
    and "f_closed (fw_feed w) \<Longrightarrow> f_subs (fw_feed w) = []"
  using assms by (auto simp: feed_inv_def)

lemma Publish_total: "feed_inv w \<Longrightarrow> Publish msg (fw_feed w) \<noteq> None"
  by (simp add: Publish_def Publish_loop_Some [OF feed_invD(1,2)])

lemma feed_Close_total: "feed_inv w \<Longrightarrow> feed_Close (fw_feed w) \<noteq> None"
  by (simp add: feed_Close_def close_all_Some [OF feed_invD(1,2)])

lemma sub_ok_publish:
  assumes "sub_ok ch sb"
  shows "length (ch_buf ch) < chan_cap \<Longrightarrow>
      sub_ok (ch\<lparr>ch_buf := ch_buf ch @ [msg]\<rparr>) (sb\<lparr>sb_seen := sb_seen sb @ [msg]\<rparr>)"
    and "sub_ok ch (sb\<lparr>sb_seen := sb_seen sb @ [msg], sb_dropped := Suc (sb_dropped sb)\<rparr>)"
  using assms list_emb_append_mono [of "(=)" "sb_handled sb @ ch_buf ch" "sb_seen sb" "[msg]" "[msg]"]
    list_emb_append2 [of "(=)" "sb_handled sb @ ch_buf ch" "sb_seen sb"]
  by (auto simp: sub_ok_def)


lemma feed_inv_publish:
  assumes inv: "feed_inv w" and "Publish msg (fw_feed w) = Some f"
  shows "feed_inv \<lparr>fw_feed = f, fw_subs = note_publish msg (fw_feed w) (fw_subs w)\<rparr>"
proof -
  have f: "f = (fw_feed w)\<lparr>f_chans := \<lambda>i. if i \<in> set (f_subs (fw_feed w)) \<and> length (ch_buf (f_chans (fw_feed w) i)) < chan_cap
      then (f_chans (fw_feed w) i)\<lparr>ch_buf := ch_buf (f_chans (fw_feed w) i) @ [msg]\<rparr> else f_chans (fw_feed w) i\<rparr>"
    using assms(2) by (simp add: Publish_def Publish_loop_Some [OF feed_invD(1,2) [OF inv]])
  show ?thesis
  proof (rule feed_invI)
    fix i
    assume "i \<in> set (f_subs f)"
    then have i: "i \<in> set (f_subs (fw_feed w))" by (simp add: f)
    then obtain sb where "fw_subs w i = Some sb" "sb_phase sb = Looping" "i < f_next (fw_feed w)"
      using feed_invD(4) [OF inv] by blast
    with i feed_invD(2) [OF inv] show "i < f_next f \<and> \<not> ch_closed (f_chans f i) \<and>
        (\<exists>sb. note_publish msg (fw_feed w) (fw_subs w) i = Some sb \<and> sb_phase sb = Looping)"
      by (auto simp: f note_publish_def)
  next
    fix i sb
    assume sb: "note_publish msg (fw_feed w) (fw_subs w) i = Some sb"
    then obtain sb0 where sb0: "fw_subs w i = Some sb0" by (auto simp: note_publish_def)
    note ok = feed_invD(3) [OF inv sb0, unfolded sub_inv_def]
    from sb sb0 sub_ok_publish [of "f_chans (fw_feed w) i" sb0 msg] ok show "sub_inv f i sb"
      by (cases "i \<in> set (f_subs (fw_feed w))"; cases "length (ch_buf (f_chans (fw_feed w) i)) < chan_cap")
        (auto simp: note_publish_def f sub_inv_def)
  qed (use feed_invD(1,5) [OF inv] in \<open>simp_all add: f\<close>)
qed

lemma feed_inv_return:
  assumes inv: "feed_inv w" and sb: "fw_subs w ch = Some sb"
  shows "feed_inv (w\<lparr>fw_feed := removeSub ch (fw_feed w), fw_subs := (fw_subs w)(ch \<mapsto> sb\<lparr>sb_phase := Returned e\<rparr>)\<rparr>)"
proof -
  let ?f = "removeSub ch (fw_feed w)"
  have "sub_inv ?f ch (sb\<lparr>sb_phase := Returned e\<rparr>)"
    using feed_invD(3) [OF inv sb] by (simp add: sub_inv_def sub_ok_def removeSub_def)
  moreover have "sub_inv ?f i sb'" if "fw_subs w i = Some sb'" "i \<noteq> ch" for i sb'
    using feed_invD(3) [OF inv that(1)] that(2) by (auto simp: sub_inv_def removeSub_def)
  ultimately show ?thesis using inv by (auto simp: feed_inv_def removeSub_def)
qed

lemma feed_inv_subscribe:
  assumes inv: "feed_inv w" and sub: "Subscribe_register (fw_feed w) = (Some ch, f)"
  shows "feed_inv \<lparr>fw_feed = f, fw_subs = (fw_subs w)(ch \<mapsto> new_sub)\<rparr>"
proof -
  from sub have ch: "ch = f_next (fw_feed w)" and open_feed: "\<not> f_closed (fw_feed w)"
    and f: "f = (fw_feed w)\<lparr>f_chans := (f_chans (fw_feed w))(ch := make_chan), f_next := Suc ch,
      f_subs := f_subs (fw_feed w) @ [ch]\<rparr>"
    by (auto simp: Subscribe_register_def Let_def split: if_splits)
  show ?thesis
  proof (rule feed_invI)
    show "distinct (f_subs f)" using feed_invD(1,4) [OF inv] by (auto simp: f ch)
    show "i < f_next f \<and> \<not> ch_closed (f_chans f i) \<and>
        (\<exists>sb. ((fw_subs w)(ch \<mapsto> new_sub)) i = Some sb \<and> sb_phase sb = Looping)" if "i \<in> set (f_subs f)" for i
      using that feed_invD(2,4) [OF inv]
      by (cases "i = ch") (auto simp: f make_chan_def new_sub_def less_Suc_eq ch)
    show "sub_inv f i sb" if "((fw_subs w)(ch \<mapsto> new_sub)) i = Some sb" for i sb
      using that feed_invD(3) [OF inv, of i]
      by (cases "i = ch") (auto simp: f sub_inv_def sub_ok_def make_chan_def new_sub_def ch)
  qed (simp add: f open_feed)
qed

lemma feed_inv_refused:
  assumes inv: "feed_inv w" and sub: "Subscribe_register (fw_feed w) = (None, f)"
  shows "feed_inv (w\<lparr>fw_feed := f\<rparr>)"
proof -
  from sub have f: "f = (fw_feed w)\<lparr>f_chans := (f_chans (fw_feed w))(f_next (fw_feed w) := make_chan), f_next := Suc (f_next (fw_feed w))\<rparr>"
    and closed: "f_closed (fw_feed w)"
    by (auto simp: Subscribe_register_def Let_def split: if_splits)
  have "sub_inv f i sb" if "fw_subs w i = Some sb" for i sb
    using feed_invD(3) [OF inv that] by (auto simp: f sub_inv_def)
  with inv feed_invD(5) [OF inv closed] show ?thesis
    by (simp add: feed_inv_def f)
qed

lemma feed_inv_close:
  assumes inv: "feed_inv w" and "feed_Close (fw_feed w) = Some f"
  shows "feed_inv (w\<lparr>fw_feed := f\<rparr>)"
proof -
  have f: "f = (fw_feed w)\<lparr>f_closed := True, f_chans := \<lambda>i. if i \<in> set (f_subs (fw_feed w))
      then (f_chans (fw_feed w) i)\<lparr>ch_closed := True\<rparr> else f_chans (fw_feed w) i, f_subs := []\<rparr>"
    using assms(2) by (auto simp: feed_Close_def close_all_Some [OF feed_invD(1,2) [OF inv]])
  have "sub_ok (ch\<lparr>ch_closed := True\<rparr>) sb = sub_ok ch sb" for ch :: "'a channel" and sb by (simp add: sub_ok_def)
  with inv show ?thesis by (auto simp: feed_inv_def f sub_inv_def)
qed

lemma feed_inv_receive:
  assumes inv: "feed_inv w" and sb: "fw_subs w ch = Some sb" "sb_phase sb = Looping"
    and buf: "ch_buf (f_chans (fw_feed w) ch) = m # ms"
  shows "feed_inv (w\<lparr>fw_feed := (fw_feed w)\<lparr>f_chans := (f_chans (fw_feed w))
        (ch := (f_chans (fw_feed w) ch)\<lparr>ch_buf := ms\<rparr>)\<rparr>,
      fw_subs := (fw_subs w)(ch \<mapsto> sb\<lparr>sb_handled := sb_handled sb @ [m]\<rparr>)\<rparr>)"
proof -
  let ?f = "(fw_feed w)\<lparr>f_chans := (f_chans (fw_feed w))(ch := (f_chans (fw_feed w) ch)\<lparr>ch_buf := ms\<rparr>)\<rparr>"
  have "sub_inv ?f ch (sb\<lparr>sb_handled := sb_handled sb @ [m]\<rparr>)"
    using feed_invD(3) [OF inv sb(1)] buf by (auto simp: sub_inv_def sub_ok_def)
  moreover have "sub_inv ?f i sb'" if "fw_subs w i = Some sb'" "i \<noteq> ch" for i sb'
    using feed_invD(3) [OF inv that(1)] that(2) by (simp add: sub_inv_def)
  ultimately show ?thesis using inv sb by (auto simp: feed_inv_def)
qed

lemma feed_step_inv: "feed_step w w' \<Longrightarrow> feed_inv w \<Longrightarrow> feed_inv w'"
proof (induction rule: feed_step.induct)
  case (fs_cancel w ch sb)
  then show ?case by (auto simp: feed_inv_def sub_inv_def sub_ok_def)
qed (simp_all add: feed_inv_publish feed_inv_subscribe feed_inv_refused feed_inv_close feed_inv_receive feed_inv_return)

lemma feed_run_inv: "feed_step\<^sup>*\<^sup>* w w' \<Longrightarrow> feed_inv w \<Longrightarrow> feed_inv w'"
  by (induction rule: rtranclp_induct) (auto intro: feed_step_inv)

section \<open>Delivery\<close>

text \<open>
  (C18) In every state that the feed and its subscribers reach, publishing and closing never panic, and
  each subscriber has handled, in the order of publication, what was published while it was
  registered, except for what is still in its buffer of at most 64 messages and for the messages that
  found the buffer full: handled, buffered and dropped messages add up to the published ones.
\<close>

theorem feed_delivers_in_order:
  assumes "feed_step\<^sup>*\<^sup>* feed_start w"
  shows "Publish msg (fw_feed w) \<noteq> None \<and> feed_Close (fw_feed w) \<noteq> None \<and>
    (\<forall>i sb. fw_subs w i = Some sb \<longrightarrow>
      subseq (sb_handled sb @ ch_buf (f_chans (fw_feed w) i)) (sb_seen sb) \<and>
      length (ch_buf (f_chans (fw_feed w) i)) \<le> 64 \<and>
      length (sb_handled sb) + length (ch_buf (f_chans (fw_feed w) i)) + sb_dropped sb = length (sb_seen sb) \<and>
      (sb_dropped sb = 0 \<longrightarrow> sb_seen sb = sb_handled sb @ ch_buf (f_chans (fw_feed w) i)))"
proof -
  have inv: "feed_inv w" using feed_run_inv [OF assms feed_inv_start] .
  have "sb_seen sb = sb_handled sb @ b"
    if "subseq (sb_handled sb @ b) (sb_seen sb)" "length (sb_handled sb @ b) = length (sb_seen sb)" for sb :: "'a feed_sub" and b
    using that subseq_same_length by metis
  with feed_invD(3) [OF inv] Publish_total [OF inv] feed_Close_total [OF inv] show ?thesis
    by (fastforce simp: sub_inv_def sub_ok_def chan_cap_def)
qed

text \<open>A subscriber of a closed feed drains its buffer and returns.\<close>

lemma drain_closed:
  assumes "fw_subs w ch = Some sb" and "sb_phase sb = Looping" and "ch_closed (f_chans (fw_feed w) ch)"
    and "ch_buf (f_chans (fw_feed w) ch) = ms"
  shows "\<exists>w' sb'. feed_step\<^sup>*\<^sup>* w w' \<and> fw_subs w' ch = Some sb' \<and> sb_phase sb' = Returned None \<and>
    sb_handled sb' = sb_handled sb @ ms"
  using assms
proof (induction ms arbitrary: w sb)
  case Nil
  from feed_step.fs_closed [OF Nil(1,2,4,3)] show ?case by (auto intro!: exI r_into_rtranclp)
next
  case (Cons m ms)
  let ?w = "w\<lparr>fw_feed := (fw_feed w)\<lparr>f_chans := (f_chans (fw_feed w))
        (ch := (f_chans (fw_feed w) ch)\<lparr>ch_buf := ms\<rparr>)\<rparr>,
      fw_subs := (fw_subs w)(ch \<mapsto> sb\<lparr>sb_handled := sb_handled sb @ [m]\<rparr>)\<rparr>"
  have "feed_step w ?w" by (rule feed_step.fs_receive [OF Cons.prems(1,2,4)])
  moreover obtain w' sb' where "feed_step\<^sup>*\<^sup>* ?w w'" "fw_subs w' ch = Some sb'" "sb_phase sb' = Returned None"
    "sb_handled sb' = (sb_handled sb @ [m]) @ ms"
    using Cons.IH [of ?w "sb\<lparr>sb_handled := sb_handled sb @ [m]\<rparr>"] Cons.prems by auto
  ultimately show ?case by (auto intro: converse_rtranclp_into_rtranclp)
qed

text \<open> Closing the feed unblocks its subscribers: once the feed is closed, every subscriber that is still
  in its loop can run on to return \<open>nil\<close>, after handling all that was left in its buffer, in order.
\<close>

lemma closed_feed_drains:
  assumes "feed_step\<^sup>*\<^sup>* feed_start w" and "f_closed (fw_feed w)" and "fw_subs w ch = Some sb" and "sb_phase sb = Looping"
  shows "\<exists>w' sb'. feed_step\<^sup>*\<^sup>* w w' \<and> fw_subs w' ch = Some sb' \<and> sb_phase sb' = Returned None \<and>
    sb_handled sb' = sb_handled sb @ ch_buf (f_chans (fw_feed w) ch)"
proof -
  have inv: "feed_inv w" using feed_run_inv [OF assms(1) feed_inv_start] .
  have "ch_closed (f_chans (fw_feed w) ch)"
    using feed_invD(3) [OF inv assms(3)] feed_invD(5) [OF inv assms(2)] assms(4) by (simp add: sub_inv_def)
  from drain_closed [OF assms(3,4) this refl] show ?thesis .
qed

section \<open>The consumer\<close>

record 'd FeedMessage =
  fm_Pair :: string
  fm_Bid :: 'd
  fm_Ask :: 'd
  fm_Mid :: 'd
  fm_SourceVenue :: string
  fm_TS :: time

definition splitPair :: "string \<Rightarrow> string \<times> string" where
  "splitPair p = (case IndexByte p (CHR ''-'') of Some i \<Rightarrow> (take i p, drop (i + 1) p) | None \<Rightarrow> ([], []))"

definition message_mid :: "'d decimal_ops \<Rightarrow> 'd FeedMessage \<Rightarrow> 'd option" where
  "message_mid D msg =
     (if dLessThanOrEqual D (fm_Mid msg) (dZero D) \<and> dGreaterThan D (fm_Bid msg) (dZero D) \<and>
         dGreaterThan D (fm_Ask msg) (dZero D)
      then dDiv D (dAdd D (fm_Bid msg) (fm_Ask msg)) (dNewFromInt D 2)
      else Some (fm_Mid msg))"

text \<open>\<open>Duration.Milliseconds\<close> truncates towards zero.\<close>

definition Milliseconds :: "duration \<Rightarrow> int" where
  "Milliseconds d = (if 0 \<le> d then d div millisecond else - ((- d) div millisecond))"

text \<open>The update callback that \<open>NewServer\<close> installs: fan the rate out to the subscribers of its pair.\<close>

fun notify ::
    "'d decimal_ops \<Rightarrow> (nat list \<Rightarrow> nat list) \<Rightarrow> (nat \<Rightarrow> nat \<Rightarrow> bool) \<Rightarrow> (string \<times> 'd Rate) list \<Rightarrow>
     wsHub \<Rightarrow> metrics \<Rightarrow> wsHub \<times> metrics" where
  "notify D iter wr [] h m = (h, m)"
| "notify D iter wr ((pair, r) # ns) h m =
     (case fanout D iter wr pair r h m of (h', m') \<Rightarrow> notify D iter wr ns h' m')"

definition message_rate :: "clock \<Rightarrow> string \<Rightarrow> string \<Rightarrow> 'd \<Rightarrow> 'd FeedMessage \<Rightarrow> 'd Rate" where
  "message_rate ck from to mid msg =
     \<lparr>r_From = from, r_To = to, r_Bid = fm_Bid msg, r_Ask = fm_Ask msg, r_Mid = mid, r_TS = ck 0,
      r_SourceVenue = fm_SourceVenue msg, r_Stale = False\<rparr>"

definition consume_message ::
    "'d decimal_ops \<Rightarrow> clock \<Rightarrow> (nat list \<Rightarrow> nat list) \<Rightarrow> (nat \<Rightarrow> nat \<Rightarrow> bool) \<Rightarrow> 'd FeedMessage \<Rightarrow>
     'd SpotService \<times> wsHub \<times> metrics \<Rightarrow> ('d SpotService \<times> wsHub \<times> metrics) option" where
  "consume_message D ck iter wr msg w =
     do { mid \<leftarrow> message_mid D msg;
          let (from, to) = splitPair (fm_Pair msg) in
          if from = [] \<or> to = [] then Some w
          else (case w of (s, h, m) \<Rightarrow>
            case Update (later 1 ck) (message_rate ck from to mid msg) s of (s', notes) \<Rightarrow>
            case notify D iter wr notes h m of (h', m') \<Rightarrow>
              Some (s', h', m'\<lparr>m_spotPubsubLagMs := Milliseconds (ck 2 - fm_TS msg)\<rparr>)) }"

section \<open>Polling and rate sources\<close>

type_synonym 'd PollClient = "string \<Rightarrow> string \<Rightarrow> string + 'd Rate"

definition errNoPoll :: string where "errNoPoll = ''no poll client configured''"

definition noopPollClient_Poll :: "'d PollClient" where
  "noopPollClient_Poll from to = Inl errNoPoll"

definition pollFallback ::
    "'d decimal_ops \<Rightarrow> clock \<Rightarrow> (nat list \<Rightarrow> nat list) \<Rightarrow> (nat \<Rightarrow> nat \<Rightarrow> bool) \<Rightarrow> 'd PollClient option \<Rightarrow>
     string \<Rightarrow> string \<Rightarrow> 'd SpotService \<times> wsHub \<times> metrics \<Rightarrow>
     'd Rate option \<times> 'd SpotService \<times> wsHub \<times> metrics" where
  "pollFallback D ck iter wr poll from to w =
     (case poll of
        None \<Rightarrow> (None, w)
      | Some p \<Rightarrow>
          (case w of (s, h, m) \<Rightarrow>
           case p from to of
             Inl err \<Rightarrow> (None, s, h, inc_poll ''error'' m)
           | Inr r \<Rightarrow>
               (case Update ck r s of (s', notes) \<Rightarrow>
                case notify D iter wr notes h (inc_poll ''ok'' m) of (h', m') \<Rightarrow> (Some r, s', h', m'))))"

definition selectRateSource :: "RateSource list \<Rightarrow> RateSource option" where
  "selectRateSource sources = find rs_Enabled sources"

section \<open>Properties of the consumer\<close>

lemma splitPair_pairKey: "CHR ''-'' \<notin> set from \<Longrightarrow> splitPair (pairKey from to) = (from, to)"
  by (simp add: splitPair_def pairKey_def split_upto_append_free)

lemma splitPair_join:
  "CHR ''-'' \<in> set p \<Longrightarrow> pairKey (fst (splitPair p)) (snd (splitPair p)) = p \<and> CHR ''-'' \<notin> set (fst (splitPair p))"
proof (induction p)
  case (Cons c p)
  then show ?case
    by (cases "c = CHR ''-''")
      (auto simp: splitPair_def pairKey_def IndexByte_None_iff split: option.splits)
qed simp

lemma message_mid_value:
  assumes "decimal_laws D val"
  shows "\<exists>mid. message_mid D msg = Some mid \<and>
    val mid = (if val (fm_Mid msg) \<le> 0 \<and> 0 < val (fm_Bid msg) \<and> 0 < val (fm_Ask msg)
      then round_places 16 ((val (fm_Bid msg) + val (fm_Ask msg)) / 2) else val (fm_Mid msg))"
proof -
  note laws = decimal_laws.val_simps [OF assms]
  have "val (dNewFromInt D 2) \<noteq> 0" by (simp add: laws)
  from decimal_laws.Div_Some [OF assms this, of "dAdd D (fm_Bid msg) (fm_Ask msg)"]
  show ?thesis by (auto simp: message_mid_def laws)
qed

lemma notify_one: "notify D iter wr (if b then [(k, r)] else []) h m = (if b then fanout D iter wr k r h m else (h, m))"
  by (simp split: prod.split)

text \<open>
  (C24) A well-formed feed message is served: the consumer never panics, a \<open>Get\<close> of its pair within the
  staleness bound returns its bid, ask and venue, with the mid rate of the message or, where that is
  not positive, the rounded mean of bid and ask, and the update is fanned out to the subscribers of
  the pair. A message whose pair has no separator changes nothing.
\<close>

theorem feed_message_served:
  assumes D: "decimal_laws D val" and inv: "spot_inv s" and pair: "fm_Pair msg = pairKey from to"
    and parts: "CHR ''-'' \<notin> set from" "from \<noteq> []" "to \<noteq> []"
    and fresh: "ck' 0 - ck 1 \<le> sp_maxStaleAge s"
  shows "(\<exists>r s' h' m'. consume_message D ck iter wr msg (s, h, m) = Some (s', h', m') \<and> spot_inv s' \<and>
      fst (Get D ck' None from to s' m') = Inr r \<and> r_Bid r = fm_Bid msg \<and> r_Ask r = fm_Ask msg \<and>
      r_SourceVenue r = fm_SourceVenue msg \<and> r_TS r = ck 1 \<and> \<not> r_Stale r \<and>
      val (r_Mid r) = (if val (fm_Mid msg) \<le> 0 \<and> 0 < val (fm_Bid msg) \<and> 0 < val (fm_Ask msg)
        then round_places 16 ((val (fm_Bid msg) + val (fm_Ask msg)) / 2) else val (fm_Mid msg)) \<and>
      h' = (if sp_onUpdate s then fst (fanout D iter wr (fm_Pair msg) r h m) else h)) \<and>
    (\<forall>bad w. CHR ''-'' \<notin> set (fm_Pair bad) \<longrightarrow> consume_message D ck iter wr bad w = Some w)"
proof (intro conjI allI impI)
  obtain mid where mid: "message_mid D msg = Some mid" and val_mid: "val mid =
      (if val (fm_Mid msg) \<le> 0 \<and> 0 < val (fm_Bid msg) \<and> 0 < val (fm_Ask msg)
       then round_places 16 ((val (fm_Bid msg) + val (fm_Ask msg)) / 2) else val (fm_Mid msg))"
    using message_mid_value [OF D] by blast
  let ?base = "message_rate ck from to mid msg"
  let ?r = "?base\<lparr>r_TS := ck 1\<rparr>"
  have r0: "r_From ?base = from" "r_To ?base = to" by (simp_all add: message_rate_def)
  have get: "fst (Get D ck' None from to (fst (Update (later 1 ck) ?base s)) m') = Inr ?r" for m'
    using Get_Update [OF inv, of ck' "later 1 ck" D ?base m'] fresh r0 by simp
  have ns: "snd (Update (later 1 ck) ?base s) = (if sp_onUpdate s then [(fm_Pair msg, ?r)] else [])"
    by (simp add: Update_def Let_def pair message_rate_def)
  have "consume_message D ck iter wr msg (s, h, m) = Some (fst (Update (later 1 ck) ?base s),
      if sp_onUpdate s then fst (fanout D iter wr (fm_Pair msg) ?r h m) else h,
      (if sp_onUpdate s then snd (fanout D iter wr (fm_Pair msg) ?r h m) else m)
        \<lparr>m_spotPubsubLagMs := Milliseconds (ck 2 - fm_TS msg)\<rparr>)"
    using parts ns notify_one [of D iter wr "sp_onUpdate s" "fm_Pair msg" ?r h m]
    by (simp add: consume_message_def mid pair splitPair_pairKey split_def)
  then show "\<exists>r s' h' m'. consume_message D ck iter wr msg (s, h, m) = Some (s', h', m') \<and> spot_inv s' \<and>
      fst (Get D ck' None from to s' m') = Inr r \<and> r_Bid r = fm_Bid msg \<and> r_Ask r = fm_Ask msg \<and>
      r_SourceVenue r = fm_SourceVenue msg \<and> r_TS r = ck 1 \<and> \<not> r_Stale r \<and>
      val (r_Mid r) = (if val (fm_Mid msg) \<le> 0 \<and> 0 < val (fm_Bid msg) \<and> 0 < val (fm_Ask msg)
        then round_places 16 ((val (fm_Bid msg) + val (fm_Ask msg)) / 2) else val (fm_Mid msg)) \<and>
      h' = (if sp_onUpdate s then fst (fanout D iter wr (fm_Pair msg) r h m) else h)"
    using spot_inv_Update [OF inv] get val_mid
    by (intro exI conjI) (assumption | simp add: message_rate_def)+
next
  fix bad :: "'a FeedMessage" and w
  assume "CHR ''-'' \<notin> set (fm_Pair bad)"
  moreover obtain mid where "message_mid D bad = Some mid" using message_mid_value [OF D] by blast
  ultimately show "consume_message D ck iter wr bad w = Some w"
    by (simp add: consume_message_def splitPair_def IndexByte_None_iff [THEN iffD2])
qed

lemma find_sorted:
  assumes "sorted_wrt (\<lambda>a b. \<not> lt b a) xs" and "find P xs = Some x" and "\<And>a. \<not> lt a a"
  shows "x \<in> set xs \<and> P x \<and> (\<forall>y \<in> set xs. P y \<longrightarrow> \<not> lt y x)"
  using assms by (induction xs) (auto split: if_splits)

text \<open> The source chosen from the registry is an enabled one that no other enabled source precedes in
  priority, ties going to the smaller name; there is none exactly if no source is enabled.
\<close>

lemma selectRateSource_best:
  assumes "reorders iter"
  shows "case selectRateSource (RateSources iter st) of
      None \<Rightarrow> \<forall>r \<in> snd ` set (st_sources st). \<not> rs_Enabled r
    | Some r \<Rightarrow> r \<in> snd ` set (st_sources st) \<and> rs_Enabled r \<and>
        (\<forall>r' \<in> snd ` set (st_sources st). rs_Enabled r' \<longrightarrow>
          rs_Priority r < rs_Priority r' \<or> rs_Priority r = rs_Priority r' \<and> \<not> str_less (rs_Name r') (rs_Name r))"
proof -
  have sorted: "sorted_wrt (\<lambda>a b. \<not> source_less b a) (RateSources iter st)"
    and "mset (RateSources iter st) = mset (filter rs_Enabled (map snd (st_sources st)))"
    using RateSources_sorted [OF assms, of st] by simp_all
  from mset_eq_setD [OF this(2)] have set: "set (RateSources iter st) = {r \<in> snd ` set (st_sources st). rs_Enabled r}"
    by auto
  have irrefl: "\<not> source_less a a" for a using source_less_asym by blast
  show ?thesis
  proof (cases "selectRateSource (RateSources iter st)")
    case None
    then have "\<not> (\<exists>r \<in> set (RateSources iter st). rs_Enabled r)" by (auto simp: selectRateSource_def find_None_iff)
    with set show ?thesis by (auto simp: None)
  next
    case (Some r)
    from find_sorted [OF sorted Some [unfolded selectRateSource_def] irrefl]
    have r: "r \<in> set (RateSources iter st)" "rs_Enabled r"
      and best: "\<And>r'. r' \<in> set (RateSources iter st) \<Longrightarrow> rs_Enabled r' \<Longrightarrow> \<not> source_less r' r"
      by blast+
    have "rs_Priority r < rs_Priority r' \<or> rs_Priority r = rs_Priority r' \<and> \<not> str_less (rs_Name r') (rs_Name r)"
      if "\<not> source_less r' r" for r'
      using that by (simp add: source_less_def split: if_splits)
    with r best show ?thesis unfolding set Some by simp
  qed
qed

section \<open>Concrete instances\<close>

text \<open>One subscriber, two messages, then the feed is closed.\<close>

definition ex_published :: "nat list \<Rightarrow> bool \<Rightarrow> nat feed_world" where
  "ex_published ms shut =
     \<lparr>fw_feed = \<lparr>f_subs = (if shut then [] else [0]), f_closed = shut,
        f_chans = (\<lambda>_. make_chan)(0 := \<lparr>ch_buf = ms, ch_closed = shut\<rparr>), f_next = 1\<rparr>,
      fw_subs = [0 \<mapsto> new_sub\<lparr>sb_seen := ms\<rparr>]\<rparr>"

lemma ex_publish:
  assumes "length ms < 64"
  shows "feed_step (ex_published ms False) (ex_published (ms @ [m]) False)"
proof -
  have "Publish m (fw_feed (ex_published ms False)) = Some (fw_feed (ex_published (ms @ [m]) False))"
    using assms by (simp add: Publish_def try_send_def ex_published_def chan_cap_def)
  moreover have "note_publish m (fw_feed (ex_published ms False)) (fw_subs (ex_published ms False)) =
      fw_subs (ex_published (ms @ [m]) False)"
    using assms by (intro ext) (simp add: note_publish_def ex_published_def chan_cap_def new_sub_def)
  moreover have "\<lparr>fw_feed = fw_feed (ex_published (ms @ [m]) False), fw_subs = fw_subs (ex_published (ms @ [m]) False)\<rparr> =
      ex_published (ms @ [m]) False"
    by (simp add: ex_published_def)
  ultimately show ?thesis using fs_publish [of m "ex_published ms False"] by metis
qed

lemma ex_feed_reached: "feed_step\<^sup>*\<^sup>* feed_start (ex_published [5, 6] True)"
proof -
  have "feed_step feed_start (ex_published [] False)"
    using fs_subscribe [of feed_start 0] by (simp add: Subscribe_register_def feed_start_def newInProcFeed_def
      ex_published_def make_chan_def new_sub_def Let_def)
  moreover have "feed_step (ex_published [] False) (ex_published [5] False)"
    and "feed_step (ex_published [5] False) (ex_published [5, 6] False)"
    using ex_publish [of "[]" 5] ex_publish [of "[5]" 6] by simp_all
  moreover have "feed_step (ex_published [5, 6] False) (ex_published [5, 6] True)"
    using fs_close [of "ex_published [5, 6] False"] by (simp add: feed_Close_def ex_published_def)
  ultimately show ?thesis by (meson rtranclp.rtrancl_refl rtranclp.rtrancl_into_rtrancl)
qed

theorem feed_delivers_in_order_witness:
  "\<exists>sb. fw_subs (ex_published [5, 6] True) 0 = Some sb \<and> sb_dropped sb = 0 \<and>
     sb_seen sb = sb_handled sb @ ch_buf (f_chans (fw_feed (ex_published [5, 6] True)) 0)"
proof -
  have "fw_subs (ex_published [5, 6] True) 0 = Some (new_sub\<lparr>sb_seen := [5, 6]\<rparr>)"
    and "sb_dropped (new_sub\<lparr>sb_seen := [5, 6]\<rparr>) = 0"
    by (simp_all add: ex_published_def new_sub_def)
  with feed_delivers_in_order [OF ex_feed_reached] show ?thesis by metis
qed


definition ex_message :: "dec10 FeedMessage" where
  "ex_message = \<lparr>fm_Pair = ''USD-BTC'', fm_Bid = (64000, 0), fm_Ask = (64500, 0), fm_Mid = (0, 0),
     fm_SourceVenue = ''binance'', fm_TS = 0\<rparr>"

theorem feed_message_served_witness:
  "\<exists>r s' h' m'. consume_message dec10_ops (ex_clock 10) (\<lambda>xs. xs) (\<lambda>_ _. True) ex_message
       (ex_spot, newWSHub, newMetrics) = Some (s', h', m') \<and>
     fst (Get dec10_ops (ex_clock 20) None ''USD'' ''BTC'' s' m') = Inr r \<and>
     dec10_val (r_Mid r) = 64250"
proof -
  have fl: "\<lfloor>1285000000000000000001 / 2 :: rat\<rfloor> = 642500000000000000000" by (rule floor_unique) simp_all
  have v: "round_places 16 ((dec10_val (64000, 0) + dec10_val (64500, 0)) / 2) = 64250"
    "dec10_val (0, 0) = 0" "0 < dec10_val (64000, 0)" "0 < dec10_val (64500, 0)"
    by (simp_all add: dec10_val_def round_places_def round_away_def fl)
  have p: "fm_Pair ex_message = pairKey ''USD'' ''BTC''" by (simp add: ex_message_def pairKey_def)
  have prem: "CHR ''-'' \<notin> set ''USD''" "''USD'' \<noteq> []" "''BTC'' \<noteq> []" "ex_clock 20 0 - ex_clock 10 1 \<le> sp_maxStaleAge ex_spot"
    by (simp_all add: ex_clock_def ex_maxStaleAge)
  have "\<exists>r s' h' m'. consume_message dec10_ops (ex_clock 10) (\<lambda>xs. xs) (\<lambda>_ _. True) ex_message
       (ex_spot, newWSHub, newMetrics) = Some (s', h', m') \<and>
     fst (Get dec10_ops (ex_clock 20) None ''USD'' ''BTC'' s' m') = Inr r \<and>
     dec10_val (r_Mid r) = (if dec10_val (fm_Mid ex_message) \<le> 0 \<and> 0 < dec10_val (fm_Bid ex_message) \<and>
         0 < dec10_val (fm_Ask ex_message)
       then round_places 16 ((dec10_val (fm_Bid ex_message) + dec10_val (fm_Ask ex_message)) / 2)
       else dec10_val (fm_Mid ex_message))"
    using feed_message_served [OF dec10.decimal_laws_axioms ex_spot_inv(1) p prem(1-3), of
        "ex_clock 20" "ex_clock 10" "\<lambda>xs. xs" "\<lambda>_ _. True" newWSHub newMetrics] prem(4)
    by blast
  moreover have "fm_Mid ex_message = (0, 0)" "fm_Bid ex_message = (64000, 0)" "fm_Ask ex_message = (64500, 0)"
    by (simp_all add: ex_message_def)
  ultimately show ?thesis using v by (simp only: if_True simp_thms order_refl)
qed

end
