(* ===== verification/Migrations.thy ===== *)
theory Migrations
  imports Go_Json
begin

text \<open>
  \<open>internal/migrations\<close>: the embedded migrations and their runner \<open>Up\<close> and \<open>Down\<close>. The database is not
  part of the repository: it is a record of the calls the runner makes, any of which can fail, and what
  the runner relies on is the locale \<open>sql_laws\<close>.
\<close>

section \<open>The database\<close>

text \<open>The statements the runner sends; \<open>Script\<close> is the text of a migration.\<close>

datatype sql =
    CreateMigrationsTable
  | SelectVersion int
  | SelectLatest
  | Script string
  | InsertVersion int
  | DeleteVersion int

datatype scan = Scanned int | ErrNoRows | ScanError string

text \<open>An error is \<open>Some\<close> message. A transaction is part of the state between \<open>Begin\<close> and its end.\<close>

record 'db sql_db =
  sq_Exec :: "sql \<Rightarrow> 'db \<Rightarrow> string option \<times> 'db"
  sq_QueryRow :: "sql \<Rightarrow> 'db \<Rightarrow> scan \<times> 'db"
  sq_BeginTx :: "'db \<Rightarrow> string option \<times> 'db"
  sq_TxExec :: "sql \<Rightarrow> 'db \<Rightarrow> string option \<times> 'db"
  sq_Commit :: "'db \<Rightarrow> string option \<times> 'db"
  sq_Rollback :: "'db \<Rightarrow> 'db"

section \<open>The runner\<close>

record migration =
  mg_name :: string
  mg_version :: int
  mg_ddl :: string

definition upMigrations :: "string \<Rightarrow> migration list" where
  "upMigrations initUp = [\<lparr>mg_name = ''001_init.up.sql'', mg_version = 1, mg_ddl = initUp\<rparr>]"

definition downMigrations :: "string \<Rightarrow> migration list" where
  "downMigrations initDown = [\<lparr>mg_name = ''001_init.down.sql'', mg_version = 1, mg_ddl = initDown\<rparr>]"

definition show_version :: "int \<Rightarrow> string" where "show_version v = show_int v"

text \<open>One transaction: a script, then the change of the record of versions; an error rolls back.\<close>

definition run_tx :: "'db sql_db \<Rightarrow> sql \<Rightarrow> sql \<Rightarrow> (string \<times> string \<times> string \<times> string) \<Rightarrow> 'db \<Rightarrow> string option \<times> 'db" where
  "run_tx Q script mark msgs db =
     (case msgs of (begin_msg, script_msg, mark_msg, commit_msg) \<Rightarrow>
      case sq_BeginTx Q db of
        (Some e, db1) \<Rightarrow> (Some (begin_msg @ e), db1)
      | (None, db1) \<Rightarrow>
          (case sq_TxExec Q script db1 of
             (Some e, db2) \<Rightarrow> (Some (script_msg @ e), sq_Rollback Q db2)
           | (None, db2) \<Rightarrow>
               (case sq_TxExec Q mark db2 of
                  (Some e, db3) \<Rightarrow> (Some (mark_msg @ e), sq_Rollback Q db3)
                | (None, db3) \<Rightarrow>
                    (case sq_Commit Q db3 of
                       (Some e, db4) \<Rightarrow> (Some (commit_msg @ e), db4)
                     | (None, db4) \<Rightarrow> (None, db4)))))"

definition up_messages :: "migration \<Rightarrow> string \<times> string \<times> string \<times> string" where
  "up_messages m =
     (let v = show_version (mg_version m) in
      (''begin tx for migration '' @ v @ '': '', ''apply '' @ mg_name m @ '': '',
       ''record migration '' @ v @ '': '', ''commit migration '' @ v @ '': ''))"

fun Up_loop :: "'db sql_db \<Rightarrow> migration list \<Rightarrow> 'db \<Rightarrow> string option \<times> 'db" where
  "Up_loop Q [] db = (None, db)"
| "Up_loop Q (m # ms) db =
     (case sq_QueryRow Q (SelectVersion (mg_version m)) db of
        (Scanned ok, db1) \<Rightarrow> Up_loop Q ms db1
      | (ScanError e, db1) \<Rightarrow> (Some (''check migration '' @ show_version (mg_version m) @ '': '' @ e), db1)
      | (ErrNoRows, db1) \<Rightarrow>
          (case run_tx Q (Script (mg_ddl m)) (InsertVersion (mg_version m)) (up_messages m) db1 of
             (Some e, db2) \<Rightarrow> (Some e, db2)
           | (None, db2) \<Rightarrow> Up_loop Q ms db2))"

definition Up :: "'db sql_db \<Rightarrow> string \<Rightarrow> 'db \<Rightarrow> string option \<times> 'db" where
  "Up Q initUp db =
     (case sq_Exec Q CreateMigrationsTable db of
        (Some e, db1) \<Rightarrow> (Some (''ensure schema_migrations: '' @ e), db1)
      | (None, db1) \<Rightarrow> Up_loop Q (upMigrations initUp) db1)"

definition down_messages :: "int \<Rightarrow> string \<times> string \<times> string \<times> string" where
  "down_messages version =
     (let v = show_version version in
      (''begin tx for migration '' @ v @ '' down: '', ''revert migration '' @ v @ '' down: '',
       ''delete migration '' @ v @ '' record: '', ''commit migration '' @ v @ '' down: ''))"

definition down_script :: "int \<Rightarrow> migration list \<Rightarrow> string" where
  "down_script version ms = (case find (\<lambda>m. mg_version m = version) ms of Some m \<Rightarrow> mg_ddl m | None \<Rightarrow> [])"

definition Down :: "'db sql_db \<Rightarrow> string \<Rightarrow> 'db \<Rightarrow> string option \<times> 'db" where
  "Down Q initDown db =
     (case sq_Exec Q CreateMigrationsTable db of
        (Some e, db1) \<Rightarrow> (Some (''ensure schema_migrations: '' @ e), db1)
      | (None, db1) \<Rightarrow>
          (case sq_QueryRow Q SelectLatest db1 of
             (ErrNoRows, db2) \<Rightarrow> (None, db2)
           | (ScanError e, db2) \<Rightarrow> (Some (''find latest migration: '' @ e), db2)
           | (Scanned version, db2) \<Rightarrow>
               (let down = down_script version (downMigrations initDown) in
                if down = [] then (Some (''no down script for migration '' @ show_version version), db2)
                else run_tx Q (Script down) (DeleteVersion version) (down_messages version) db2)))"

section \<open>What the runner relies on\<close>

text \<open>
  The committed schema, the recorded versions (\<open>None\<close> without the table) and the same two inside the
  transaction. Statements of a transaction are seen only by it until it commits; a failed statement or
  commit leaves the committed state as it was.
\<close>

fun apply_pending :: "(string \<Rightarrow> 's \<Rightarrow> 's option) \<Rightarrow> int set \<Rightarrow> migration list \<Rightarrow> 's \<Rightarrow> 's option" where
  "apply_pending ddl V [] s = Some s"
| "apply_pending ddl V (m # ms) s =
     (if mg_version m \<in> V then apply_pending ddl V ms s
      else case ddl (mg_ddl m) s of None \<Rightarrow> None | Some s' \<Rightarrow> apply_pending ddl (insert (mg_version m) V) ms s')"

locale sql_laws =
  fixes Q :: "'db sql_db"
    and schema :: "'db \<Rightarrow> 's" and versions :: "'db \<Rightarrow> int set option"
    and txs :: "'db \<Rightarrow> 's" and txv :: "'db \<Rightarrow> int set option"
    and apply_ddl :: "string \<Rightarrow> 's \<Rightarrow> 's option"
  assumes create: "sq_Exec Q CreateMigrationsTable db = (r, db') \<Longrightarrow> schema db' = schema db \<and>
      versions db' = (if r = None then Some (case versions db of None \<Rightarrow> {} | Some V \<Rightarrow> V) else versions db)"
    and select_version: "sq_QueryRow Q (SelectVersion v) db = (x, db') \<Longrightarrow> schema db' = schema db \<and>
      versions db' = versions db \<and>
      (\<forall>V. versions db = Some V \<longrightarrow> (case x of Scanned n \<Rightarrow> v \<in> V | ErrNoRows \<Rightarrow> v \<notin> V | ScanError e \<Rightarrow> True))"
    and select_latest: "sq_QueryRow Q SelectLatest db = (x, db') \<Longrightarrow> schema db' = schema db \<and>
      versions db' = versions db \<and>
      (\<forall>V. versions db = Some V \<longrightarrow>
        (case x of Scanned n \<Rightarrow> n \<in> V \<and> (\<forall>v \<in> V. v \<le> n) | ErrNoRows \<Rightarrow> V = {} | ScanError e \<Rightarrow> True))"
    and begin_tx: "sq_BeginTx Q db = (r, db') \<Longrightarrow> schema db' = schema db \<and> versions db' = versions db \<and>
      (r = None \<longrightarrow> txs db' = schema db \<and> txv db' = versions db)"
    and tx_isolated: "sq_TxExec Q st db = (r, db') \<Longrightarrow> schema db' = schema db \<and> versions db' = versions db"
    and tx_script: "sq_TxExec Q (Script s) db = (None, db') \<Longrightarrow>
      apply_ddl s (txs db) = Some (txs db') \<and> txv db' = txv db"
    and tx_insert: "sq_TxExec Q (InsertVersion v) db = (None, db') \<Longrightarrow>
      txs db' = txs db \<and> txv db' = map_option (insert v) (txv db)"
    and tx_delete: "sq_TxExec Q (DeleteVersion v) db = (None, db') \<Longrightarrow>
      txs db' = txs db \<and> txv db' = map_option (\<lambda>V. V - {v}) (txv db)"
    and commit: "sq_Commit Q db = (r, db') \<Longrightarrow>
      (if r = None then schema db' = txs db \<and> versions db' = txv db
       else schema db' = schema db \<and> versions db' = versions db)"
    and rollback: "schema (sq_Rollback Q db) = schema db \<and> versions (sq_Rollback Q db) = versions db"
begin

lemma run_tx_atomic:
  assumes "run_tx Q (Script s) mark msgs db = (r, db')"
    and "\<And>d d'. sq_TxExec Q mark d = (None, d') \<Longrightarrow> txs d' = txs d \<and> txv d' = map_option f (txv d)"
  shows "if r = None then apply_ddl s (schema db) = Some (schema db') \<and> versions db' = map_option f (versions db)
    else schema db' = schema db \<and> versions db' = versions db"
proof -
  obtain m1 m2 m3 m4 where msgs: "msgs = (m1, m2, m3, m4)" by (cases msgs)
  obtain r1 d1 where b: "sq_BeginTx Q db = (r1, d1)" by fastforce
  obtain r2 d2 where x: "sq_TxExec Q (Script s) d1 = (r2, d2)" by fastforce
  obtain r3 d3 where y: "sq_TxExec Q mark d2 = (r3, d3)" by fastforce
  obtain r4 d4 where c: "sq_Commit Q d3 = (r4, d4)" by fastforce
  have eq: "run_tx Q (Script s) mark msgs db =
      (case r1 of Some e \<Rightarrow> (Some (m1 @ e), d1)
       | None \<Rightarrow> case r2 of Some e \<Rightarrow> (Some (m2 @ e), sq_Rollback Q d2)
       | None \<Rightarrow> case r3 of Some e \<Rightarrow> (Some (m3 @ e), sq_Rollback Q d3)
       | None \<Rightarrow> case r4 of Some e \<Rightarrow> (Some (m4 @ e), d4) | None \<Rightarrow> (None, d4))"
    by (simp add: run_tx_def msgs b x y c split: option.split)
  note iso = begin_tx [OF b] tx_isolated [OF x] tx_isolated [OF y] commit [OF c] rollback
  show ?thesis
  proof (cases "r1 = None \<and> r2 = None \<and> r3 = None \<and> r4 = None")
    case True
    with x y have "apply_ddl s (txs d1) = Some (txs d2) \<and> txv d2 = txv d1" "txs d3 = txs d2 \<and> txv d3 = map_option f (txv d2)"
      using tx_script [of s d1 d2] assms(2) [of d2 d3] by simp_all
    with True eq assms(1) iso show ?thesis by auto
  next
    case False
    with eq assms(1) iso show ?thesis by (auto split: option.splits)
  qed
qed

lemma Up_loop_prefix:
  assumes "versions db = Some V" and "Up_loop Q ms db = (r, db')"
  shows "\<exists>k \<le> length ms. versions db' = Some (V \<union> mg_version ` set (take k ms)) \<and>
    apply_pending apply_ddl V (take k ms) (schema db) = Some (schema db') \<and> (r = None \<longleftrightarrow> k = length ms)"
  using assms
proof (induction ms arbitrary: db V)
  case (Cons m ms)
  obtain x db1 where q: "sq_QueryRow Q (SelectVersion (mg_version m)) db = (x, db1)" by fastforce
  note sel = select_version [OF q]
  show ?case
  proof (cases x)
    case (Scanned n)
    with sel Cons.prems(1) have V: "mg_version m \<in> V" "versions db1 = Some V" "schema db1 = schema db" by auto
    have "Up_loop Q ms db1 = (r, db')" using Cons.prems(2) q Scanned by simp
    from Cons.IH [OF V(2) this] obtain k where "k \<le> length ms" "versions db' = Some (V \<union> mg_version ` set (take k ms))"
      "apply_pending apply_ddl V (take k ms) (schema db1) = Some (schema db')" "r = None \<longleftrightarrow> k = length ms"
      by blast
    with V show ?thesis by (intro exI [of _ "Suc k"]) (auto simp: insert_absorb)
  next
    case (ScanError e)
    with Cons.prems q sel show ?thesis by (intro exI [of _ 0]) auto
  next
    case ErrNoRows
    with sel Cons.prems(1) have V: "mg_version m \<notin> V" "versions db1 = Some V" "schema db1 = schema db" by auto
    obtain r2 db2 where t: "run_tx Q (Script (mg_ddl m)) (InsertVersion (mg_version m)) (up_messages m) db1 = (r2, db2)"
      by fastforce
    note atomic = run_tx_atomic [OF t tx_insert]
    show ?thesis
    proof (cases r2)
      case None
      with atomic V have a: "apply_ddl (mg_ddl m) (schema db) = Some (schema db2)"
        "versions db2 = Some (insert (mg_version m) V)" by simp_all
      have "Up_loop Q ms db2 = (r, db')" using Cons.prems(2) q ErrNoRows t None by simp
      from Cons.IH [OF a(2) this] obtain k where "k \<le> length ms"
        "versions db' = Some (insert (mg_version m) V \<union> mg_version ` set (take k ms))"
        "apply_pending apply_ddl (insert (mg_version m) V) (take k ms) (schema db2) = Some (schema db')" "r = None \<longleftrightarrow> k = length ms"
        by blast
      with V a show ?thesis by (intro exI [of _ "Suc k"]) auto
    next
      case (Some e)
      with Cons.prems q ErrNoRows t atomic V show ?thesis by (intro exI [of _ 0]) auto
    qed
  qed
qed auto

lemma Up_result:
  assumes "Up Q initUp db = (r, db')"
  defines "V \<equiv> (case versions db of None \<Rightarrow> {} | Some V \<Rightarrow> V)"
  shows "if r = None
    then versions db' = Some (insert 1 V) \<and>
      (if 1 \<in> V then schema db' = schema db else apply_ddl initUp (schema db) = Some (schema db'))
    else schema db' = schema db \<and> (versions db' = versions db \<or> versions db' = Some V)"
proof -
  obtain r1 db1 where c: "sq_Exec Q CreateMigrationsTable db = (r1, db1)" by fastforce
  note cr = create [OF c]
  show ?thesis
  proof (cases r1)
    case (Some e)
    with assms(1) c cr show ?thesis by (auto simp: Up_def)
  next
    case None
    with cr have db1: "schema db1 = schema db" "versions db1 = Some V" by (simp_all add: V_def)
    have "Up_loop Q (upMigrations initUp) db1 = (r, db')" using assms(1) c None by (simp add: Up_def)
    from Up_loop_prefix [OF db1(2) this] obtain k where k: "k \<le> 1" "r = None \<longleftrightarrow> k = 1"
      "versions db' = Some (V \<union> mg_version ` set (take k (upMigrations initUp)))"
      "apply_pending apply_ddl V (take k (upMigrations initUp)) (schema db) = Some (schema db')"
      by (auto simp: upMigrations_def db1)
    consider "k = 0" | "k = 1" using k(1) by linarith
    then show ?thesis
      using k by cases (auto simp: upMigrations_def split: option.splits if_splits)
  qed
qed

lemma Down_result:
  assumes "Down Q initDown db = (r, db')"
  defines "V \<equiv> (case versions db of None \<Rightarrow> {} | Some V \<Rightarrow> V)"
  shows "if r = None
    then V = {} \<and> schema db' = schema db \<and> versions db' = Some {} \<or>
      1 \<in> V \<and> (\<forall>v \<in> V. v \<le> 1) \<and> apply_ddl initDown (schema db) = Some (schema db') \<and> versions db' = Some (V - {1})
    else schema db' = schema db \<and> (versions db' = versions db \<or> versions db' = Some V)"
proof -
  obtain r1 db1 where c: "sq_Exec Q CreateMigrationsTable db = (r1, db1)" by fastforce
  note cr = create [OF c]
  show ?thesis
  proof (cases r1)
    case (Some e)
    with assms(1) c cr show ?thesis by (auto simp: Down_def)
  next
    case None
    with cr have db1: "schema db1 = schema db" "versions db1 = Some V" by (simp_all add: V_def)
    obtain x db2 where q: "sq_QueryRow Q SelectLatest db1 = (x, db2)" by fastforce
    have sel: "schema db2 = schema db" "versions db2 = Some V"
      and scan: "case x of Scanned n \<Rightarrow> n \<in> V \<and> (\<forall>v \<in> V. v \<le> n) | ErrNoRows \<Rightarrow> V = {} | ScanError e \<Rightarrow> True"
      using select_latest [OF q] db1 by simp_all
    show ?thesis
    proof (cases x)
      case (Scanned n)
      show ?thesis
      proof (cases "n = 1 \<and> initDown \<noteq> []")
        case True
        with assms(1) c None q Scanned
        have "run_tx Q (Script initDown) (DeleteVersion 1) (down_messages 1) db2 = (r, db')"
          by (simp add: Down_def down_script_def downMigrations_def)
        from run_tx_atomic [OF this tx_delete [of 1]] sel True scan Scanned show ?thesis by (auto split: if_splits)
      next
        case False
        then have "down_script n (downMigrations initDown) = []"
          by (auto simp: down_script_def downMigrations_def)
        with assms(1) c None q Scanned sel show ?thesis by (auto simp: Down_def)
      qed
    qed (use assms(1) c None q sel scan in \<open>auto simp: Down_def\<close>)
  qed
qed

end

section \<open>Properties\<close>


text \<open> Rolling back reverts the latest version: without an error either nothing was recorded and nothing
  changes, or version 1 was the latest, its down script has been applied and its record removed; with
  an error neither schema nor versions have changed. A rollback after an upgrade of a fresh database
  leaves no version behind.
\<close>

lemma Down_reverts_latest:
  assumes laws: "sql_laws Q schema versions txs txv apply_ddl" and down: "Down Q initDown db = (r, db')"
  defines "V \<equiv> (case versions db of None \<Rightarrow> {} | Some V \<Rightarrow> V)"
  shows "(if r = None
      then V = {} \<and> schema db' = schema db \<and> versions db' = Some {} \<or>
        1 \<in> V \<and> (\<forall>v \<in> V. v \<le> 1) \<and> apply_ddl initDown (schema db) = Some (schema db') \<and> versions db' = Some (V - {1})
      else schema db' = schema db \<and> (versions db' = versions db \<or> versions db' = Some V)) \<and>
    (\<forall>db0. Up Q initUp db0 = (None, db) \<and> r = None \<and> (versions db0 = None \<or> versions db0 = Some {}) \<longrightarrow>
      versions db' = Some {})"
proof -
  note res = sql_laws.Down_result [OF laws down, folded V_def]
  have "versions db' = Some {}"
    if u: "Up Q initUp db0 = (None, db)" and r: "r = None" and v: "versions db0 = None \<or> versions db0 = Some {}" for db0
  proof -
    have "versions db = Some {1}" using sql_laws.Up_result [OF laws u] v by auto
    then have "V = {1}" by (simp add: V_def)
    with res r show ?thesis by auto
  qed
  with res show ?thesis by blast
qed

section \<open>A concrete database\<close>

text \<open>
  The schema is the list of the scripts that were run; a list of outcomes says which calls fail. Each
  call looks at the next outcome.
\<close>

record list_db =
  ld_schema :: "string list"
  ld_versions :: "int set option"
  ld_txs :: "string list"
  ld_txv :: "int set option"
  ld_net :: "bool list"

definition ld_call :: "(list_db \<Rightarrow> list_db) \<Rightarrow> list_db \<Rightarrow> string option \<times> list_db" where
  "ld_call f db =
     (let db' = db\<lparr>ld_net := tl (ld_net db)\<rparr> in
      if ld_net db \<noteq> [] \<and> \<not> hd (ld_net db) then (Some ''connection reset'', db') else (None, f db'))"

definition ld_tx :: "sql \<Rightarrow> list_db \<Rightarrow> list_db" where
  "ld_tx st db =
     (case st of
        Script s \<Rightarrow> db\<lparr>ld_txs := ld_txs db @ [s]\<rparr>
      | InsertVersion v \<Rightarrow> db\<lparr>ld_txv := map_option (insert v) (ld_txv db)\<rparr>
      | DeleteVersion v \<Rightarrow> db\<lparr>ld_txv := map_option (\<lambda>V. V - {v}) (ld_txv db)\<rparr>
      | _ \<Rightarrow> db)"

definition ld_scan :: "sql \<Rightarrow> list_db \<Rightarrow> scan" where
  "ld_scan st db =
     (case ld_versions db of
        None \<Rightarrow> ScanError ''no such table''
      | Some V \<Rightarrow>
          (case st of
             SelectVersion v \<Rightarrow> if v \<in> V then Scanned 1 else ErrNoRows
           | _ \<Rightarrow> if V = {} then ErrNoRows else if finite V then Scanned (Max V) else ScanError ''too many rows''))"

definition list_sql :: "list_db sql_db" where
  "list_sql =
     \<lparr>sq_Exec = \<lambda>st. ld_call (\<lambda>db. db\<lparr>ld_versions := Some (case ld_versions db of None \<Rightarrow> {} | Some V \<Rightarrow> V)\<rparr>),
      sq_QueryRow = \<lambda>st db. (case ld_call (\<lambda>db. db) db of
        (Some e, db') \<Rightarrow> (ScanError e, db') | (None, db') \<Rightarrow> (ld_scan st db', db')),
      sq_BeginTx = ld_call (\<lambda>db. db\<lparr>ld_txs := ld_schema db, ld_txv := ld_versions db\<rparr>),
      sq_TxExec = \<lambda>st. ld_call (ld_tx st),
      sq_Commit = ld_call (\<lambda>db. db\<lparr>ld_schema := ld_txs db, ld_versions := ld_txv db\<rparr>),
      sq_Rollback = \<lambda>db. db\<rparr>"

definition list_ddl :: "string \<Rightarrow> string list \<Rightarrow> string list option" where
  "list_ddl s xs = Some (xs @ [s])"

interpretation list_sql: sql_laws list_sql ld_schema ld_versions ld_txs ld_txv list_ddl
  by unfold_locales
    (auto simp: list_sql_def ld_call_def ld_tx_def ld_scan_def list_ddl_def Let_def
      split: if_splits option.splits sql.splits dest: Max_in)

section \<open>Concrete instances\<close>

definition ex_db :: "bool list \<Rightarrow> list_db" where
  "ex_db net = \<lparr>ld_schema = [], ld_versions = None, ld_txs = [], ld_txv = None, ld_net = net\<rparr>"

definition ex_migrated :: list_db where
  "ex_migrated = \<lparr>ld_schema = [''up''], ld_versions = Some {1}, ld_txs = [''up''], ld_txv = Some {1}, ld_net = []\<rparr>"

text \<open>An upgrade whose commit fails, and one that succeeds.\<close>

lemma ex_up:
  "Up list_sql ''up'' (ex_db [True, True, True, True, True, False]) =
     (Some (''commit migration 1: connection reset''), (ex_db [])\<lparr>ld_versions := Some {}, ld_txs := [''up''], ld_txv := Some {1}\<rparr>)"
  "Up list_sql ''up'' (ex_db []) = (None, ex_migrated)"
proof -
  have "show_version 1 = ''1''" by code_simp
  then show "Up list_sql ''up'' (ex_db [True, True, True, True, True, False]) =
     (Some (''commit migration 1: connection reset''), (ex_db [])\<lparr>ld_versions := Some {}, ld_txs := [''up''], ld_txv := Some {1}\<rparr>)"
    by (simp add: Up_def list_sql_def ld_call_def ex_db_def upMigrations_def ld_scan_def run_tx_def up_messages_def ld_tx_def)
  show "Up list_sql ''up'' (ex_db []) = (None, ex_migrated)"
    by (simp add: Up_def list_sql_def ld_call_def ex_db_def ex_migrated_def upMigrations_def ld_scan_def run_tx_def
        up_messages_def ld_tx_def)
qed



end
