(* ===== verification/Lock_Store.thy ===== *)
theory Lock_Store
  imports Go_Prelude
begin

text \<open>
  The locked-quote store of \<open>internal/store.go\<close>: the interface \<open>LockBackend\<close> as a record of
  operations with its contract as a locale, and the in-memory \<open>LockStore\<close> with its expiry timers,
  on which the locale is interpreted.
\<close>

section \<open>The interface\<close>

text \<open>
  An operation takes the clock it reads, its arguments and the backend's state. \<open>SetNX\<close> reads the
  clock for the presence test (\<open>ck 0\<close>), the deadline (\<open>ck 1\<close>) and the timer (\<open>ck 2\<close>); \<open>Get\<close> and
  \<open>Claim\<close> read it once. A pair \<open>(value, true)\<close> of the source is \<open>Some\<close>, \<open>("", false)\<close> is \<open>None\<close>.
\<close>

record 'l LockBackend =
  lb_SetNX :: "clock \<Rightarrow> string \<Rightarrow> string \<Rightarrow> duration \<Rightarrow> 'l \<Rightarrow> bool \<times> 'l"
  lb_Get :: "clock \<Rightarrow> string \<Rightarrow> 'l \<Rightarrow> string option \<times> 'l"
  lb_Del :: "string \<Rightarrow> 'l \<Rightarrow> bool \<times> 'l"
  lb_Claim :: "clock \<Rightarrow> string \<Rightarrow> 'l \<Rightarrow> string option \<times> 'l"
  lb_Ready :: "'l \<Rightarrow> bool"

text \<open>
  A history of a backend: operations of clients and background steps (expiry) in the order in which
  the backend serialises them, each with the instants it reads. The third argument of a step is the
  key and value that a claim of it handed out.
\<close>

datatype lock_event =
    EvSetNX clock string string duration
  | EvGet clock string
  | EvDel string
  | EvClaim clock string
  | EvTick time

inductive lock_step ::
    "'l LockBackend \<Rightarrow> (time \<Rightarrow> 'l \<Rightarrow> 'l \<Rightarrow> bool) \<Rightarrow> lock_event \<Rightarrow> 'l \<Rightarrow>
     (string \<times> string) option \<Rightarrow> 'l \<Rightarrow> bool"
  for B tick where
  ls_SetNX: "lock_step B tick (EvSetNX ck k v ttl) l None (snd (lb_SetNX B ck k v ttl l))"
| ls_Get: "lock_step B tick (EvGet ck k) l None (snd (lb_Get B ck k l))"
| ls_Del: "lock_step B tick (EvDel k) l None (snd (lb_Del B k l))"
| ls_Claim: "lock_step B tick (EvClaim ck k) l
    (map_option (Pair k) (fst (lb_Claim B ck k l))) (snd (lb_Claim B ck k l))"
| ls_Tick: "tick now l l' \<Longrightarrow> lock_step B tick (EvTick now) l None l'"

inductive lock_run ::
    "'l LockBackend \<Rightarrow> (time \<Rightarrow> 'l \<Rightarrow> 'l \<Rightarrow> bool) \<Rightarrow> 'l \<Rightarrow> lock_event list \<Rightarrow>
     (string \<times> string) list \<Rightarrow> 'l \<Rightarrow> bool"
  for B tick where
  lr_Nil: "lock_run B tick l [] [] l"
| lr_Cons: "lock_step B tick e l r l' \<Longrightarrow> lock_run B tick l' es rs l'' \<Longrightarrow>
    lock_run B tick l (e # es) ((case r of None \<Rightarrow> [] | Some x \<Rightarrow> [x]) @ rs) l''"

inductive_cases lock_step_handoutE: "lock_step B tick e l (Some (k, v)) l'"

lemma lock_step_handout:
  assumes "lock_step B tick e l (Some (k, v)) l'"
  obtains ck where "e = EvClaim ck k" and "fst (lb_Claim B ck k l) = Some v"
    and "l' = snd (lb_Claim B ck k l)"
  using assms by (elim lock_step_handoutE) (metis map_option_eq_Some prod.inject)

fun sets_key :: "string \<Rightarrow> lock_event \<Rightarrow> bool" where
  "sets_key k (EvSetNX ck k' v ttl) = (k' = k)"
| "sets_key k _ = False"

fun removes_key :: "string \<Rightarrow> lock_event \<Rightarrow> bool" where
  "removes_key k (EvDel k') = (k' = k)"
| "removes_key k (EvClaim ck k') = (k' = k)"
| "removes_key k _ = False"

text \<open>The instants a history reads never decrease: \<open>None\<close> if one does, else the last of them.\<close>

fun ev_clock :: "lock_event \<Rightarrow> time \<Rightarrow> time option" where
  "ev_clock (EvSetNX ck k v ttl) t = (if mono ck \<and> t \<le> ck 0 then Some (ck 2) else None)"
| "ev_clock (EvGet ck k) t = (if t \<le> ck 0 then Some (ck 0) else None)"
| "ev_clock (EvDel k) t = Some t"
| "ev_clock (EvClaim ck k) t = (if t \<le> ck 0 then Some (ck 0) else None)"
| "ev_clock (EvTick now) t = (if t \<le> now then Some now else None)"

fun history_clock :: "lock_event list \<Rightarrow> time \<Rightarrow> time option" where
  "history_clock [] t = Some t"
| "history_clock (e # es) t = (case ev_clock e t of None \<Rightarrow> None | Some t' \<Rightarrow> history_clock es t')"

lemma history_clock_ConsE:
  assumes "history_clock (e # es) t \<noteq> None"
  obtains t' where "ev_clock e t = Some t'" and "history_clock es t' \<noteq> None"
  using assms by (auto split: option.splits)

section \<open>The contract\<close>

text \<open>
  The contract comes in three parts. \<open>lock_states\<close>: the operations keep an invariant of the backend's
  state (\<open>tick now l l'\<close> is a background step at \<open>now\<close>). \<open>claim_once\<close>: \<open>view l t k\<close> is the value the
  key \<open>k\<close> holds at the instant \<open>t\<close>, and a key without a value gets one only by \<open>SetNX\<close>; a backend
  whose calls can fail on the way still gives this much. \<open>lock_backend\<close>: the operations do what their
  names say at every call.
\<close>

locale lock_states =
  fixes B :: "'l LockBackend"
    and tick :: "time \<Rightarrow> 'l \<Rightarrow> 'l \<Rightarrow> bool"
    and invar :: "'l \<Rightarrow> bool"
  assumes invar_SetNX: "invar l \<Longrightarrow> mono ck \<Longrightarrow> invar (snd (lb_SetNX B ck k v ttl l))"
    and invar_Get: "invar l \<Longrightarrow> invar (snd (lb_Get B ck k l))"
    and invar_Del: "invar l \<Longrightarrow> invar (snd (lb_Del B k l))"
    and invar_Claim: "invar l \<Longrightarrow> invar (snd (lb_Claim B ck k l))"
    and invar_tick: "invar l \<Longrightarrow> tick now l l' \<Longrightarrow> invar l'"
begin

lemma step_invar: "lock_step B tick e l r l' \<Longrightarrow> ev_clock e t0 = Some t1 \<Longrightarrow> invar l \<Longrightarrow> invar l'"
  by (induction rule: lock_step.induct)
    (auto intro: invar_SetNX invar_Get invar_Del invar_Claim invar_tick split: if_splits)

end

locale claim_once = lock_states B tick invar
  for B :: "'l LockBackend"
    and tick :: "time \<Rightarrow> 'l \<Rightarrow> 'l \<Rightarrow> bool"
    and view :: "'l \<Rightarrow> time \<Rightarrow> string \<Rightarrow> string option"
    and invar :: "'l \<Rightarrow> bool" +
  assumes absent_SetNX: "invar l \<Longrightarrow> view l t k' = None \<Longrightarrow> k' \<noteq> k \<Longrightarrow>
      view (snd (lb_SetNX B ck k v ttl l)) t k' = None"
    and absent_Get: "invar l \<Longrightarrow> view l t k' = None \<Longrightarrow> ck 0 \<le> t \<Longrightarrow>
      view (snd (lb_Get B ck k l)) t k' = None"
    and absent_Del: "invar l \<Longrightarrow> view l t k' = None \<Longrightarrow> view (snd (lb_Del B k l)) t k' = None"
    and absent_Claim: "invar l \<Longrightarrow> view l t k' = None \<Longrightarrow> ck 0 \<le> t \<Longrightarrow>
      view (snd (lb_Claim B ck k l)) t k' = None"
    and absent_tick: "invar l \<Longrightarrow> view l t k' = None \<Longrightarrow> tick now l l' \<Longrightarrow> now \<le> t \<Longrightarrow> view l' t k' = None"
    and claim_held: "invar l \<Longrightarrow> fst (lb_Claim B ck k l) = Some v \<Longrightarrow> view l (ck 0) k = Some v"
    and claim_takes: "invar l \<Longrightarrow> fst (lb_Claim B ck k l) = Some v \<Longrightarrow> ck 0 \<le> t \<Longrightarrow>
      view (snd (lb_Claim B ck k l)) t k = None"
begin

text \<open>A key absent from \<open>t0\<close> on stays so until it is set again, and no claim of it succeeds.\<close>

definition absent_from :: "'l \<Rightarrow> time \<Rightarrow> string \<Rightarrow> bool" where
  "absent_from l t0 k \<longleftrightarrow> (\<forall>t \<ge> t0. view l t k = None)"

lemma step_absent:
  assumes "lock_step B tick e l r l'" and "invar l" and "absent_from l t0 k" and "\<not> sets_key k e"
    and "ev_clock e t0 = Some t1"
  shows "absent_from l' t1 k \<and> (\<forall>v. r \<noteq> Some (k, v))"
  using assms(1)
proof (cases rule: lock_step.cases)
  case (ls_SetNX ck k' v ttl)
  with assms(5) have "t0 \<le> t1"
    by (auto simp: mono_def split: if_splits intro: order_trans)
  with assms(2-4) ls_SetNX show ?thesis by (auto simp: absent_from_def absent_SetNX)
next
  case (ls_Get ck k')
  with assms(2,3,5) show ?thesis by (auto simp: absent_from_def absent_Get split: if_splits)
next
  case (ls_Del k')
  with assms(2,3,5) show ?thesis by (auto simp: absent_from_def absent_Del)
next
  case (ls_Claim ck k')
  with assms(2,3,5) show ?thesis
    by (auto simp: absent_from_def absent_Claim split: if_splits dest: claim_held)
next
  case (ls_Tick now)
  with assms(2,3,5) show ?thesis
    by (auto simp: absent_from_def absent_tick split: if_splits)
qed

lemma run_absent_no_claim:
  assumes "lock_run B tick l es rs l'" and "invar l" and "absent_from l t0 k"
    and "\<forall>e \<in> set es. \<not> sets_key k e" and "history_clock es t0 \<noteq> None"
  shows "\<forall>v. (k, v) \<notin> set rs"
  using assms
proof (induction arbitrary: t0 rule: lock_run.induct)
  case (lr_Cons e l r l' es rs l'')
  from lr_Cons.prems(4) obtain t1
    where t1: "ev_clock e t0 = Some t1" and h: "history_clock es t1 \<noteq> None"
    by (rule history_clock_ConsE)
  have "absent_from l' t1 k" and r: "\<forall>v. r \<noteq> Some (k, v)"
    using step_absent [OF lr_Cons.hyps(1) lr_Cons.prems(1,2) _ t1] lr_Cons.prems(3) by auto
  then have "\<forall>v. (k, v) \<notin> set rs"
    using lr_Cons.IH [OF step_invar [OF lr_Cons.hyps(1) t1 lr_Cons.prems(1)]] lr_Cons.prems(3) h
    by auto
  with r show ?case by (auto split: option.splits)
qed simp

text \<open>
  A key that is not set again is handed out at most once, whatever else happens to the backend.
\<close>

lemma run_claim_once:
  assumes "lock_run B tick l es rs l'" and "invar l" and "\<forall>e \<in> set es. \<not> sets_key k e"
    and "history_clock es t0 \<noteq> None"
  shows "length (filter (\<lambda>p. fst p = k) rs) \<le> 1"
  using assms
proof (induction arbitrary: t0 rule: lock_run.induct)
  case (lr_Cons e l r l' es rs l'')
  from lr_Cons.prems(3) obtain t1
    where t1: "ev_clock e t0 = Some t1" and h: "history_clock es t1 \<noteq> None"
    by (rule history_clock_ConsE)
  have inv': "invar l'" using lr_Cons.hyps(1) t1 lr_Cons.prems(1) by (rule step_invar)
  show ?case
  proof (cases "\<exists>v. r = Some (k, v)")
    case True
    then obtain v where r: "r = Some (k, v)" by blast
    with lr_Cons.hyps(1) obtain ck where "e = EvClaim ck k" and "l' = snd (lb_Claim B ck k l)"
      and "fst (lb_Claim B ck k l) = Some v"
      by (auto elim: lock_step_handout)
    with t1 have "absent_from l' t1 k"
      using lr_Cons.prems(1) by (simp add: absent_from_def claim_takes split: if_splits)
    then have "\<forall>v. (k, v) \<notin> set rs"
      using run_absent_no_claim [OF lr_Cons.hyps(2) inv'] lr_Cons.prems(2) h by auto
    then have "filter (\<lambda>p. fst p = k) rs = []" by (auto simp: filter_empty_conv)
    with r show ?thesis by simp
  next
    case False
    then have "filter (\<lambda>p. fst p = k) (case r of None \<Rightarrow> [] | Some x \<Rightarrow> [x]) = []"
      by (auto split: option.splits)
    then show ?thesis
      using lr_Cons.IH [OF inv' _ h] lr_Cons.prems(2) by simp
  qed
qed simp

end

locale lock_backend = lock_states B tick invar
  for B :: "'l LockBackend"
    and tick :: "time \<Rightarrow> 'l \<Rightarrow> 'l \<Rightarrow> bool"
    and view :: "'l \<Rightarrow> time \<Rightarrow> string \<Rightarrow> string option"
    and invar :: "'l \<Rightarrow> bool" +
  assumes view_expires: "view l t k = Some v \<Longrightarrow> t' \<le> t \<Longrightarrow> view l t' k = Some v"
    and SetNX_sets: "invar l \<Longrightarrow> fst (lb_SetNX B ck k v ttl l) \<longleftrightarrow> view l (ck 0) k = None"
    and SetNX_view: "invar l \<Longrightarrow> fst (lb_SetNX B ck k v ttl l) \<Longrightarrow>
      view (snd (lb_SetNX B ck k v ttl l)) t k' =
        (if k' = k then (if t < ck 1 + ttl then Some v else None) else view l t k')"
    and SetNX_keeps: "invar l \<Longrightarrow> \<not> fst (lb_SetNX B ck k v ttl l) \<Longrightarrow> snd (lb_SetNX B ck k v ttl l) = l"
    and Get_value: "invar l \<Longrightarrow> fst (lb_Get B ck k l) = view l (ck 0) k"
    and Get_view: "invar l \<Longrightarrow> ck 0 \<le> t \<Longrightarrow> view (snd (lb_Get B ck k l)) t k' = view l t k'"
    and Del_view: "invar l \<Longrightarrow>
      view (snd (lb_Del B k l)) t k' = (if k' = k then None else view l t k')"
    and Claim_value: "invar l \<Longrightarrow> fst (lb_Claim B ck k l) = view l (ck 0) k"
    and Claim_view: "invar l \<Longrightarrow> ck 0 \<le> t \<Longrightarrow>
      view (snd (lb_Claim B ck k l)) t k' = (if k' = k then None else view l t k')"
    and tick_view: "invar l \<Longrightarrow> tick now l l' \<Longrightarrow> now \<le> t \<Longrightarrow> view l' t k = view l t k"
begin

lemma claims_once: "claim_once B tick view invar"
proof unfold_locales
  fix l t k k' ck v and ttl :: duration
  assume inv: "invar l" and none: "view l t k' = None" and "k' \<noteq> k"
  then show "view (snd (lb_SetNX B ck k v ttl l)) t k' = None"
    using SetNX_view [OF inv, of ck k v ttl t k'] SetNX_keeps [OF inv, of ck k v ttl]
    by (cases "fst (lb_SetNX B ck k v ttl l)") simp_all
qed (simp_all add: Get_view Del_view Claim_view Claim_value tick_view)

end

sublocale lock_backend \<subseteq> once: claim_once B tick view invar
  by (rule claims_once)

context lock_backend
begin

text \<open>
  A value that is held throughout a window stays held in what is left of it, as long as nobody
  deletes or claims the key; an attempt to set the key again within the window fails.
\<close>

definition held_until :: "'l \<Rightarrow> time \<Rightarrow> time \<Rightarrow> string \<Rightarrow> string \<Rightarrow> bool" where
  "held_until l t0 T k v \<longleftrightarrow> (\<forall>t. t0 \<le> t \<longrightarrow> t < T \<longrightarrow> view l t k = Some v)"

lemma step_held:
  assumes "lock_step B tick e l r l'" and "invar l" and "held_until l t0 T k v"
    and "\<not> removes_key k e" and "ev_clock e t0 = Some t1"
  shows "held_until l' t1 T k v"
  using assms(1)
proof (cases rule: lock_step.cases)
  case (ls_SetNX ck k' v' ttl)
  with assms(5) have t: "t0 \<le> ck 0" "ck 0 \<le> t1"
    by (auto simp: mono_def split: if_splits)
  show ?thesis
  proof (cases "k' = k \<and> t1 < T")
    case True
    with t assms(3) have "view l (ck 0) k' = Some v" by (simp add: held_until_def)
    then have "l' = l"
      using SetNX_sets [OF assms(2), of ck k' v' ttl] SetNX_keeps [OF assms(2), of ck k' v' ttl]
        ls_SetNX by simp
    with t assms(3) show ?thesis by (simp add: held_until_def)
  next
    case False
    have "view l' u k = view l u k" if "t1 < T" for u
      using SetNX_view [OF assms(2), of ck k' v' ttl u k] SetNX_keeps [OF assms(2), of ck k' v' ttl]
        ls_SetNX that False by (cases "fst (lb_SetNX B ck k' v' ttl l)") auto
    with t assms(3) show ?thesis by (auto simp: held_until_def)
  qed
next
  case (ls_Get ck k')
  with assms(2,3,5) show ?thesis by (auto simp: held_until_def Get_view split: if_splits)
next
  case (ls_Del k')
  with assms(2-5) show ?thesis by (auto simp: held_until_def Del_view)
next
  case (ls_Claim ck k')
  with assms(2-5) show ?thesis by (auto simp: held_until_def Claim_view split: if_splits)
next
  case (ls_Tick now)
  with assms(2,3,5) show ?thesis by (auto simp: held_until_def tick_view split: if_splits)
qed

lemma run_held:
  assumes "lock_run B tick l es rs l'" and "invar l" and "held_until l t0 T k v"
    and "\<forall>e \<in> set es. \<not> removes_key k e" and "history_clock es t0 = Some t1"
  shows "invar l' \<and> held_until l' t1 T k v"
  using assms
proof (induction arbitrary: t0 rule: lock_run.induct)
  case (lr_Cons e l r l' es rs l'')
  then obtain u where u: "ev_clock e t0 = Some u" "history_clock es u = Some t1"
    by (auto split: option.splits)
  have "invar l'" using lr_Cons.hyps(1) u(1) lr_Cons.prems(1) by (rule step_invar)
  moreover have "held_until l' u T k v"
    using step_held [OF lr_Cons.hyps(1) lr_Cons.prems(1,2) _ u(1)] lr_Cons.prems(3) by simp
  ultimately show ?case using lr_Cons.IH u(2) lr_Cons.prems(3) by simp
qed simp

end

section \<open>The in-memory store\<close>

text \<open>
  An entry is an object of its own (the timer callback compares pointers), so it carries the number
  of its allocation. Its timer is armed at a deadline; when the deadline passes the callback starts
  and waits for the mutex. \<open>Stop\<close> removes an armed timer and is too late for a started callback.
\<close>

record lockEntry =
  le_id :: nat
  le_value :: string
  le_expiresAt :: time

record LockStore =
  lk_locks :: "(string, lockEntry) gomap"
  lk_next :: nat
  lk_armed :: "(nat \<times> string \<times> time) list"
  lk_started :: "(nat \<times> string \<times> time) list"

definition NewLockStore :: LockStore where
  "NewLockStore = \<lparr>lk_locks = [], lk_next = 0, lk_armed = [], lk_started = []\<rparr>"

definition stop_timer :: "lockEntry \<Rightarrow> LockStore \<Rightarrow> LockStore" where
  "stop_timer e l = l\<lparr>lk_armed := filter (\<lambda>p. fst p \<noteq> le_id e) (lk_armed l)\<rparr>"

definition delete_key :: "string \<Rightarrow> LockStore \<Rightarrow> LockStore" where
  "delete_key k l = l\<lparr>lk_locks := AList.delete k (lk_locks l)\<rparr>"

definition install_entry :: "clock \<Rightarrow> string \<Rightarrow> string \<Rightarrow> duration \<Rightarrow> LockStore \<Rightarrow> LockStore" where
  "install_entry ck k v ttl l =
     l\<lparr>lk_locks := AList.update k
          \<lparr>le_id = lk_next l, le_value = v, le_expiresAt = ck 1 + ttl\<rparr> (lk_locks l),
       lk_next := Suc (lk_next l),
       lk_armed := (lk_next l, k, ck 2 + ttl) # lk_armed l\<rparr>"

definition LockStore_SetNX ::
    "clock \<Rightarrow> string \<Rightarrow> string \<Rightarrow> duration \<Rightarrow> LockStore \<Rightarrow> bool \<times> LockStore" where
  "LockStore_SetNX ck k v ttl l =
     (case map_of (lk_locks l) k of
        Some e \<Rightarrow> if ck 0 < le_expiresAt e then (False, l)
                  else (True, install_entry ck k v ttl (stop_timer e l))
      | None \<Rightarrow> (True, install_entry ck k v ttl l))"

definition LockStore_Get :: "clock \<Rightarrow> string \<Rightarrow> LockStore \<Rightarrow> string option \<times> LockStore" where
  "LockStore_Get ck k l =
     (case map_of (lk_locks l) k of
        None \<Rightarrow> (None, l)
      | Some e \<Rightarrow> if \<not> ck 0 < le_expiresAt e then (None, delete_key k (stop_timer e l))
                  else (Some (le_value e), l))"

definition LockStore_Del :: "string \<Rightarrow> LockStore \<Rightarrow> bool \<times> LockStore" where
  "LockStore_Del k l =
     (case map_of (lk_locks l) k of
        None \<Rightarrow> (False, l)
      | Some e \<Rightarrow> (True, delete_key k (stop_timer e l)))"

definition LockStore_Claim :: "clock \<Rightarrow> string \<Rightarrow> LockStore \<Rightarrow> string option \<times> LockStore" where
  "LockStore_Claim ck k l =
     (case map_of (lk_locks l) k of
        None \<Rightarrow> (None, l)
      | Some e \<Rightarrow> (if \<not> ck 0 < le_expiresAt e then None else Some (le_value e),
                   delete_key k (stop_timer e l)))"

definition LockStore_Ready :: "LockStore \<Rightarrow> bool" where
  "LockStore_Ready l = True"

definition LockStore_backend :: "LockStore LockBackend" where
  "LockStore_backend = \<lparr>lb_SetNX = LockStore_SetNX, lb_Get = LockStore_Get, lb_Del = LockStore_Del,
     lb_Claim = LockStore_Claim, lb_Ready = LockStore_Ready\<rparr>"

text \<open>The body of the timer callback, run under the mutex: \<open>cur == entry\<close> compares objects.\<close>

definition timer_callback :: "nat \<Rightarrow> string \<Rightarrow> LockStore \<Rightarrow> LockStore" where
  "timer_callback i k l =
     (case map_of (lk_locks l) k of
        Some cur \<Rightarrow> if le_id cur = i then delete_key k l else l
      | None \<Rightarrow> l)"

inductive timer_step :: "time \<Rightarrow> LockStore \<Rightarrow> LockStore \<Rightarrow> bool" where
  timer_start: "p \<in> set (lk_armed l) \<Longrightarrow> snd (snd p) \<le> now \<Longrightarrow>
    timer_step now l (l\<lparr>lk_armed := removeAll p (lk_armed l),
                        lk_started := p # lk_started l\<rparr>)"
| timer_run: "(i, k, d) \<in> set (lk_started l) \<Longrightarrow> d \<le> now \<Longrightarrow>
    timer_step now l ((timer_callback i k l)\<lparr>lk_started := removeAll (i, k, d) (lk_started l)\<rparr>)"

section \<open>The invariant of the in-memory store\<close>

text \<open>
  The conditions on the entries are relative to a set of keys, since an operation breaks them for
  the key it works on until it is done: every entry was allocated and has a timer (armed or
  started), no two entries share an allocation, and a timer is never due before the entry it was
  armed for expires.
\<close>

definition timers :: "LockStore \<Rightarrow> (nat \<times> string \<times> time) set" where
  "timers l = set (lk_armed l) \<union> set (lk_started l)"

definition entries_timed :: "string set \<Rightarrow> LockStore \<Rightarrow> bool" where
  "entries_timed K l \<longleftrightarrow> (\<forall>k e. k \<in> K \<longrightarrow> map_of (lk_locks l) k = Some e \<longrightarrow>
     le_id e < lk_next l \<and> (\<exists>d. (le_id e, k, d) \<in> timers l))"

definition entries_distinct :: "string set \<Rightarrow> LockStore \<Rightarrow> bool" where
  "entries_distinct K l \<longleftrightarrow> (\<forall>k k' e e'. k \<in> K \<longrightarrow> k' \<in> K \<longrightarrow> map_of (lk_locks l) k = Some e \<longrightarrow>
     map_of (lk_locks l) k' = Some e' \<longrightarrow> le_id e = le_id e' \<longrightarrow> k = k')"

definition timers_late :: "string set \<Rightarrow> LockStore \<Rightarrow> bool" where
  "timers_late K l \<longleftrightarrow> (\<forall>i k d. (i, k, d) \<in> timers l \<longrightarrow> i < lk_next l \<and>
     (\<forall>e. k \<in> K \<longrightarrow> map_of (lk_locks l) k = Some e \<longrightarrow> le_id e = i \<longrightarrow> le_expiresAt e \<le> d))"

definition lock_inv_on :: "string set \<Rightarrow> LockStore \<Rightarrow> bool" where
  "lock_inv_on K l \<longleftrightarrow> wf_map (lk_locks l) \<and> entries_timed K l \<and> entries_distinct K l \<and>
     timers_late K l"

abbreviation lock_inv :: "LockStore \<Rightarrow> bool" where
  "lock_inv \<equiv> lock_inv_on UNIV"

definition lock_view :: "LockStore \<Rightarrow> time \<Rightarrow> string \<Rightarrow> string option" where
  "lock_view l t k =
     (case map_of (lk_locks l) k of
        None \<Rightarrow> None
      | Some e \<Rightarrow> if t < le_expiresAt e then Some (le_value e) else None)"

lemmas lock_inv_defs = lock_inv_on_def entries_timed_def entries_distinct_def timers_late_def

lemma entries_timedD:
  assumes "lock_inv_on K l" "k \<in> K" "map_of (lk_locks l) k = Some e"
  shows "le_id e < lk_next l" and "\<exists>d. (le_id e, k, d) \<in> timers l"
  using assms unfolding lock_inv_on_def entries_timed_def by blast+

lemma entries_distinctD:
  assumes "lock_inv_on K l" "k \<in> K" "k' \<in> K" "map_of (lk_locks l) k = Some e"
    "map_of (lk_locks l) k' = Some e'" "le_id e = le_id e'"
  shows "k = k'"
  using assms unfolding lock_inv_on_def entries_distinct_def by blast

lemma timers_lateD:
  assumes "lock_inv_on K l" "(i, k, d) \<in> timers l"
  shows "i < lk_next l"
    and "k \<in> K \<Longrightarrow> map_of (lk_locks l) k = Some e \<Longrightarrow> le_id e = i \<Longrightarrow> le_expiresAt e \<le> d"
  using assms unfolding lock_inv_on_def timers_late_def by blast+

lemma lock_inv_New: "lock_inv NewLockStore"
  by (simp add: lock_inv_defs NewLockStore_def timers_def)

lemma lock_inv_except: "lock_inv l \<Longrightarrow> lock_inv_on K l"
  unfolding lock_inv_defs by blast

text \<open>The invariant only depends on the contents of the map, the allocation count and the timers.\<close>

lemma lock_inv_transfer:
  assumes inv: "lock_inv_on K l" and wf: "wf_map (lk_locks l')" and n: "lk_next l' = lk_next l"
    and m: "\<And>k e. k \<in> K' \<Longrightarrow> map_of (lk_locks l') k = Some e \<Longrightarrow>
      k \<in> K \<and> map_of (lk_locks l) k = Some e \<and> (\<exists>d. (le_id e, k, d) \<in> timers l')"
    and T: "timers l' \<subseteq> timers l"
  shows "lock_inv_on K' l'"
  unfolding lock_inv_on_def
proof (intro conjI wf)
  show "entries_timed K' l'"
    unfolding entries_timed_def n using m entries_timedD(1) [OF inv] by blast
  show "entries_distinct K' l'"
    unfolding entries_distinct_def using m entries_distinctD [OF inv] by metis
  show "timers_late K' l'"
    unfolding timers_late_def n using T m timers_lateD [OF inv] by (metis subsetD)
qed

lemma lock_inv_stop:
  assumes inv: "lock_inv l" and e: "map_of (lk_locks l) k = Some e"
  shows "lock_inv_on (- {k}) (stop_timer e l)"
proof (rule lock_inv_transfer [OF inv])
  show "wf_map (lk_locks (stop_timer e l))"
    using inv by (simp add: lock_inv_on_def stop_timer_def)
  fix k' e'
  assume k': "k' \<in> - {k}" and e': "map_of (lk_locks (stop_timer e l)) k' = Some e'"
  then have e'l: "map_of (lk_locks l) k' = Some e'" by (simp add: stop_timer_def)
  obtain d where "(le_id e', k', d) \<in> timers l"
    using entries_timedD(2) [OF inv _ e'l] by blast
  moreover have "le_id e' \<noteq> le_id e"
    using entries_distinctD [OF inv _ _ e'l e] k' by blast
  ultimately have "(le_id e', k', d) \<in> timers (stop_timer e l)"
    by (auto simp: timers_def stop_timer_def)
  with e'l show "k' \<in> UNIV \<and> map_of (lk_locks l) k' = Some e' \<and>
      (\<exists>d. (le_id e', k', d) \<in> timers (stop_timer e l))" by blast
qed (auto simp: timers_def stop_timer_def)

lemma lock_inv_delete:
  assumes inv: "lock_inv_on (- {k}) l"
  shows "lock_inv (delete_key k l)"
proof (rule lock_inv_transfer [OF inv])
  show "wf_map (lk_locks (delete_key k l))"
    using inv by (simp add: lock_inv_on_def delete_key_def wf_map_delete)
  fix k' e
  assume "map_of (lk_locks (delete_key k l)) k' = Some e"
  then have "k' \<in> - {k}" and "map_of (lk_locks l) k' = Some e"
    by (auto simp: delete_key_def map_of_delete_if split: if_splits)
  moreover have "timers (delete_key k l) = timers l" by (simp add: timers_def delete_key_def)
  ultimately show "k' \<in> - {k} \<and> map_of (lk_locks l) k' = Some e \<and>
      (\<exists>d. (le_id e, k', d) \<in> timers (delete_key k l))"
    using entries_timedD(2) [OF inv] by simp
qed (auto simp: timers_def delete_key_def)

lemma install_entry_parts:
  "map_of (lk_locks (install_entry ck k v ttl l)) k' =
     (if k' = k then Some \<lparr>le_id = lk_next l, le_value = v, le_expiresAt = ck 1 + ttl\<rparr> else map_of (lk_locks l) k')"
  "timers (install_entry ck k v ttl l) = insert (lk_next l, k, ck 2 + ttl) (timers l)"
  "lk_next (install_entry ck k v ttl l) = Suc (lk_next l)"
  by (simp_all add: install_entry_def timers_def)

lemma install_timed:
  assumes inv: "lock_inv_on (- {k}) l"
  shows "entries_timed UNIV (install_entry ck k v ttl l)"
  unfolding entries_timed_def
proof (intro allI impI)
  fix k' e
  assume "map_of (lk_locks (install_entry ck k v ttl l)) k' = Some e"
  then show "le_id e < lk_next (install_entry ck k v ttl l) \<and> (\<exists>d. (le_id e, k', d) \<in> timers (install_entry ck k v ttl l))"
    using entries_timedD [OF inv, of k' e] unfolding install_entry_parts by (cases "k' = k") (auto simp: less_SucI)
qed

lemma install_distinct:
  assumes inv: "lock_inv_on (- {k}) l"
  shows "entries_distinct UNIV (install_entry ck k v ttl l)"
  unfolding entries_distinct_def
proof (intro allI impI)
  let ?l = "install_entry ck k v ttl l"
  fix k1 k2 e1 e2
  assume e: "map_of (lk_locks ?l) k1 = Some e1" "map_of (lk_locks ?l) k2 = Some e2" and i: "le_id e1 = le_id e2"
  show "k1 = k2"
  proof (cases "k1 = k \<or> k2 = k")
    case True
    with e i entries_timedD(1) [OF inv, of k1 e1] entries_timedD(1) [OF inv, of k2 e2] show ?thesis
      unfolding install_entry_parts by (auto split: if_splits)
  next
    case False
    with e i show ?thesis
      unfolding install_entry_parts using entries_distinctD [OF inv, of k1 k2 e1 e2] by simp
  qed
qed

lemma install_late:
  assumes inv: "lock_inv_on (- {k}) l" and ck: "mono ck"
  shows "timers_late UNIV (install_entry ck k v ttl l)"
  unfolding timers_late_def
proof (intro allI impI conjI)
  let ?l = "install_entry ck k v ttl l"
  fix i k' d e
  assume t: "(i, k', d) \<in> timers ?l"
  then show "i < lk_next ?l"
    unfolding install_entry_parts using timers_lateD(1) [OF inv, of i k' d] by auto
  assume e: "map_of (lk_locks ?l) k' = Some e" and i: "le_id e = i"
  show "le_expiresAt e \<le> d"
  proof (cases "k' = k")
    case True
    have "ck 1 \<le> ck 2" using ck by (simp add: mono_def)
    with True e i t show ?thesis
      unfolding install_entry_parts using timers_lateD(1) [OF inv, of i k' d] by auto
  next
    case False
    with e t i show ?thesis
      unfolding install_entry_parts using timers_lateD(2) [OF inv, of i k' d e] by auto
  qed
qed

lemma lock_inv_install:
  assumes inv: "lock_inv_on (- {k}) l" and ck: "mono ck"
  shows "lock_inv (install_entry ck k v ttl l)"
proof -
  have "wf_map (lk_locks (install_entry ck k v ttl l))"
    using inv by (simp add: lock_inv_on_def install_entry_def wf_map_update)
  with install_timed [OF inv] install_distinct [OF inv] install_late [OF inv ck] show ?thesis
    unfolding lock_inv_on_def by blast
qed

section \<open>The in-memory store keeps the contract\<close>

lemma lock_inv_drop:
  "lock_inv l \<Longrightarrow> map_of (lk_locks l) k = Some e \<Longrightarrow> lock_inv (delete_key k (stop_timer e l))"
  by (intro lock_inv_delete lock_inv_stop)

lemma lock_inv_SetNX:
  assumes "lock_inv l" and "mono ck"
  shows "lock_inv (snd (LockStore_SetNX ck k v ttl l))"
proof (cases "map_of (lk_locks l) k")
  case None
  with assms show ?thesis
    by (simp add: LockStore_SetNX_def lock_inv_install lock_inv_except)
next
  case (Some e)
  with assms show ?thesis
    by (simp add: LockStore_SetNX_def lock_inv_install lock_inv_stop)
qed

lemma lock_inv_ops:
  assumes "lock_inv l"
  shows "lock_inv (snd (LockStore_Get ck k l))" and "lock_inv (snd (LockStore_Del k l))"
    and "lock_inv (snd (LockStore_Claim ck k l))"
  using assms lock_inv_drop [OF assms]
  by (simp_all add: LockStore_Get_def LockStore_Del_def LockStore_Claim_def split: option.split)

lemma lock_inv_timer_start:
  assumes inv: "lock_inv l" and "p \<in> set (lk_armed l)"
  shows "lock_inv (l\<lparr>lk_armed := removeAll p (lk_armed l), lk_started := p # lk_started l\<rparr>)"
    (is "lock_inv ?l")
proof (rule lock_inv_transfer [OF inv])
  have T: "timers ?l = timers l" using assms(2) by (auto simp: timers_def)
  then show "timers ?l \<subseteq> timers l" by simp
  fix k e
  assume "map_of (lk_locks ?l) k = Some e"
  then show "k \<in> UNIV \<and> map_of (lk_locks l) k = Some e \<and> (\<exists>d. (le_id e, k, d) \<in> timers ?l)"
    unfolding T using entries_timedD(2) [OF inv] by simp
qed (use inv in \<open>simp_all add: lock_inv_on_def\<close>)

lemma timer_callback_lookup:
  "map_of (lk_locks (timer_callback i k l)) k' =
     (case map_of (lk_locks l) k' of
        None \<Rightarrow> None | Some e \<Rightarrow> if k' = k \<and> le_id e = i then None else Some e)"
  by (auto simp: timer_callback_def delete_key_def map_of_delete_if split: option.splits)

lemma timer_callback_frame [simp]:
  "lk_next (timer_callback i k l) = lk_next l" "lk_armed (timer_callback i k l) = lk_armed l"
  "lk_started (timer_callback i k l) = lk_started l"
  by (simp_all add: timer_callback_def delete_key_def split: option.split)

lemma lock_inv_timer_run:
  assumes inv: "lock_inv l"
  shows "lock_inv ((timer_callback i k l)\<lparr>lk_started := removeAll (i, k, d) (lk_started l)\<rparr>)"
    (is "lock_inv ?l")
proof (rule lock_inv_transfer [OF inv])
  show "wf_map (lk_locks ?l)"
    using inv by (auto simp: lock_inv_on_def timer_callback_def delete_key_def split: option.split)
  fix k' e
  assume "map_of (lk_locks ?l) k' = Some e"
  then have e: "map_of (lk_locks l) k' = Some e" and ne: "\<not> (k' = k \<and> le_id e = i)"
    by (auto simp: timer_callback_lookup split: option.splits if_splits)
  obtain d' where "(le_id e, k', d') \<in> timers l" using entries_timedD(2) [OF inv _ e] by blast
  with ne have "(le_id e, k', d') \<in> timers ?l" by (auto simp: timers_def)
  with e show "k' \<in> UNIV \<and> map_of (lk_locks l) k' = Some e \<and>
      (\<exists>d. (le_id e, k', d) \<in> timers ?l)" by blast
qed (auto simp: timers_def)

lemma lock_inv_timer_step: "timer_step now l l' \<Longrightarrow> lock_inv l \<Longrightarrow> lock_inv l'"
  by (induction rule: timer_step.induct) (auto intro: lock_inv_timer_start lock_inv_timer_run)

text \<open>A timer step only removes what has expired: the view from \<open>now\<close> on is unchanged.\<close>

lemma timer_step_view:
  assumes "timer_step now l l'" and inv: "lock_inv l" and t: "now \<le> t"
  shows "lock_view l' t k = lock_view l t k"
  using assms(1)
proof (cases rule: timer_step.cases)
  case (timer_start p)
  then show ?thesis by (simp add: lock_view_def)
next
  case (timer_run i k0 d)
  then have "(i, k0, d) \<in> timers l" by (simp add: timers_def)
  then have "le_expiresAt e \<le> t" if "map_of (lk_locks l) k0 = Some e" "le_id e = i" for e
    using timers_lateD(2) [OF inv _ _ that] timer_run(3) t by force
  with timer_run(1) show ?thesis
    by (auto simp: lock_view_def timer_callback_lookup split: option.split)
qed

lemma stop_timer_locks [simp]: "lk_locks (stop_timer e l) = lk_locks l"
  by (simp add: stop_timer_def)

lemma lock_view_drop [simp]:
  "lock_view (delete_key k (stop_timer e l)) t k' = (if k' = k then None else lock_view l t k')"
  by (simp add: lock_view_def delete_key_def map_of_delete_if)

lemma lock_view_install:
  assumes "lk_locks l' = lk_locks l"
  shows "lock_view (install_entry ck k v ttl l') t k' =
     (if k' = k then (if t < ck 1 + ttl then Some v else None) else lock_view l t k')"
  using assms by (simp add: lock_view_def install_entry_def)

lemma LockStore_SetNX_contract:
  "fst (LockStore_SetNX ck k v ttl l) \<longleftrightarrow> lock_view l (ck 0) k = None"
  "fst (LockStore_SetNX ck k v ttl l) \<Longrightarrow> lock_view (snd (LockStore_SetNX ck k v ttl l)) t k' =
     (if k' = k then (if t < ck 1 + ttl then Some v else None) else lock_view l t k')"
  "\<not> fst (LockStore_SetNX ck k v ttl l) \<Longrightarrow> snd (LockStore_SetNX ck k v ttl l) = l"
proof -
  show "fst (LockStore_SetNX ck k v ttl l) \<longleftrightarrow> lock_view l (ck 0) k = None"
    by (simp add: LockStore_SetNX_def lock_view_def split: option.split)
  show "\<not> fst (LockStore_SetNX ck k v ttl l) \<Longrightarrow> snd (LockStore_SetNX ck k v ttl l) = l"
    by (simp add: LockStore_SetNX_def split: option.splits if_splits)
  assume set: "fst (LockStore_SetNX ck k v ttl l)"
  show "lock_view (snd (LockStore_SetNX ck k v ttl l)) t k' =
     (if k' = k then (if t < ck 1 + ttl then Some v else None) else lock_view l t k')"
  proof (cases "map_of (lk_locks l) k")
    case None
    then show ?thesis by (simp add: LockStore_SetNX_def lock_view_install)
  next
    case (Some e)
    with set show ?thesis
      by (simp add: LockStore_SetNX_def lock_view_install [of "stop_timer e l" l] split: if_splits)
  qed
qed

lemma LockStore_read_contract:
  "fst (LockStore_Get ck k l) = lock_view l (ck 0) k"
  "ck 0 \<le> t \<Longrightarrow> lock_view (snd (LockStore_Get ck k l)) t k' = lock_view l t k'"
  "lock_view (snd (LockStore_Del k l)) t k' = (if k' = k then None else lock_view l t k')"
  "fst (LockStore_Claim ck k l) = lock_view l (ck 0) k"
  "lock_view (snd (LockStore_Claim ck k l)) t k' = (if k' = k then None else lock_view l t k')"
proof -
  show "fst (LockStore_Get ck k l) = lock_view l (ck 0) k"
    by (simp add: LockStore_Get_def lock_view_def split: option.split)
  show "ck 0 \<le> t \<Longrightarrow> lock_view (snd (LockStore_Get ck k l)) t k' = lock_view l t k'"
    by (auto simp: LockStore_Get_def lock_view_def [of l] split: option.split)
  show "lock_view (snd (LockStore_Del k l)) t k' = (if k' = k then None else lock_view l t k')"
    by (simp add: LockStore_Del_def lock_view_def [of l] split: option.split)
  show "fst (LockStore_Claim ck k l) = lock_view l (ck 0) k"
    by (simp add: LockStore_Claim_def lock_view_def split: option.split)
  show "lock_view (snd (LockStore_Claim ck k l)) t k' = (if k' = k then None else lock_view l t k')"
    by (simp add: LockStore_Claim_def lock_view_def [of l] split: option.split)
qed

lemma lock_view_expires: "lock_view l t k = Some v \<Longrightarrow> t' \<le> t \<Longrightarrow> lock_view l t' k = Some v"
  by (auto simp: lock_view_def split: option.splits if_splits)

lemmas LockStore_contract = lock_view_expires LockStore_SetNX_contract LockStore_read_contract
  timer_step_view lock_inv_SetNX lock_inv_ops lock_inv_timer_step

interpretation mem: lock_backend LockStore_backend timer_step lock_view lock_inv
  by (unfold_locales; (unfold LockStore_backend_def LockBackend.select_convs)?;
      (rule LockStore_contract; assumption | rule LockStore_contract))

section \<open>Properties of the in-memory store\<close>

text \<open> No double claim: in any interleaving of operations and timer callbacks in which a key is not
  set again, at most one claim of it returns its value.
\<close>

lemma LockStore_claimed_at_most_once:
  assumes "lock_run LockStore_backend timer_step l es rs l'" and "lock_inv l"
    and "\<forall>e \<in> set es. \<not> sets_key k e" and "history_clock es t0 \<noteq> None"
  shows "length (filter (\<lambda>p. fst p = k) rs) \<le> 1"
  using assms by (rule mem.once.run_claim_once)


text \<open> Eviction: every entry has a timer; at any instant from the timer's deadline on, at most two
  timer steps (the timer fires, its callback runs) remove the entry.
\<close>

lemma LockStore_entry_evicted:
  assumes inv: "lock_inv l" and e: "map_of (lk_locks l) k = Some e"
  shows "\<exists>d. \<forall>now \<ge> d. \<exists>l'. (timer_step now)\<^sup>*\<^sup>* l l' \<and> map_of (lk_locks l') k = None"
proof -
  obtain d where d: "(le_id e, k, d) \<in> timers l" using entries_timedD(2) [OF inv _ e] by blast
  have run: "\<exists>l'. timer_step now l0 l' \<and> map_of (lk_locks l') k = None"
    if "(le_id e, k, d) \<in> set (lk_started l0)" "d \<le> now" "map_of (lk_locks l0) k = Some e" for now l0
    using timer_run [OF that(1,2)] that(3)
    by (intro exI conjI) (assumption, simp add: timer_callback_lookup)
  have "\<exists>l'. (timer_step now)\<^sup>*\<^sup>* l l' \<and> map_of (lk_locks l') k = None" if due: "d \<le> now" for now
  proof (cases "(le_id e, k, d) \<in> set (lk_started l)")
    case True
    with run [OF True due e] show ?thesis by blast
  next
    case False
    with d have a: "(le_id e, k, d) \<in> set (lk_armed l)" by (simp add: timers_def)
    let ?l = "l\<lparr>lk_armed := removeAll (le_id e, k, d) (lk_armed l),
      lk_started := (le_id e, k, d) # lk_started l\<rparr>"
    have "timer_step now l ?l" using timer_start [OF a] due by simp
    moreover obtain l' where "timer_step now ?l l'" and "map_of (lk_locks l') k = None"
      using run [OF _ due, of ?l] e by auto
    ultimately show ?thesis by (meson converse_rtranclp_into_rtranclp r_into_rtranclp)
  qed
  then show ?thesis by blast
qed

subsection \<open>Concrete histories\<close>

text \<open>A lock set at instant 0 for 30 seconds, looked at and claimed twice.\<close>

definition ex_locked :: LockStore where
  "ex_locked = snd (LockStore_SetNX (ex_clock 0) ''k'' ''v'' (30 * second) NewLockStore)"



end
