(* ===== verification/Config.thy ===== *)
theory Config
  imports Go_Strings
begin

text \<open>
  The configuration: the struct and defaults of \<open>internal/server.go\<close> and the environment loader of
  \<open>internal/config.go\<close>. The environment is a partial function from names to values.
\<close>

record Config =
  cfg_RateLockTTL :: duration
  cfg_MaxStaleAge :: duration
  cfg_DefaultSpreadBPS :: int
  cfg_SlippageToleranceBPS :: int
  cfg_BulkQuoteMaxItems :: int
  cfg_Port :: string
  cfg_RedisURL :: string
  cfg_DatabaseURL :: string
  cfg_FeeScheduleURL :: string
  cfg_FXHedgingURL :: string
  cfg_ExchangeConnectorURL :: string
  cfg_RateFeedTopic :: string
  cfg_OTLPEndpoint :: string
  cfg_LogLevel :: string
  cfg_L1CacheSize :: int
  cfg_L1CacheTTL :: duration

definition DefaultConfig :: Config where
  "DefaultConfig = \<lparr>cfg_RateLockTTL = 30 * second, cfg_MaxStaleAge = 250 * millisecond,
     cfg_DefaultSpreadBPS = 100, cfg_SlippageToleranceBPS = 150, cfg_BulkQuoteMaxItems = 25,
     cfg_Port = ''8080'', cfg_RedisURL = ''redis://localhost:6379'', cfg_DatabaseURL = [],
     cfg_FeeScheduleURL = ''http://config-svc/v1/fee-schedules'',
     cfg_FXHedgingURL = ''http://fx-hedging:8080'',
     cfg_ExchangeConnectorURL = ''http://exchange-connectors:8080'',
     cfg_RateFeedTopic = ''spot.rates'', cfg_OTLPEndpoint = [], cfg_LogLevel = ''info'',
     cfg_L1CacheSize = 4096, cfg_L1CacheTTL = 200 * millisecond\<rparr>"

type_synonym environment = "string \<Rightarrow> string option"

definition Getenv :: "environment \<Rightarrow> string \<Rightarrow> string" where
  "Getenv env key = (case env key of None \<Rightarrow> [] | Some v \<Rightarrow> v)"

definition envOr :: "environment \<Rightarrow> string \<Rightarrow> string \<Rightarrow> string" where
  "envOr env key def = (case env key of Some v \<Rightarrow> if v \<noteq> [] then v else def | None \<Rightarrow> def)"

text \<open>The number a variable sets, if it is non-empty, parses and passes the guard.\<close>

definition env_int :: "(int \<Rightarrow> bool) \<Rightarrow> environment \<Rightarrow> string \<Rightarrow> int option" where
  "env_int ok env key =
     (let v = Getenv env key in
      if v \<noteq> [] then (case Atoi v of Some n \<Rightarrow> if ok n then Some n else None | None \<Rightarrow> None) else None)"

definition set_int :: "int option \<Rightarrow> (int \<Rightarrow> Config \<Rightarrow> Config) \<Rightarrow> Config \<Rightarrow> Config" where
  "set_int n upd c = (case n of Some n \<Rightarrow> upd n c | None \<Rightarrow> c)"

text \<open>\<open>time.Duration(n) * time.Second\<close> is a product of 64-bit integers.\<close>

definition LoadConfig :: "environment \<Rightarrow> Config" where
  "LoadConfig env =
     (let c = DefaultConfig;
          c = set_int (env_int (\<lambda>n. 0 < n) env ''RATE_LOCK_TTL_SECONDS'')
                (\<lambda>n c. c\<lparr>cfg_RateLockTTL := wrap64 (n * second)\<rparr>) c;
          c = set_int (env_int (\<lambda>n. 0 < n) env ''MAX_STALE_AGE_MS'')
                (\<lambda>n c. c\<lparr>cfg_MaxStaleAge := wrap64 (n * millisecond)\<rparr>) c;
          c = set_int (env_int (\<lambda>_. True) env ''DEFAULT_SPREAD_BPS'')
                (\<lambda>n c. c\<lparr>cfg_DefaultSpreadBPS := n\<rparr>) c;
          c = set_int (env_int (\<lambda>_. True) env ''SLIPPAGE_TOLERANCE_BPS'')
                (\<lambda>n c. c\<lparr>cfg_SlippageToleranceBPS := n\<rparr>) c;
          c = set_int (env_int (\<lambda>n. 0 < n) env ''BULK_QUOTE_MAX_ITEMS'')
                (\<lambda>n c. c\<lparr>cfg_BulkQuoteMaxItems := n\<rparr>) c;
          c = c\<lparr>cfg_RedisURL := envOr env ''REDIS_URL'' ''redis://localhost:6379'',
                cfg_DatabaseURL := envOr env ''DATABASE_URL'' [],
                cfg_Port := envOr env ''PORT'' ''8080'',
                cfg_FeeScheduleURL := envOr env ''FEE_SCHEDULE_URL'' ''http://config-svc/v1/fee-schedules'',
                cfg_FXHedgingURL := envOr env ''FX_HEDGING_URL'' ''http://fx-hedging:8080'',
                cfg_ExchangeConnectorURL :=
                  envOr env ''EXCHANGE_CONNECTOR_URL'' ''http://exchange-connectors:8080'',
                cfg_RateFeedTopic := envOr env ''RATE_FEED_TOPIC'' ''spot.rates'',
                cfg_OTLPEndpoint := envOr env ''OTEL_EXPORTER_OTLP_ENDPOINT'' [],
                cfg_LogLevel := envOr env ''LOG_LEVEL'' ''info''\<rparr>;
          c = set_int (env_int (\<lambda>n. 0 < n) env ''L1_CACHE_SIZE'')
                (\<lambda>n c. c\<lparr>cfg_L1CacheSize := n\<rparr>) c
      in set_int (env_int (\<lambda>n. 0 < n) env ''L1_CACHE_TTL_MS'')
           (\<lambda>n c. c\<lparr>cfg_L1CacheTTL := wrap64 (n * millisecond)\<rparr>) c)"

definition maskURL :: "string \<Rightarrow> string" where
  "maskURL u = (case IndexByte u (CHR ''@'') of Some i \<Rightarrow> ''redis://***@'' @ drop (i + 1) u | None \<Rightarrow> u)"

section \<open>Bounds\<close>

lemma set_int_None [simp]: "set_int None upd c = c"
  by (simp add: set_int_def)

lemma set_int_Some [simp]: "set_int (Some n) upd c = upd n c"
  by (simp add: set_int_def)

lemma LoadConfig_fields:
  "cfg_RateLockTTL (LoadConfig env) =
     (case env_int (\<lambda>n. 0 < n) env ''RATE_LOCK_TTL_SECONDS'' of
        Some n \<Rightarrow> wrap64 (n * second) | None \<Rightarrow> 30 * second)"
  "cfg_BulkQuoteMaxItems (LoadConfig env) =
     (case env_int (\<lambda>n. 0 < n) env ''BULK_QUOTE_MAX_ITEMS'' of Some n \<Rightarrow> n | None \<Rightarrow> 25)"
  "cfg_DefaultSpreadBPS (LoadConfig env) =
     (case env_int (\<lambda>_. True) env ''DEFAULT_SPREAD_BPS'' of Some n \<Rightarrow> n | None \<Rightarrow> 100)"
  unfolding LoadConfig_def Let_def set_int_def
  by (simp_all add: DefaultConfig_def split: option.split)

lemma env_int_Some:
  "env_int ok env key = Some n \<longleftrightarrow> (\<exists>v. env key = Some v \<and> v \<noteq> [] \<and> Atoi v = Some n \<and> ok n)"
  by (auto simp: env_int_def Getenv_def Let_def split: option.splits if_splits)


lemma maskURL_at: "CHR ''@'' \<notin> set cred \<Longrightarrow> maskURL (cred @ CHR ''@'' # rest) = ''redis://***@'' @ rest"
  by (simp add: maskURL_def split_upto_append_free)

section \<open>Concrete instances\<close>


end
