(* ===== verification/Redis_Lock.thy ===== *)
theory Redis_Lock
  imports Lock_Store Config
begin

text \<open>
  The Redis adapter of \<open>internal/redis_lock.go\<close> with the Lua claim script of \<open>internal/store.go\<close>, and the
  choice of the backend at startup. The Redis server and the \<open>go-redis\<close> client are not part of the
  repository: they are parameters, and what the adapter relies on is the locale \<open>redis_laws\<close>.
\<close>

section \<open>Server and client\<close>

text \<open>
  The commands that the script and the client send. \<open>GET\<close> is \<open>None\<close> for the reply \<open>false\<close> (no such
  key), \<open>PTTL\<close> is negative for a missing key or a key without expiry, \<open>SETNX\<close> is \<open>SET key value NX\<close>
  with an expiry. A command is executed at an instant of the server's clock.
\<close>

record 'l redis_server =
  rs_GET :: "time \<Rightarrow> string \<Rightarrow> 'l \<Rightarrow> string option"
  rs_PTTL :: "time \<Rightarrow> string \<Rightarrow> 'l \<Rightarrow> int"
  rs_DEL :: "string \<Rightarrow> 'l \<Rightarrow> int \<times> 'l"
  rs_SETNX :: "time \<Rightarrow> string \<Rightarrow> string \<Rightarrow> duration \<Rightarrow> 'l \<Rightarrow> bool \<times> 'l"

text \<open>
  A call of the client returns an error or a reply. The client reports the nil reply of \<open>GET\<close> and of a
  script as the error \<open>redis.Nil\<close>; every other error is a failure to connect or to get a reply.
\<close>

datatype redis_error = Redis_Nil | Redis_Failure string

datatype redis_reply = Reply_nil | Reply_string string | Reply_bytes string | Reply_other

record 'l redis_client =
  rc_SetNX :: "clock \<Rightarrow> string \<Rightarrow> string \<Rightarrow> duration \<Rightarrow> 'l \<Rightarrow> (redis_error + bool) \<times> 'l"
  rc_Get :: "clock \<Rightarrow> string \<Rightarrow> 'l \<Rightarrow> (redis_error + string) \<times> 'l"
  rc_Del :: "string \<Rightarrow> 'l \<Rightarrow> (redis_error + int) \<times> 'l"
  rc_Run :: "clock \<Rightarrow> string \<Rightarrow> string list \<Rightarrow> 'l \<Rightarrow> (redis_error + redis_reply) \<times> 'l"
  rc_Ping :: "'l \<Rightarrow> redis_error option"

section \<open>The adapter\<close>

definition claimLuaScript :: string where
  "claimLuaScript =
     ''local v = redis.call('GET', KEYS[1])'' @ [CHR 0x0A] @
     ''if v == false then return nil end'' @ [CHR 0x0A] @
     ''local ttl = redis.call('PTTL', KEYS[1])'' @ [CHR 0x0A] @
     ''if ttl == nil or ttl < 0 then return nil end'' @ [CHR 0x0A] @
     ''redis.call('DEL', KEYS[1])'' @ [CHR 0x0A] @
     ''return v'' @ [CHR 0x0A]"

text \<open>What the script does, line by line; the server runs a script as one atomic step.\<close>

definition claim_script :: "'l redis_server \<Rightarrow> time \<Rightarrow> string \<Rightarrow> 'l \<Rightarrow> redis_reply \<times> 'l" where
  "claim_script S now k l =
     (case rs_GET S now k l of
        None \<Rightarrow> (Reply_nil, l)
      | Some v \<Rightarrow> let ttl = rs_PTTL S now k l in
                  if ttl < 0 then (Reply_nil, l)
                  else (Reply_string v, snd (rs_DEL S k l)))"

definition redis_SetNX ::
    "'l redis_client \<Rightarrow> clock \<Rightarrow> string \<Rightarrow> string \<Rightarrow> duration \<Rightarrow> 'l \<Rightarrow> bool \<times> 'l" where
  "redis_SetNX R ck k v ttl l =
     (case rc_SetNX R ck k v ttl l of (Inl err, l') \<Rightarrow> (False, l') | (Inr ok, l') \<Rightarrow> (ok, l'))"

definition redis_Get :: "'l redis_client \<Rightarrow> clock \<Rightarrow> string \<Rightarrow> 'l \<Rightarrow> string option \<times> 'l" where
  "redis_Get R ck k l =
     (case rc_Get R ck k l of (Inl err, l') \<Rightarrow> (None, l') | (Inr v, l') \<Rightarrow> (Some v, l'))"

definition redis_Del :: "'l redis_client \<Rightarrow> string \<Rightarrow> 'l \<Rightarrow> bool \<times> 'l" where
  "redis_Del R k l =
     (case rc_Del R k l of (Inl err, l') \<Rightarrow> (False, l') | (Inr n, l') \<Rightarrow> (0 < n, l'))"

definition redis_Claim :: "'l redis_client \<Rightarrow> clock \<Rightarrow> string \<Rightarrow> 'l \<Rightarrow> string option \<times> 'l" where
  "redis_Claim R ck k l =
     (case rc_Run R ck claimLuaScript [k] l of
        (Inl err, l') \<Rightarrow> (None, l')
      | (Inr res, l') \<Rightarrow>
          (case res of
             Reply_nil \<Rightarrow> None
           | Reply_string v \<Rightarrow> Some v
           | Reply_bytes v \<Rightarrow> Some v
           | Reply_other \<Rightarrow> None, l'))"

definition redis_Ready :: "'l redis_client \<Rightarrow> 'l \<Rightarrow> bool" where
  "redis_Ready R l \<longleftrightarrow> rc_Ping R l = None"

definition redisLockBackend :: "'l redis_client \<Rightarrow> 'l LockBackend" where
  "redisLockBackend R = \<lparr>lb_SetNX = redis_SetNX R, lb_Get = redis_Get R, lb_Del = redis_Del R,
     lb_Claim = redis_Claim R, lb_Ready = redis_Ready R\<rparr>"

section \<open>The choice of the backend\<close>

text \<open>
  \<open>newRedisLockBackend\<close> parses the URL, dials and pings; the parser and the dialer are parameters of it.
\<close>

definition newRedisLockBackend ::
    "(string \<Rightarrow> string + 'o) \<Rightarrow> ('o \<Rightarrow> 'l) \<Rightarrow> 'l redis_client \<Rightarrow> (redis_error \<Rightarrow> string) \<Rightarrow>
     string \<Rightarrow> string + 'l" where
  "newRedisLockBackend ParseURL NewClient R errstr url =
     (case ParseURL url of
        Inl err \<Rightarrow> Inl err
      | Inr opts \<Rightarrow> let c = NewClient opts in
          (case rc_Ping R c of Some err \<Rightarrow> Inl (errstr err) | None \<Rightarrow> Inr c))"

datatype 'l chosen_backend = In_memory LockStore | In_redis 'l

text \<open>The second result is what is logged, with the level; nothing without a logger.\<close>

definition initLockBackend ::
    "(string \<Rightarrow> string + 'l) \<Rightarrow> Config \<Rightarrow> bool \<Rightarrow> 'l chosen_backend \<times> (string \<times> string) list" where
  "initLockBackend dial cfg has_log =
     (if cfg_RedisURL cfg = []
      then (In_memory NewLockStore,
            if has_log then [(''warn'', ''REDIS_URL unset; using in-memory lock store'')] else [])
      else case dial (cfg_RedisURL cfg) of
             Inl err \<Rightarrow>
               (In_memory NewLockStore,
                if has_log then [(''warn'', ''redis unavailable, falling back to in-memory lock store: '' @ err)] else [])
           | Inr b \<Rightarrow>
               (In_redis b,
                if has_log then [(''info'', ''connected to Redis at '' @ maskURL (cfg_RedisURL cfg))] else []))"

definition closeLockBackend :: "('l \<Rightarrow> 'l) \<Rightarrow> 'l chosen_backend \<Rightarrow> 'l chosen_backend" where
  "closeLockBackend close b = (case b of In_redis l \<Rightarrow> In_redis (close l) | In_memory l \<Rightarrow> In_memory l)"

section \<open>What the adapter relies on\<close>

definition same_db :: "'l redis_server \<Rightarrow> 'l \<Rightarrow> 'l \<Rightarrow> bool" where
  "same_db S l l' \<longleftrightarrow> (\<forall>t k. rs_GET S t k l' = rs_GET S t k l \<and> rs_PTTL S t k l' = rs_PTTL S t k l)"

text \<open>
  The documented behaviour. The server: a key is live until its expiry, \<open>DEL\<close> removes one key,
  \<open>SET NX\<close> with a positive expiry sets an absent key for that long and nothing else. The client: a call
  that returns a reply has executed its command once and returns the reply of it, the nil reply as
  \<open>redis.Nil\<close>; a call that fails has executed nothing (an execution whose reply is lost, which the
  client may repeat, is a background step of the server).
\<close>

locale redis_laws =
  fixes R :: "'l redis_client" and S :: "'l redis_server"
  assumes GET_expires: "rs_GET S t k l = Some v \<Longrightarrow> t' \<le> t \<Longrightarrow> rs_GET S t' k l = Some v"
    and GET_DEL: "rs_GET S t k' (snd (rs_DEL S k l)) = (if k' = k then None else rs_GET S t k' l)"
    and SETNX_other: "k' \<noteq> k \<Longrightarrow> rs_GET S t k' (snd (rs_SETNX S now k v ttl l)) = rs_GET S t k' l"
    and SETNX_reply: "0 < ttl \<Longrightarrow> fst (rs_SETNX S now k v ttl l) \<longleftrightarrow> rs_GET S now k l = None"
    and SETNX_sets: "0 < ttl \<Longrightarrow> fst (rs_SETNX S now k v ttl l) \<Longrightarrow>
      rs_GET S t k (snd (rs_SETNX S now k v ttl l)) = (if t < now + ttl then Some v else None)"
    and SETNX_volatile: "0 < ttl \<Longrightarrow> fst (rs_SETNX S now k v ttl l) \<Longrightarrow> t < now + ttl \<Longrightarrow>
      0 \<le> rs_PTTL S t k (snd (rs_SETNX S now k v ttl l))"
    and SetNX_replied: "rc_SetNX R ck k v ttl l = (Inr b, l') \<Longrightarrow>
      fst (rs_SETNX S (ck 0) k v ttl l) = b \<and> same_db S (snd (rs_SETNX S (ck 0) k v ttl l)) l'"
    and SetNX_failed: "rc_SetNX R ck k v ttl l = (Inl err, l') \<Longrightarrow> same_db S l l'"
    and Get_replied: "rc_Get R ck k l = (Inr v, l') \<Longrightarrow> rs_GET S (ck 0) k l = Some v"
    and Get_keeps: "same_db S l (snd (rc_Get R ck k l))"
    and Del_replied: "rc_Del R k l = (Inr n, l') \<Longrightarrow> same_db S (snd (rs_DEL S k l)) l'"
    and Del_failed: "rc_Del R k l = (Inl err, l') \<Longrightarrow> same_db S l l'"
    and Run_replied: "rc_Run R ck claimLuaScript [k] l = (Inr res, l') \<Longrightarrow>
      fst (claim_script S (ck 0) k l) = res \<and> same_db S (snd (claim_script S (ck 0) k l)) l'"
    and Run_nil: "rc_Run R ck claimLuaScript [k] l = (Inl Redis_Nil, l') \<Longrightarrow>
      fst (claim_script S (ck 0) k l) = Reply_nil \<and> same_db S l l'"
    and Run_failed: "rc_Run R ck claimLuaScript [k] l = (Inl (Redis_Failure msg), l') \<Longrightarrow> same_db S l l'"

text \<open>
  Background steps of the server can make keys disappear, never appear: expiry, eviction, the commands
  of other clients that delete keys, and executions whose reply was lost.
\<close>

definition redis_view :: "'l redis_server \<Rightarrow> 'l \<Rightarrow> time \<Rightarrow> string \<Rightarrow> string option" where
  "redis_view S l t k = rs_GET S t k l"

definition redis_tick :: "'l redis_server \<Rightarrow> time \<Rightarrow> 'l \<Rightarrow> 'l \<Rightarrow> bool" where
  "redis_tick S now l l' \<longleftrightarrow>
     (\<forall>t \<ge> now. \<forall>k. redis_view S l' t k = None \<or> redis_view S l' t k = redis_view S l t k)"

lemma redis_backend_simps [simp]:
  "lb_SetNX (redisLockBackend R) = redis_SetNX R" "lb_Get (redisLockBackend R) = redis_Get R"
  "lb_Del (redisLockBackend R) = redis_Del R" "lb_Claim (redisLockBackend R) = redis_Claim R"
  "lb_Ready (redisLockBackend R) = redis_Ready R"
  by (simp_all add: redisLockBackend_def)

lemma redis_states: "lock_states (redisLockBackend R) tick (\<lambda>_. True)"
  by unfold_locales simp_all

context redis_laws
begin

lemma same_view: "same_db S l l' \<Longrightarrow> redis_view S l' t k = redis_view S l t k"
  by (simp add: same_db_def redis_view_def)

lemma script_view:
  "redis_view S (snd (claim_script S now k l)) t k' =
     (if k' = k \<and> fst (claim_script S now k l) \<noteq> Reply_nil then None else redis_view S l t k')"
  by (simp add: claim_script_def redis_view_def GET_DEL Let_def split: option.split)

lemma script_reply:
  "fst (claim_script S now k l) =
     (case redis_view S l now k of
        None \<Rightarrow> Reply_nil | Some v \<Rightarrow> if rs_PTTL S now k l < 0 then Reply_nil else Reply_string v)"
  by (simp add: claim_script_def redis_view_def Let_def split: option.split)

lemma claim_call:
  obtains (failed) "fst (redis_Claim R ck k l) = None" "same_db S l (snd (redis_Claim R ck k l))"
  | (ran) "fst (redis_Claim R ck k l) = (if 0 \<le> rs_PTTL S (ck 0) k l then redis_view S l (ck 0) k else None)"
      "same_db S (snd (claim_script S (ck 0) k l)) (snd (redis_Claim R ck k l))"
proof (cases "rc_Run R ck claimLuaScript [k] l")
  case (Pair r l')
  show ?thesis
  proof (cases r)
    case (Inl err)
    then have "same_db S l l'" using Run_nil Run_failed Pair by (cases err) auto
    with Pair Inl show ?thesis by (intro failed) (simp_all add: redis_Claim_def)
  next
    case (Inr res)
    note run = Run_replied [OF Pair [unfolded Inr]]
    have "fst (redis_Claim R ck k l) = (if 0 \<le> rs_PTTL S (ck 0) k l then redis_view S l (ck 0) k else None)"
      using run by (auto simp: redis_Claim_def Pair Inr script_reply split: option.splits)
    with run Pair Inr show ?thesis by (intro ran) (simp_all add: redis_Claim_def)
  qed
qed

lemma SetNX_call:
  "fst (redis_SetNX R ck k v ttl l) \<and> fst (rs_SETNX S (ck 0) k v ttl l) \<and>
     same_db S (snd (rs_SETNX S (ck 0) k v ttl l)) (snd (redis_SetNX R ck k v ttl l)) \<or>
   \<not> fst (redis_SetNX R ck k v ttl l) \<and>
     (same_db S l (snd (redis_SetNX R ck k v ttl l)) \<or>
      same_db S (snd (rs_SETNX S (ck 0) k v ttl l)) (snd (redis_SetNX R ck k v ttl l)))"
proof (cases "rc_SetNX R ck k v ttl l")
  case (Pair r l')
  then show ?thesis
    using SetNX_failed [of ck k v ttl l _ l'] SetNX_replied [of ck k v ttl l _ l']
    by (cases r) (auto simp: redis_SetNX_def)
qed

lemma redis_claims_once: "claim_once (redisLockBackend R) (redis_tick S) (redis_view S) (\<lambda>_. True)"
proof unfold_locales
  fix l t k k' ck v and ttl :: duration
  assume "redis_view S l t k' = None" and "k' \<noteq> k"
  then show "redis_view S (snd (lb_SetNX (redisLockBackend R) ck k v ttl l)) t k' = None"
    using SetNX_call [of ck k v ttl l] SETNX_other [of k' k t "ck 0" v ttl l]
    by (auto simp: same_db_def redis_view_def)
next
  fix l t k k' ck
  assume "redis_view S l t k' = None"
  moreover have "snd (redis_Get R ck k l) = snd (rc_Get R ck k l)"
    by (simp add: redis_Get_def split: prod.split sum.split)
  ultimately show "redis_view S (snd (lb_Get (redisLockBackend R) ck k l)) t k' = None"
    by (simp add: same_view [OF Get_keeps])
next
  fix l t k k'
  assume none: "redis_view S l t k' = None"
  show "redis_view S (snd (lb_Del (redisLockBackend R) k l)) t k' = None"
  proof (cases "rc_Del R k l")
    case (Pair r l')
    with none show ?thesis
      using same_view [OF Del_failed [of k l _ l']] same_view [OF Del_replied [of k l _ l']]
      by (cases r) (auto simp: redis_Del_def redis_view_def GET_DEL)
  qed
next
  fix l t k k' and ck :: clock
  assume none: "redis_view S l t k' = None"
  show "redis_view S (snd (lb_Claim (redisLockBackend R) ck k l)) t k' = None"
    by (cases rule: claim_call [of ck k l]) (simp_all add: same_view script_view none)
next
  fix l v k and ck :: clock
  assume v: "fst (lb_Claim (redisLockBackend R) ck k l) = Some v"
  then show "redis_view S l (ck 0) k = Some v"
    by (cases rule: claim_call [of ck k l]) (simp_all split: if_splits)
  from v show "redis_view S (snd (lb_Claim (redisLockBackend R) ck k l)) t k = None" for t
    by (cases rule: claim_call [of ck k l])
      (simp_all add: same_view script_view script_reply split: if_splits)
qed (simp_all add: redis_tick_def, metis)

text \<open>
  A claim that Redis answers right after a lock was set returns its value within the lock time, and
  takes the key; a call that fails hands out nothing and changes nothing.
\<close>

lemma set_then_claim:
  assumes ttl: "0 < ttl" and set: "fst (redis_SetNX R ck k v ttl l)"
    and ok: "\<And>msg. fst (rc_Run R ck' claimLuaScript [k] (snd (redis_SetNX R ck k v ttl l))) \<noteq> Inl (Redis_Failure msg)"
    and t: "ck' 0 < ck 0 + ttl"
  shows "fst (redis_Claim R ck' k (snd (redis_SetNX R ck k v ttl l))) = Some v"
proof -
  let ?l = "snd (redis_SetNX R ck k v ttl l)"
  have b: "fst (rs_SETNX S (ck 0) k v ttl l)" and db: "same_db S (snd (rs_SETNX S (ck 0) k v ttl l)) ?l"
    using SetNX_call [of ck k v ttl l] set by auto
  have view: "redis_view S ?l (ck' 0) k = Some v" and p: "0 \<le> rs_PTTL S (ck' 0) k ?l"
    using SETNX_sets [OF ttl b, of "ck' 0"] SETNX_volatile [OF ttl b t] db t
    by (simp_all add: redis_view_def same_db_def)
  then have script: "fst (claim_script S (ck' 0) k ?l) = Reply_string v" by (simp add: script_reply)
  obtain r l' where run: "rc_Run R ck' claimLuaScript [k] ?l = (r, l')" by fastforce
  show ?thesis
  proof (cases r)
    case (Inl err)
    with run ok Run_nil [of ck' k ?l l'] script show ?thesis by (cases err) auto
  next
    case (Inr res)
    with run Run_replied [of ck' k ?l res l'] script have "res = Reply_string v" by simp
    with run Inr show ?thesis by (simp add: redis_Claim_def)
  qed
qed

lemma failed_claim:
  "rc_Run R ck claimLuaScript [k] l = (Inl err, l') \<Longrightarrow>
   fst (redis_Claim R ck k l) = None \<and> same_db S l (snd (redis_Claim R ck k l))"
  using Run_nil [of ck k l l'] Run_failed [of ck k l _ l'] by (cases err) (auto simp: redis_Claim_def)

lemma unexpiring_claim: "rs_PTTL S (ck 0) k l < 0 \<Longrightarrow> fst (redis_Claim R ck k l) = None"
  by (cases rule: claim_call [of ck k l]) simp_all

end

sublocale redis_laws \<subseteq> once: claim_once "redisLockBackend R" "redis_tick S" "redis_view S" "\<lambda>_. True"
  by (rule redis_claims_once)

section \<open>Properties\<close>


text \<open> A lock that Redis accepted can be claimed within its lock time when Redis answers, with the value
  that was set; a call that fails is answered as a lock that is not held, and a key without an expiry
  is never handed out, since the script requires one.
\<close>

lemma redis_claim_after_set:
  assumes "redis_laws R S"
  shows "(0 < ttl \<and> fst (redis_SetNX R ck k v ttl l) \<and> ck' 0 < ck 0 + ttl \<and>
      (\<forall>msg. fst (rc_Run R ck' claimLuaScript [k] (snd (redis_SetNX R ck k v ttl l))) \<noteq> Inl (Redis_Failure msg)) \<longrightarrow>
      fst (redis_Claim R ck' k (snd (redis_SetNX R ck k v ttl l))) = Some v) \<and>
    (\<forall>err l'. rc_Run R ck' claimLuaScript [k] l = (Inl err, l') \<longrightarrow>
      fst (redis_Claim R ck' k l) = None \<and> same_db S l (snd (redis_Claim R ck' k l))) \<and>
    (rs_PTTL S (ck' 0) k l < 0 \<longrightarrow> fst (redis_Claim R ck' k l) = None)"
  using redis_laws.set_then_claim [OF assms, of ttl ck k v l ck'] redis_laws.failed_claim [OF assms, of ck' k l]
    redis_laws.unexpiring_claim [OF assms, of ck' k l] by blast


section \<open>A concrete server\<close>

text \<open>
  A server with a map of values and optional expiries, reached over a network that loses the calls a
  list of outcomes says.
\<close>

record redis_db =
  db_keys :: "(string, string \<times> time option) gomap"
  db_net :: "bool list"

definition db_GET :: "time \<Rightarrow> string \<Rightarrow> redis_db \<Rightarrow> string option" where
  "db_GET t k l =
     (case map_of (db_keys l) k of
        None \<Rightarrow> None
      | Some (v, e) \<Rightarrow> (case e of None \<Rightarrow> Some v | Some e \<Rightarrow> if t < e then Some v else None))"

definition db_PTTL :: "time \<Rightarrow> string \<Rightarrow> redis_db \<Rightarrow> int" where
  "db_PTTL t k l =
     (case map_of (db_keys l) k of
        None \<Rightarrow> - 2
      | Some (v, e) \<Rightarrow> (case e of None \<Rightarrow> - 1 | Some e \<Rightarrow> if t < e then (e - t) div millisecond else - 2))"

definition db_DEL :: "string \<Rightarrow> redis_db \<Rightarrow> int \<times> redis_db" where
  "db_DEL k l = (if map_of (db_keys l) k = None then 0 else 1, l\<lparr>db_keys := AList.delete k (db_keys l)\<rparr>)"

definition db_SETNX :: "time \<Rightarrow> string \<Rightarrow> string \<Rightarrow> duration \<Rightarrow> redis_db \<Rightarrow> bool \<times> redis_db" where
  "db_SETNX now k v ttl l =
     (if db_GET now k l \<noteq> None then (False, l)
      else (True, l\<lparr>db_keys := AList.update k (v, if ttl = 0 then None else Some (now + ttl)) (db_keys l)\<rparr>))"

definition db_server :: "redis_db redis_server" where
  "db_server = \<lparr>rs_GET = db_GET, rs_PTTL = db_PTTL, rs_DEL = db_DEL, rs_SETNX = db_SETNX\<rparr>"

definition db_call :: "(redis_db \<Rightarrow> (redis_error + 'a) \<times> redis_db) \<Rightarrow> redis_db \<Rightarrow> (redis_error + 'a) \<times> redis_db" where
  "db_call f l =
     (case db_net l of
        [] \<Rightarrow> f l
      | up # net \<Rightarrow> if up then f (l\<lparr>db_net := net\<rparr>)
                    else (Inl (Redis_Failure ''i/o timeout''), l\<lparr>db_net := net\<rparr>))"

definition nil_error :: "redis_reply \<times> redis_db \<Rightarrow> (redis_error + redis_reply) \<times> redis_db" where
  "nil_error x = (if fst x = Reply_nil then Inl Redis_Nil else Inr (fst x), snd x)"

definition db_client :: "redis_db redis_client" where
  "db_client =
     \<lparr>rc_SetNX = \<lambda>ck k v ttl. db_call (\<lambda>l. apfst Inr (db_SETNX (ck 0) k v ttl l)),
      rc_Get = \<lambda>ck k. db_call (\<lambda>l. (case db_GET (ck 0) k l of None \<Rightarrow> Inl Redis_Nil | Some v \<Rightarrow> Inr v, l)),
      rc_Del = \<lambda>k. db_call (\<lambda>l. apfst Inr (db_DEL k l)),
      rc_Run = \<lambda>ck script keys. db_call (\<lambda>l.
        case keys of
          [k] \<Rightarrow> if script = claimLuaScript then nil_error (claim_script db_server (ck 0) k l) else (Inr Reply_other, l)
        | _ \<Rightarrow> (Inr Reply_other, l)),
      rc_Ping = \<lambda>l. if db_net l = [] \<or> hd (db_net l) then None else Some (Redis_Failure ''i/o timeout'')\<rparr>"

lemma db_server_simps [simp]:
  "rs_GET db_server = db_GET" "rs_PTTL db_server = db_PTTL" "rs_DEL db_server = db_DEL"
  "rs_SETNX db_server = db_SETNX"
  by (simp_all add: db_server_def)

lemma db_net_irrelevant [simp]:
  "db_GET t k (l\<lparr>db_net := net\<rparr>) = db_GET t k l" "db_PTTL t k (l\<lparr>db_net := net\<rparr>) = db_PTTL t k l"
  "snd (db_DEL k (l\<lparr>db_net := net\<rparr>)) = (snd (db_DEL k l))\<lparr>db_net := net\<rparr>"
  "fst (db_SETNX now k v ttl (l\<lparr>db_net := net\<rparr>)) = fst (db_SETNX now k v ttl l)"
  "db_keys (snd (db_SETNX now k v ttl (l\<lparr>db_net := net\<rparr>))) = db_keys (snd (db_SETNX now k v ttl l))"
  by (simp_all add: db_GET_def db_PTTL_def db_DEL_def db_SETNX_def)

lemma same_db_keys: "db_keys l' = db_keys l \<Longrightarrow> same_db db_server l l'"
  by (simp add: same_db_def db_GET_def db_PTTL_def)

lemma db_script_net:
  "fst (claim_script db_server now k (l\<lparr>db_net := net\<rparr>)) = fst (claim_script db_server now k l)"
  "db_keys (snd (claim_script db_server now k (l\<lparr>db_net := net\<rparr>))) = db_keys (snd (claim_script db_server now k l))"
  by (simp_all add: claim_script_def Let_def split: option.split)

lemma db_call_result:
  assumes "db_call f l = (r, l')"
  shows "r = Inl (Redis_Failure ''i/o timeout'') \<and> db_keys l' = db_keys l \<or>
    (\<exists>net. f (l\<lparr>db_net := net\<rparr>) = (r, l'))"
proof (cases "db_net l")
  case Nil
  then have same: "l\<lparr>db_net := []\<rparr> = l" by simp
  have "f l = (r, l')" using assms by (simp add: db_call_def Nil)
  then have "f (l\<lparr>db_net := []\<rparr>) = (r, l')" by (simp only: same)
  then show ?thesis by blast
next
  case (Cons up net)
  with assms show ?thesis by (cases up) (auto simp: db_call_def)
qed

lemma db_client_SetNX:
  assumes "rc_SetNX db_client ck k v ttl l = (r, l')"
  shows "case r of Inl err \<Rightarrow> same_db db_server l l'
    | Inr b \<Rightarrow> fst (db_SETNX (ck 0) k v ttl l) = b \<and> same_db db_server (snd (db_SETNX (ck 0) k v ttl l)) l'"
  using db_call_result [OF assms [unfolded db_client_def redis_client.select_convs]]
  by (auto simp: apfst_def map_prod_def split_def same_db_keys db_net_irrelevant(4,5))

lemma db_client_Get:
  assumes "rc_Get db_client ck k l = (r, l')"
  shows "same_db db_server l l' \<and> (\<forall>v. r = Inr v \<longrightarrow> db_GET (ck 0) k l = Some v)"
  using db_call_result [OF assms [unfolded db_client_def redis_client.select_convs]]
  by (auto simp: same_db_keys split: option.splits)

lemma db_client_Del:
  assumes "rc_Del db_client k l = (r, l')"
  shows "case r of Inl err \<Rightarrow> same_db db_server l l' | Inr n \<Rightarrow> same_db db_server (snd (db_DEL k l)) l'"
  using db_call_result [OF assms [unfolded db_client_def redis_client.select_convs]]
  by (auto simp: apfst_def map_prod_def split_def same_db_keys)

lemma db_client_Run:
  assumes "rc_Run db_client ck claimLuaScript [k] l = (r, l')"
  shows "case r of Inl Redis_Nil \<Rightarrow> fst (claim_script db_server (ck 0) k l) = Reply_nil \<and> same_db db_server l l'
    | Inl (Redis_Failure msg) \<Rightarrow> same_db db_server l l'
    | Inr res \<Rightarrow> fst (claim_script db_server (ck 0) k l) = res \<and> same_db db_server (snd (claim_script db_server (ck 0) k l)) l'"
proof -
  have nil: "snd (claim_script db_server t k l) = l" if "fst (claim_script db_server t k l) = Reply_nil" for t l
    using that by (auto simp: claim_script_def Let_def split: option.splits if_splits)
  consider "r = Inl (Redis_Failure ''i/o timeout'')" "db_keys l' = db_keys l"
    | net where "nil_error (claim_script db_server (ck 0) k (l\<lparr>db_net := net\<rparr>)) = (r, l')"
    using db_call_result [OF assms [unfolded db_client_def redis_client.select_convs]] by auto
  then show ?thesis
  proof cases
    case 1
    then show ?thesis by (simp add: same_db_keys)
  next
    case 2
    then show ?thesis
      using nil [of "ck 0" l] nil [of "ck 0" "l\<lparr>db_net := net\<rparr>"]
      by (auto simp: nil_error_def db_script_net intro!: same_db_keys split: if_splits)
  qed
qed

interpretation redis_db: redis_laws db_client db_server
proof unfold_locales
  fix t t' :: time and k k' v :: string and l l' :: redis_db and now ttl :: int and ck :: clock
    and b :: bool and err msg n res
  show "rs_GET db_server t k l = Some v \<Longrightarrow> t' \<le> t \<Longrightarrow> rs_GET db_server t' k l = Some v"
    by (auto simp: db_GET_def split: option.splits if_splits)
  show "rs_GET db_server t k' (snd (rs_DEL db_server k l)) = (if k' = k then None else rs_GET db_server t k' l)"
    by (simp add: db_GET_def db_DEL_def map_of_delete_if)
  show "k' \<noteq> k \<Longrightarrow> rs_GET db_server t k' (snd (rs_SETNX db_server now k v ttl l)) = rs_GET db_server t k' l"
    by (simp add: db_GET_def db_SETNX_def)
  show "fst (rs_SETNX db_server now k v ttl l) \<longleftrightarrow> rs_GET db_server now k l = None"
    by (simp add: db_SETNX_def)
  show "0 < ttl \<Longrightarrow> fst (rs_SETNX db_server now k v ttl l) \<Longrightarrow>
      rs_GET db_server t k (snd (rs_SETNX db_server now k v ttl l)) = (if t < now + ttl then Some v else None)"
    by (simp add: db_SETNX_def db_GET_def split: if_splits)
  show "0 < ttl \<Longrightarrow> fst (rs_SETNX db_server now k v ttl l) \<Longrightarrow> t < now + ttl \<Longrightarrow>
      0 \<le> rs_PTTL db_server t k (snd (rs_SETNX db_server now k v ttl l))"
    by (simp add: db_SETNX_def db_PTTL_def pos_imp_zdiv_nonneg_iff millisecond_def split: if_splits)
  show "same_db db_server l (snd (rc_Get db_client ck k l))"
    using db_client_Get [of ck k l] by (metis prod.collapse)
qed (auto dest: db_client_SetNX db_client_Get db_client_Del db_client_Run)

section \<open>Concrete instances\<close>

definition ex_redis :: "bool list \<Rightarrow> redis_db" where
  "ex_redis net = \<lparr>db_keys = [(''k'', (''v'', Some 1000))], db_net = net\<rparr>"




end
