(* ===== verification/Fee_Index.thy ===== *)
theory Fee_Index
  imports Quote_Store
begin

text \<open>
  \<open>internal/fee_index.go\<close>: the in-memory index of fee schedules by tier, asset and side, and its
  equivalence with a scan of the schedules.
\<close>

record feeIndexKey =
  fk_tier :: string
  fk_asset :: string
  fk_side :: string

record 'd feeIndex =
  fi_data :: "(feeIndexKey, 'd FeeSchedule list) gomap"

definition newFeeIndex :: "'d feeIndex" where
  "newFeeIndex = \<lparr>fi_data = []\<rparr>"

text \<open>Indexing a Go map of slices with an absent key gives the nil slice.\<close>

definition index_entry :: "(feeIndexKey, 'd FeeSchedule list) gomap \<Rightarrow> feeIndexKey \<Rightarrow> 'd FeeSchedule list" where
  "index_entry m k = (case map_of m k of None \<Rightarrow> [] | Some l \<Rightarrow> l)"

definition schedule_key :: "'d FeeSchedule \<Rightarrow> feeIndexKey" where
  "schedule_key s = \<lparr>fk_tier = fs_UserTier s, fk_asset = fs_Asset s, fk_side = fs_Side s\<rparr>"

fun Rebuild_loop ::
    "'d FeeSchedule list \<Rightarrow> (feeIndexKey, 'd FeeSchedule list) gomap \<Rightarrow>
     (feeIndexKey, 'd FeeSchedule list) gomap" where
  "Rebuild_loop [] m = m"
| "Rebuild_loop (s # ss) m =
     (if \<not> fs_Enabled s then Rebuild_loop ss m
      else Rebuild_loop ss
             (AList.update (schedule_key s) (index_entry m (schedule_key s) @ [s]) m))"

definition Rebuild :: "'d FeeSchedule list \<Rightarrow> 'd feeIndex \<Rightarrow> 'd feeIndex" where
  "Rebuild schedules f = f\<lparr>fi_data := Rebuild_loop schedules []\<rparr>"

fun Lookup_loop :: "'d decimal_ops \<Rightarrow> 'd \<Rightarrow> 'd FeeSchedule list \<Rightarrow> 'd FeeSchedule option" where
  "Lookup_loop D amount [] = None"
| "Lookup_loop D amount (s # ss) =
     (if dLessThan D amount (fs_SizeBandMin s) then Lookup_loop D amount ss
      else if dGreaterThan D (fs_SizeBandMax s) (dZero D) \<and> dGreaterThan D amount (fs_SizeBandMax s)
      then Lookup_loop D amount ss
      else Some s)"

definition Lookup ::
    "'d decimal_ops \<Rightarrow> string \<Rightarrow> string \<Rightarrow> string \<Rightarrow> 'd \<Rightarrow> 'd feeIndex \<Rightarrow> 'd FeeSchedule option" where
  "Lookup D tier asset side amount f =
     Lookup_loop D amount
       (index_entry (fi_data f) \<lparr>fk_tier = tier, fk_asset = asset, fk_side = side\<rparr>)"

definition feeIndex_Len :: "'d feeIndex \<Rightarrow> nat" where
  "feeIndex_Len f = sum_list (map (\<lambda>p. length (snd p)) (fi_data f))"

section \<open>The index is a scan\<close>

text \<open>A schedule applies to an amount in its size band; a maximum of zero or less is no maximum.\<close>

definition in_band :: "'d decimal_ops \<Rightarrow> 'd \<Rightarrow> 'd FeeSchedule \<Rightarrow> bool" where
  "in_band D amount s \<longleftrightarrow> \<not> dLessThan D amount (fs_SizeBandMin s) \<and>
     \<not> (dGreaterThan D (fs_SizeBandMax s) (dZero D) \<and> dGreaterThan D amount (fs_SizeBandMax s))"

definition applies :: "'d decimal_ops \<Rightarrow> string \<Rightarrow> string \<Rightarrow> string \<Rightarrow> 'd \<Rightarrow> 'd FeeSchedule \<Rightarrow> bool" where
  "applies D tier asset side amount s \<longleftrightarrow> fs_Enabled s \<and> fs_UserTier s = tier \<and> fs_Asset s = asset \<and>
     fs_Side s = side \<and> in_band D amount s"

lemma index_entry_Nil [simp]: "index_entry [] k = []"
  by (simp add: index_entry_def)

lemma find_filter: "find P (filter Q xs) = find (\<lambda>x. Q x \<and> P x) xs"
  by (induction xs) auto

lemma Lookup_loop_find: "Lookup_loop D amount ss = find (in_band D amount) ss"
  by (induction ss) (auto simp: in_band_def)

lemma Rebuild_loop_entry:
  "index_entry (Rebuild_loop ss m) k =
     index_entry m k @ filter (\<lambda>s. fs_Enabled s \<and> schedule_key s = k) ss"
proof (induction ss arbitrary: m)
  case (Cons s ss)
  have "index_entry (AList.update k' l m) k = (if k = k' then l else index_entry m k)" for k' l
    by (simp add: index_entry_def)
  with Cons.IH show ?case by auto
qed simp

lemma Lookup_Rebuild:
  "Lookup D tier asset side amount (Rebuild ss f) = find (applies D tier asset side amount) ss"
proof -
  have "(\<lambda>s. (fs_Enabled s \<and> schedule_key s = \<lparr>fk_tier = tier, fk_asset = asset, fk_side = side\<rparr>) \<and>
      in_band D amount s) = applies D tier asset side amount"
    by (auto simp: applies_def schedule_key_def fun_eq_iff)
  then show ?thesis
    by (simp add: Lookup_def Rebuild_def Lookup_loop_find Rebuild_loop_entry find_filter)
qed

lemma sum_list_alist_update:
  assumes "wf_map m"
  shows "sum_list (map (\<lambda>p. length (snd p)) (AList.update k (index_entry m k @ [s]) m)) =
    Suc (sum_list (map (\<lambda>p. length (snd p)) m))"
  using assms
  by (induction m) (auto simp: index_entry_def wf_map_def)

lemma Rebuild_loop_Len:
  assumes "wf_map m"
  shows "sum_list (map (\<lambda>p. length (snd p)) (Rebuild_loop ss m)) =
    sum_list (map (\<lambda>p. length (snd p)) m) + length (filter fs_Enabled ss)"
  using assms by (induction ss arbitrary: m) (auto simp: sum_list_alist_update wf_map_update)


end
