(* ===== verification/Pricer.thy ===== *)
theory Pricer
  imports Fee_Index Spot_Service
begin

text \<open>
  \<open>internal/pricer.go\<close> and the cross-pair quote of \<open>internal/fx.go\<close>: the effective rate, spread,
  fee, total and crypto amount of a quote. A division by zero makes the decimal package panic; a
  computation that can panic has an \<open>option\<close> result, \<open>None\<close> for the panic.
\<close>

section \<open>Operations\<close>

text \<open>
  The pricer's own state. The fx client is external: a lookup that returns the fiat-to-USD rate and
  the hedge cost in basis points, or \<open>None\<close> for an error.
\<close>

type_synonym fx_client = "string \<Rightarrow> (rat \<times> int) option"

record 'd Pricer =
  pr_defaultSpreadBPS :: int
  pr_index :: "'d feeIndex"
  pr_fx :: "fx_client option"

definition NewPricer :: "'d Store \<Rightarrow> int \<Rightarrow> 'd Pricer" where
  "NewPricer st defaultSpreadBPS =
     \<lparr>pr_defaultSpreadBPS = defaultSpreadBPS,
      pr_index = Rebuild (FeeSchedules st) newFeeIndex, pr_fx = None\<rparr>"

definition SetFXClient :: "fx_client \<Rightarrow> 'd Pricer \<Rightarrow> 'd Pricer" where
  "SetFXClient fx p = p\<lparr>pr_fx := Some fx\<rparr>"

definition ReloadIndex :: "'d Store \<Rightarrow> 'd Pricer \<Rightarrow> metrics \<Rightarrow> 'd Pricer \<times> metrics" where
  "ReloadIndex st p m =
     (let idx = Rebuild (FeeSchedules st) (pr_index p)
      in (p\<lparr>pr_index := idx\<rparr>, m\<lparr>m_loadedSchedules := int (feeIndex_Len idx)\<rparr>))"

record 'd ComputeResult =
  cr_Rate :: 'd
  cr_Spot :: 'd
  cr_SpreadBPS :: int
  cr_Fee :: 'd
  cr_Total :: 'd
  cr_CryptoAmount :: 'd
  cr_SourceVenue :: string

datatype compute_error = SpotErr spot_error | ErrBadRate

fun matchSchedule_loop ::
    "'d decimal_ops \<Rightarrow> string \<Rightarrow> string \<Rightarrow> string \<Rightarrow> 'd \<Rightarrow> 'd FeeSchedule list \<Rightarrow> 'd FeeSchedule option" where
  "matchSchedule_loop D tier asset side amount [] = None"
| "matchSchedule_loop D tier asset side amount (s # ss) =
     (if \<not> fs_Enabled s then matchSchedule_loop D tier asset side amount ss
      else if fs_UserTier s \<noteq> tier then matchSchedule_loop D tier asset side amount ss
      else if fs_Asset s \<noteq> asset then matchSchedule_loop D tier asset side amount ss
      else if fs_Side s \<noteq> [] \<and> fs_Side s \<noteq> side then matchSchedule_loop D tier asset side amount ss
      else if dLessThan D amount (fs_SizeBandMin s) \<or>
              (dGreaterThan D (fs_SizeBandMax s) (dZero D) \<and> dGreaterThan D amount (fs_SizeBandMax s))
      then matchSchedule_loop D tier asset side amount ss
      else Some s)"

definition matchSchedule ::
    "'d decimal_ops \<Rightarrow> 'd Pricer \<Rightarrow> 'd Store \<Rightarrow> string \<Rightarrow> string \<Rightarrow> string \<Rightarrow> 'd \<Rightarrow> 'd FeeSchedule option" where
  "matchSchedule D p st tier asset side amount =
     (case Lookup D tier asset side amount (pr_index p) of
        Some s \<Rightarrow> Some s
      | None \<Rightarrow> matchSchedule_loop D tier asset side amount (FeeSchedules st))"

definition computeFee :: "'d decimal_ops \<Rightarrow> 'd FeeSchedule option \<Rightarrow> 'd \<Rightarrow> 'd option" where
  "computeFee D sched base =
     (case sched of
        None \<Rightarrow> Some (dZero D)
      | Some s \<Rightarrow>
          if fs_FeeType s = ''FLAT'' then Some (fs_FeeAmount s)
          else if fs_FeeType s = ''BPS''
          then dDiv D (dMul D base (dNewFromInt D (fs_FeeBPS s))) (dNewFromInt D 10000)
          else Some (dZero D))"

definition round_dec :: "'d decimal_ops \<Rightarrow> 'd \<Rightarrow> int \<Rightarrow> 'd option" where
  "round_dec D v places =
     (let pow = dPow D (dNewFromInt D 10) (dNewFromInt D places)
      in dDiv D (dRound D (dMul D v pow) 0) pow)"

text \<open>The switch on the side: rate, fee, total and crypto amount before rounding.\<close>

definition price ::
    "'d decimal_ops \<Rightarrow> 'd FeeSchedule option \<Rightarrow> 'd \<Rightarrow> 'd \<Rightarrow> 'd \<Rightarrow> string \<Rightarrow> ('d \<times> 'd \<times> 'd \<times> 'd) option" where
  "price D sched spot spread amount side =
     (if side = ''BUY'' then
        (let rate = dMul D spot (dAdd D (dNewFromInt D 1) spread) in
         do { fee \<leftarrow> computeFee D sched amount;
              cryptoAmount \<leftarrow> dDiv D amount rate;
              Some (rate, fee, dAdd D amount fee, cryptoAmount) })
      else if side = ''SELL'' then
        (let rate = dMul D spot (dSub D (dNewFromInt D 1) spread); total = dZeroValue D in
         do { fee \<leftarrow> computeFee D sched total;
              Some (rate, fee, dSub D (dMul D amount rate) fee, amount) })
      else Some (dZeroValue D, dZeroValue D, dZeroValue D, dZeroValue D))"

text \<open>The middle of the book, from bid and ask where the mid is not positive.\<close>

definition spot_of_rate :: "'d decimal_ops \<Rightarrow> 'd Rate \<Rightarrow> 'd option" where
  "spot_of_rate D r =
     (if dLessThanOrEqual D (r_Mid r) (dZero D)
      then map_option (\<lambda>h. dAdd D (r_Bid r) h)
             (dDiv D (dSub D (r_Ask r) (r_Bid r)) (dNewFromInt D 2))
      else Some (r_Mid r))"

text \<open>\<open>Compute\<close> from the spot rate on.\<close>

definition compute_from_rate ::
    "'d decimal_ops \<Rightarrow> 'd Pricer \<Rightarrow> 'd Store \<Rightarrow> 'd Rate \<Rightarrow> string \<Rightarrow> 'd \<Rightarrow> string \<Rightarrow> string \<Rightarrow>
     (compute_error + 'd ComputeResult) option" where
  "compute_from_rate D p st r to amount userTier side =
     (let sched = matchSchedule D p st userTier to side amount;
          spreadBPS = (case sched of Some s \<Rightarrow> fs_SpreadBPS s | None \<Rightarrow> pr_defaultSpreadBPS p)
      in do { spot \<leftarrow> spot_of_rate D r;
              if dLessThanOrEqual D spot (dZero D) then Some (Inl ErrBadRate)
              else do {
                spread \<leftarrow> dDiv D (dNewFromInt D spreadBPS) (dNewFromInt D 10000);
                (rate, fee, tot, cryptoAmount) \<leftarrow> price D sched spot spread amount side;
                fee8 \<leftarrow> round_dec D fee 8;
                total8 \<leftarrow> round_dec D tot 8;
                crypto8 \<leftarrow> round_dec D cryptoAmount 8;
                Some (Inr \<lparr>cr_Rate = rate, cr_Spot = spot, cr_SpreadBPS = spreadBPS, cr_Fee = fee8,
                  cr_Total = total8, cr_CryptoAmount = crypto8, cr_SourceVenue = r_SourceVenue r\<rparr>) } })"

definition Compute ::
    "'d decimal_ops \<Rightarrow> clock \<Rightarrow> 'd poll_hook \<Rightarrow> 'd Pricer \<Rightarrow> 'd Store \<Rightarrow>
     string \<Rightarrow> string \<Rightarrow> 'd \<Rightarrow> string \<Rightarrow> string \<Rightarrow> 'd SpotService \<Rightarrow> metrics \<Rightarrow>
     (compute_error + 'd ComputeResult) option \<times> 'd SpotService \<times> metrics" where
  "Compute D ck hook p st from to amount userTier side s m =
     (case Get D ck hook from to s m of
        (Inl e, s', m') \<Rightarrow> (Some (Inl (SpotErr e)), s', m')
      | (Inr r, s', m') \<Rightarrow> (compute_from_rate D p st r to amount userTier side, s', m'))"

text \<open>The second half of \<open>CrossPairQuote\<close>: the fiat leg applied to the USD result.\<close>

definition cross_leg ::
    "'d decimal_ops \<Rightarrow> 'd ComputeResult \<Rightarrow> rat \<Rightarrow> int \<Rightarrow> 'd \<Rightarrow> string \<Rightarrow> 'd ComputeResult option" where
  "cross_leg D usdRes fxRate hedgeBPS amount side =
     (let fxRateDec = dNewFromFloat D fxRate in
      do { rate \<leftarrow> dDiv D (cr_Rate usdRes) fxRateDec;
           spot \<leftarrow> dDiv D (cr_Spot usdRes) fxRateDec;
           if 0 < hedgeBPS then do {
             spread \<leftarrow> dDiv D (dNewFromInt D (wrap64 (cr_SpreadBPS usdRes + hedgeBPS))) (dNewFromInt D 10000);
             (rate', total', crypto') \<leftarrow>
               (if side = ''BUY'' then
                  (let rt = dMul D spot (dAdd D (dNewFromInt D 1) spread)
                   in map_option (\<lambda>c. (rt, cr_Total usdRes, c)) (dDiv D amount rt))
                else if side = ''SELL'' then
                  (let rt = dMul D spot (dSub D (dNewFromInt D 1) spread)
                   in Some (rt, dSub D (dMul D amount rt) (cr_Fee usdRes), cr_CryptoAmount usdRes))
                else Some (rate, cr_Total usdRes, cr_CryptoAmount usdRes));
             total8 \<leftarrow> round_dec D total' 8;
             crypto8 \<leftarrow> round_dec D crypto' 8;
             Some (usdRes\<lparr>cr_Rate := rate', cr_Spot := spot,
                          cr_SpreadBPS := wrap64 (cr_SpreadBPS usdRes + hedgeBPS),
                          cr_Total := total8, cr_CryptoAmount := crypto8\<rparr>) }
           else Some (usdRes\<lparr>cr_Rate := rate, cr_Spot := spot\<rparr>) })"

definition CrossPairQuote ::
    "'d decimal_ops \<Rightarrow> clock \<Rightarrow> 'd poll_hook \<Rightarrow> 'd Pricer \<Rightarrow> 'd Store \<Rightarrow>
     string \<Rightarrow> string \<Rightarrow> 'd \<Rightarrow> string \<Rightarrow> string \<Rightarrow> 'd SpotService \<Rightarrow> metrics \<Rightarrow>
     (compute_error + 'd ComputeResult) option \<times> 'd SpotService \<times> metrics" where
  "CrossPairQuote D ck hook p st from to amount userTier side s m =
     (case pr_fx p of
        None \<Rightarrow> Compute D ck hook p st from to amount userTier side s m
      | Some fx \<Rightarrow>
          if from = ''USD'' then Compute D ck hook p st from to amount userTier side s m
          else case fx from of
                 None \<Rightarrow> Compute D ck hook p st from to amount userTier side s m
               | Some (fxRate, hedgeBPS) \<Rightarrow>
                   (case Compute D ck hook p st ''USD'' to amount userTier side s m of
                      (Some (Inr usdRes), s', m') \<Rightarrow>
                        (map_option Inr (cross_leg D usdRes fxRate hedgeBPS amount side), s', m')
                    | (res, s', m') \<Rightarrow> (res, s', m')))"

section \<open>Choice of the schedule\<close>

text \<open>A schedule with an empty side applies to both sides.\<close>

definition applies_any_side ::
    "'d decimal_ops \<Rightarrow> string \<Rightarrow> string \<Rightarrow> string \<Rightarrow> 'd \<Rightarrow> 'd FeeSchedule \<Rightarrow> bool" where
  "applies_any_side D tier asset side amount s \<longleftrightarrow> fs_Enabled s \<and> fs_UserTier s = tier \<and>
     fs_Asset s = asset \<and> (fs_Side s = [] \<or> fs_Side s = side) \<and> in_band D amount s"

lemma matchSchedule_loop_find:
  "matchSchedule_loop D tier asset side amount ss = find (applies_any_side D tier asset side amount) ss"
  by (induction ss) (auto simp: applies_any_side_def in_band_def)

definition index_in_sync :: "'d Pricer \<Rightarrow> 'd Store \<Rightarrow> bool" where
  "index_in_sync p st \<longleftrightarrow> (\<exists>f. pr_index p = Rebuild (FeeSchedules st) f)"

lemma index_in_sync_New: "index_in_sync (NewPricer st b) st"
  by (auto simp: index_in_sync_def NewPricer_def)

lemma index_in_sync_Reload: "index_in_sync (fst (ReloadIndex st p m)) st"
  by (auto simp: index_in_sync_def ReloadIndex_def Let_def)

text \<open> With an index rebuilt from the store's schedules, the schedule of a quote is the first enabled
  one of the exact side whose band holds the amount, and only if there is none the first one of
  either side; none is chosen exactly if no schedule applies.
\<close>

lemma matchSchedule_exact_side_first:
  assumes "index_in_sync p st"
  shows "matchSchedule D p st tier asset side amount =
    (case find (applies D tier asset side amount) (FeeSchedules st) of
       Some s \<Rightarrow> Some s
     | None \<Rightarrow> find (applies_any_side D tier asset side amount) (FeeSchedules st)) \<and>
    (matchSchedule D p st tier asset side amount = None \<longleftrightarrow>
      (\<forall>s \<in> set (FeeSchedules st). \<not> applies_any_side D tier asset side amount s))"
proof -
  have "matchSchedule D p st tier asset side amount =
    (case find (applies D tier asset side amount) (FeeSchedules st) of
       Some s \<Rightarrow> Some s
     | None \<Rightarrow> find (applies_any_side D tier asset side amount) (FeeSchedules st))"
    using assms
    by (auto simp: matchSchedule_def index_in_sync_def Lookup_Rebuild matchSchedule_loop_find
        split: option.split)
  moreover have "applies D tier asset side amount s \<Longrightarrow> applies_any_side D tier asset side amount s" for s
    by (simp add: applies_def applies_any_side_def)
  ultimately show ?thesis
    by (auto simp: find_None_iff split: option.splits dest!: find_SomeD)
qed

section \<open>The values computed\<close>

text \<open>The exact values the code approximates, in rationals.\<close>

definition fee_value :: "('d \<Rightarrow> rat) \<Rightarrow> 'd FeeSchedule option \<Rightarrow> rat \<Rightarrow> rat" where
  "fee_value val sched base =
     (case sched of
        None \<Rightarrow> 0
      | Some s \<Rightarrow>
          if fs_FeeType s = ''FLAT'' then val (fs_FeeAmount s)
          else if fs_FeeType s = ''BPS'' then round_places 16 (base * of_int (fs_FeeBPS s) / 10000)
          else 0)"

definition spot_value :: "('d \<Rightarrow> rat) \<Rightarrow> 'd Rate \<Rightarrow> rat" where
  "spot_value val r =
     (if val (r_Mid r) \<le> 0 then val (r_Bid r) + round_places 16 ((val (r_Ask r) - val (r_Bid r)) / 2)
      else val (r_Mid r))"

definition spread_for :: "'d decimal_ops \<Rightarrow> 'd Pricer \<Rightarrow> 'd Store \<Rightarrow> string \<Rightarrow> string \<Rightarrow> string \<Rightarrow> 'd \<Rightarrow> int" where
  "spread_for D p st tier asset side amount =
     (case matchSchedule D p st tier asset side amount of
        Some s \<Rightarrow> fs_SpreadBPS s | None \<Rightarrow> pr_defaultSpreadBPS p)"

text \<open>A result with the given exact values, the amounts rounded to 8 places.\<close>

definition priced ::
    "('d \<Rightarrow> rat) \<Rightarrow> rat \<Rightarrow> rat \<Rightarrow> int \<Rightarrow> rat \<Rightarrow> rat \<Rightarrow> rat \<Rightarrow> 'd ComputeResult \<Rightarrow> bool" where
  "priced val spot rate b fee tot crypto res \<longleftrightarrow>
     val (cr_Spot res) = spot \<and> val (cr_Rate res) = rate \<and> cr_SpreadBPS res = b \<and>
     val (cr_Fee res) = round_places 8 fee \<and> val (cr_Total res) = round_places 8 tot \<and>
     val (cr_CryptoAmount res) = round_places 8 crypto"

lemma rate_zero_iff:
  fixes x :: rat
  assumes "0 < x"
  shows "x * (1 + of_int b / 10000) = 0 \<longleftrightarrow> b = - 10000"
proof -
  have "x * (1 + of_int b / 10000) = 0 \<longleftrightarrow> 1 + of_int b / 10000 = (0 :: rat)"
    using assms by simp
  also have "\<dots> \<longleftrightarrow> (of_int b :: rat) = of_int (- 10000)"
    by simp linarith
  finally show ?thesis by (simp only: of_int_eq_iff)
qed

context decimal_laws
begin

lemma round_dec_8: "\<exists>q. round_dec D v 8 = Some q \<and> val q = round_places 8 (val v)"
proof -
  let ?pow = "dPow D (dNewFromInt D 10) (dNewFromInt D 8)"
  have pow: "val ?pow = 10 ^ 8"
    using val_Pow [of "dNewFromInt D 8" 8 "dNewFromInt D 10"] by (simp add: val_NewFromInt)
  let ?n = "round_away (val v * 10 ^ 8)"
  have num: "val (dRound D (dMul D v ?pow) 0) = of_int ?n"
    by (simp add: val_Round val_Mul pow round_places_def)
  have "val (dRound D (dMul D v ?pow) 0) / val ?pow * 10 ^ 16 = of_int (?n * 10 ^ 8)"
    unfolding num pow by simp
  moreover have "val ?pow \<noteq> 0" by (simp add: pow)
  ultimately show ?thesis
    using Div_exact [of ?pow "dRound D (dMul D v ?pow) 0" "?n * 10 ^ 8"]
    by (simp add: round_dec_def Let_def num pow round_places_def)
qed

lemma computeFee_val: "\<exists>f. computeFee D sched base = Some f \<and> val f = fee_value val sched (val base)"
proof -
  have "val (dNewFromInt D 10000) \<noteq> 0" by (simp add: val_NewFromInt)
  from Div_Some [OF this]
  have "\<exists>f. dDiv D (dMul D base (dNewFromInt D n)) (dNewFromInt D 10000) = Some f \<and>
      val f = round_places 16 (val base * of_int n / 10000)" for n
    by (metis val_Mul val_NewFromInt of_int_numeral)
  then show ?thesis
    by (simp add: computeFee_def fee_value_def val_Zero split: option.split)
qed

lemma spot_of_rate_val: "\<exists>q. spot_of_rate D r = Some q \<and> val q = spot_value val r"
proof -
  have "val (dNewFromInt D 2) \<noteq> 0" by (simp add: val_NewFromInt)
  from Div_Some [OF this, of "dSub D (r_Ask r) (r_Bid r)"]
  obtain h where "dDiv D (dSub D (r_Ask r) (r_Bid r)) (dNewFromInt D 2) = Some h"
    and "val h = round_places 16 ((val (r_Ask r) - val (r_Bid r)) / 2)"
    by (auto simp: val_simps)
  then show ?thesis by (simp add: spot_of_rate_def spot_value_def val_simps)
qed

text \<open>\<open>compute_from_rate\<close> on each side.\<close>

lemma compute_bad_rate:
  assumes "spot_value val r \<le> 0"
  shows "compute_from_rate D p st r to amount tier side = Some (Inl ErrBadRate)"
proof -
  obtain q where "spot_of_rate D r = Some q" and "val q = spot_value val r"
    using spot_of_rate_val by blast
  with assms show ?thesis by (simp add: compute_from_rate_def Let_def val_simps)
qed

lemma compute_step:
  assumes "0 < spot_value val r"
  shows "\<exists>q sp. val q = spot_value val r \<and> val sp = of_int (spread_for D p st tier to side amount) / 10000 \<and>
    spot_of_rate D r = Some q \<and>
    dDiv D (dNewFromInt D (spread_for D p st tier to side amount)) (dNewFromInt D 10000) = Some sp \<and>
    compute_from_rate D p st r to amount tier side =
      do { (rate, fee, tot, cryptoAmount) \<leftarrow>
             price D (matchSchedule D p st tier to side amount) q sp amount side;
           fee8 \<leftarrow> round_dec D fee 8; total8 \<leftarrow> round_dec D tot 8;
           crypto8 \<leftarrow> round_dec D cryptoAmount 8;
           Some (Inr \<lparr>cr_Rate = rate, cr_Spot = q,
             cr_SpreadBPS = spread_for D p st tier to side amount, cr_Fee = fee8,
             cr_Total = total8, cr_CryptoAmount = crypto8, cr_SourceVenue = r_SourceVenue r\<rparr>) }"
proof -
  obtain q where q: "spot_of_rate D r = Some q" "val q = spot_value val r"
    using spot_of_rate_val by blast
  obtain sp where sp: "dDiv D (dNewFromInt D (spread_for D p st tier to side amount)) (dNewFromInt D 10000) = Some sp"
    "val sp = of_int (spread_for D p st tier to side amount) / 10000"
    using Div_bps by blast
  from assms q have pos: "\<not> dLessThanOrEqual D q (dZero D)" by (simp add: val_simps)
  show ?thesis
    unfolding compute_from_rate_def Let_def spread_for_def [symmetric] q(1)
    by (intro exI [of _ q] exI [of _ sp]) (simp add: q sp pos)
qed

lemma round_results:
  "\<exists>res. do { fee8 \<leftarrow> round_dec D fee 8; total8 \<leftarrow> round_dec D tot 8;
           crypto8 \<leftarrow> round_dec D cryptoAmount 8;
           Some (Inr \<lparr>cr_Rate = rate, cr_Spot = q, cr_SpreadBPS = b, cr_Fee = fee8,
             cr_Total = total8, cr_CryptoAmount = crypto8, cr_SourceVenue = v\<rparr>) } =
       Some (Inr res) \<and>
     priced val (val q) (val rate) b (val fee) (val tot) (val cryptoAmount) res \<and>
     cr_SourceVenue res = v"
proof -
  obtain f8 where f: "round_dec D fee 8 = Some f8" "val f8 = round_places 8 (val fee)"
    using round_dec_8 by blast
  obtain t8 where t: "round_dec D tot 8 = Some t8" "val t8 = round_places 8 (val tot)"
    using round_dec_8 by blast
  obtain c8 where c: "round_dec D cryptoAmount 8 = Some c8" "val c8 = round_places 8 (val cryptoAmount)"
    using round_dec_8 by blast
  show ?thesis by (simp add: f t c priced_def)
qed

lemma compute_BUY:
  fixes tier to amount p st r
  defines "b \<equiv> spread_for D p st tier to ''BUY'' amount"
    and "fee \<equiv> fee_value val (matchSchedule D p st tier to ''BUY'' amount) (val amount)"
    and "rate \<equiv> spot_value val r * (1 + of_int (spread_for D p st tier to ''BUY'' amount) / 10000)"
  assumes sv: "0 < spot_value val r"
  shows "if b = - 10000 then compute_from_rate D p st r to amount tier ''BUY'' = None
    else \<exists>res. compute_from_rate D p st r to amount tier ''BUY'' = Some (Inr res) \<and>
      priced val (spot_value val r) rate b fee (val amount + fee)
        (round_places 16 (val amount / rate)) res \<and>
      cr_SourceVenue res = r_SourceVenue r"
proof -
  obtain q sp where q: "val q = spot_value val r" and sp: "val sp = of_int b / 10000"
    and comp: "compute_from_rate D p st r to amount tier ''BUY'' =
      do { (rate, fee, tot, cryptoAmount) \<leftarrow>
             price D (matchSchedule D p st tier to ''BUY'' amount) q sp amount ''BUY'';
           fee8 \<leftarrow> round_dec D fee 8; total8 \<leftarrow> round_dec D tot 8;
           crypto8 \<leftarrow> round_dec D cryptoAmount 8;
           Some (Inr \<lparr>cr_Rate = rate, cr_Spot = q, cr_SpreadBPS = b, cr_Fee = fee8,
             cr_Total = total8, cr_CryptoAmount = crypto8, cr_SourceVenue = r_SourceVenue r\<rparr>) }"
    using compute_step [OF sv, of p st tier to "''BUY''" amount] unfolding b_def by blast
  obtain f where f: "computeFee D (matchSchedule D p st tier to ''BUY'' amount) amount = Some f"
    "val f = fee"
    using computeFee_val unfolding fee_def by blast
  define rt where "rt = dMul D q (dAdd D (dNewFromInt D 1) sp)"
  have rt: "val rt = rate" by (simp add: rt_def val_simps q sp rate_def b_def)
  have zero: "val rt = 0 \<longleftrightarrow> b = - 10000"
    unfolding rt rate_def b_def by (rule rate_zero_iff [OF sv])
  have pr: "price D (matchSchedule D p st tier to ''BUY'' amount) q sp amount ''BUY'' =
      map_option (\<lambda>c. (rt, f, dAdd D amount f, c)) (dDiv D amount rt)"
    by (simp add: price_def f rt_def Let_def map_conv_bind_option comp_def)
  show ?thesis
  proof (cases "b = - 10000")
    case True
    with zero have "dDiv D amount rt = None" by (simp add: Div_zero)
    with True show ?thesis by (simp add: comp pr)
  next
    case False
    with zero Div_Some [of rt amount] obtain c where c: "dDiv D amount rt = Some c"
      "val c = round_places 16 (val amount / rate)" by (auto simp: rt)
    from round_results [of f "dAdd D amount f" c rt q b "r_SourceVenue r"] False show ?thesis
      by (simp add: comp pr c rt q f val_simps)
  qed
qed

lemma compute_SELL:
  fixes tier to amount p st r
  defines "b \<equiv> spread_for D p st tier to ''SELL'' amount"
    and "fee \<equiv> fee_value val (matchSchedule D p st tier to ''SELL'' amount) 0"
    and "rate \<equiv> spot_value val r * (1 - of_int (spread_for D p st tier to ''SELL'' amount) / 10000)"
  assumes sv: "0 < spot_value val r"
  shows "\<exists>res. compute_from_rate D p st r to amount tier ''SELL'' = Some (Inr res) \<and>
      priced val (spot_value val r) rate b fee (val amount * rate - fee) (val amount) res \<and>
      cr_SourceVenue res = r_SourceVenue r"
proof -
  obtain q sp where q: "val q = spot_value val r" and sp: "val sp = of_int b / 10000"
    and comp: "compute_from_rate D p st r to amount tier ''SELL'' =
      do { (rate, fee, tot, cryptoAmount) \<leftarrow>
             price D (matchSchedule D p st tier to ''SELL'' amount) q sp amount ''SELL'';
           fee8 \<leftarrow> round_dec D fee 8; total8 \<leftarrow> round_dec D tot 8;
           crypto8 \<leftarrow> round_dec D cryptoAmount 8;
           Some (Inr \<lparr>cr_Rate = rate, cr_Spot = q, cr_SpreadBPS = b, cr_Fee = fee8,
             cr_Total = total8, cr_CryptoAmount = crypto8, cr_SourceVenue = r_SourceVenue r\<rparr>) }"
    using compute_step [OF sv, of p st tier to "''SELL''" amount] unfolding b_def by blast
  obtain f where f: "computeFee D (matchSchedule D p st tier to ''SELL'' amount) (dZeroValue D) = Some f"
    "val f = fee"
    using computeFee_val [of _ "dZeroValue D"] unfolding fee_def val_ZeroValue by blast
  define rt where "rt = dMul D q (dSub D (dNewFromInt D 1) sp)"
  have rt: "val rt = rate" by (simp add: rt_def val_simps q sp rate_def b_def)
  have pr: "price D (matchSchedule D p st tier to ''SELL'' amount) q sp amount ''SELL'' =
      Some (rt, f, dSub D (dMul D amount rt) f, amount)"
    by (simp add: price_def f rt_def Let_def)
  from round_results [of f "dSub D (dMul D amount rt) f" amount rt q b "r_SourceVenue r"]
  show ?thesis by (simp add: comp pr rt q f val_simps)
qed

end

lemma Compute_of_Get:
  assumes "fst (Get D ck hook from to s m) = Inr r"
  shows "Compute D ck hook p st from to amount tier side s m =
    (compute_from_rate D p st r to amount tier side, snd (Get D ck hook from to s m))"
  using assms by (cases "Get D ck hook from to s m") (simp add: Compute_def)

text \<open>
  (C8) A BUY quote at a positive spot rate: the rate is spot plus the spread, the fee and total are
  those of the fiat amount, the crypto amount is the fiat amount over the rate, each amount rounded to
  8 places; the call panics exactly for a spread of -10000 basis points, where the rate is zero.
\<close>

theorem Compute_BUY_values:
  fixes D p st tier to amount val r
  defines "b \<equiv> spread_for D p st tier to ''BUY'' amount"
    and "fee \<equiv> fee_value val (matchSchedule D p st tier to ''BUY'' amount) (val amount)"
    and "rate \<equiv> spot_value val r * (1 + of_int (spread_for D p st tier to ''BUY'' amount) / 10000)"
  assumes D: "decimal_laws D val" and r: "fst (Get D ck hook from to s m) = Inr r"
    and spot: "0 < spot_value val r"
  shows "if b = - 10000 then fst (Compute D ck hook p st from to amount tier ''BUY'' s m) = None
    else \<exists>res. fst (Compute D ck hook p st from to amount tier ''BUY'' s m) = Some (Inr res) \<and>
      priced val (spot_value val r) rate b fee (val amount + fee)
        (round_places 16 (val amount / rate)) res \<and>
      cr_SourceVenue res = r_SourceVenue r"
  using decimal_laws.compute_BUY [OF D spot] unfolding assms(1-3) Compute_of_Get [OF r] fst_conv .

text \<open>
  (C29) A SELL quote at a positive spot rate never panics: the rate is spot less the spread, the crypto
  amount is the amount asked, and the fee is that of a total of zero, so a BPS schedule charges nothing:
  the customer gets the amount at the rate without a deduction.
\<close>

theorem Compute_SELL_values:
  fixes D p st tier to amount val r
  defines "sched \<equiv> matchSchedule D p st tier to ''SELL'' amount"
    and "b \<equiv> spread_for D p st tier to ''SELL'' amount"
    and "rate \<equiv> spot_value val r * (1 - of_int (spread_for D p st tier to ''SELL'' amount) / 10000)"
  assumes D: "decimal_laws D val" and r: "fst (Get D ck hook from to s m) = Inr r"
    and spot: "0 < spot_value val r"
  shows "\<exists>res. fst (Compute D ck hook p st from to amount tier ''SELL'' s m) = Some (Inr res) \<and>
      priced val (spot_value val r) rate b (fee_value val sched 0)
        (val amount * rate - fee_value val sched 0) (val amount) res \<and>
      (\<forall>sc. sched = Some sc \<and> fs_FeeType sc = ''BPS'' \<longrightarrow>
        val (cr_Fee res) = 0 \<and> val (cr_Total res) = round_places 8 (val amount * rate))"
proof -
  obtain res where res: "compute_from_rate D p st r to amount tier ''SELL'' = Some (Inr res)"
    and pr: "priced val (spot_value val r) rate b (fee_value val sched 0)
        (val amount * rate - fee_value val sched 0) (val amount) res"
    using decimal_laws.compute_SELL [OF D spot] unfolding assms(1-3) by blast
  have "fee_value val sched 0 = 0" if "sched = Some sc" "fs_FeeType sc = ''BPS''" for sc
    using that by (simp add: fee_value_def round_places_exact [of 0 _ 0])
  moreover have "round_places 8 0 = 0" by (simp add: round_places_exact [of 0 _ 0])
  ultimately show ?thesis
    using res pr by (auto simp: Compute_of_Get [OF r] priced_def)
qed

lemma round_twice_le: "round_places 8 (round_places 16 x) \<le> x + 1 / 10 ^ 8"
  using abs_le_D1 [OF round_places_error [of 8 "round_places 16 x"]]
    abs_le_D1 [OF round_places_error [of 16 x]]
  by simp

lemma buy_never_favours_customer:
  assumes D: "decimal_laws D val" and spot: "0 < spot_value val r" and amount: "0 \<le> val amount"
    and b: "0 \<le> spread_for D p st tier to ''BUY'' amount"
    and comp: "compute_from_rate D p st r to amount tier ''BUY'' = Some (Inr res)"
  shows "val (cr_Spot res) \<le> val (cr_Rate res)"
    and "val (cr_CryptoAmount res) \<le> val amount / val (cr_Spot res) + 1 / 10 ^ 8"
proof -
  let ?S = "spot_value val r" and ?f = "of_int (spread_for D p st tier to ''BUY'' amount) / 10000 :: rat"
  have f: "0 \<le> ?f" and neq: "spread_for D p st tier to ''BUY'' amount \<noteq> - 10000" using b by auto
  have v: "val (cr_Spot res) = ?S" "val (cr_Rate res) = ?S * (1 + ?f)"
    "val (cr_CryptoAmount res) = round_places 8 (round_places 16 (val amount / (?S * (1 + ?f))))"
    using decimal_laws.compute_BUY [OF D spot, where p = p and st = st and tier = tier and to = to and amount = amount] neq comp
    by (auto simp: priced_def)
  have le: "?S \<le> ?S * (1 + ?f)" using spot f by (simp add: mult_le_cancel_left1)
  show "val (cr_Spot res) \<le> val (cr_Rate res)" unfolding v by (rule le)
  have "val amount / (?S * (1 + ?f)) \<le> val amount / ?S"
    using le spot amount by (intro divide_left_mono) simp_all
  with round_twice_le [of "val amount / (?S * (1 + ?f))"]
  show "val (cr_CryptoAmount res) \<le> val amount / val (cr_Spot res) + 1 / 10 ^ 8"
    unfolding v by linarith
qed

lemma sell_never_favours_customer:
  assumes D: "decimal_laws D val" and spot: "0 < spot_value val r" and amount: "0 \<le> val amount"
    and b: "0 \<le> spread_for D p st tier to ''SELL'' amount"
    and comp: "compute_from_rate D p st r to amount tier ''SELL'' = Some (Inr res)"
  shows "val (cr_Rate res) \<le> val (cr_Spot res)"
    and "val (cr_Total res) \<le> val amount * val (cr_Spot res) - val (cr_Fee res) + 1 / 10 ^ 8"
proof -
  let ?S = "spot_value val r" and ?f = "of_int (spread_for D p st tier to ''SELL'' amount) / 10000 :: rat"
  let ?fee = "fee_value val (matchSchedule D p st tier to ''SELL'' amount) 0"
  have f: "0 \<le> ?f" using b by simp
  have v: "val (cr_Spot res) = ?S" "val (cr_Rate res) = ?S * (1 - ?f)"
    "val (cr_Fee res) = round_places 8 ?fee"
    "val (cr_Total res) = round_places 8 (val amount * (?S * (1 - ?f)) - ?fee)"
    using decimal_laws.compute_SELL [OF D spot, where p = p and st = st and tier = tier and to = to and amount = amount] comp
    by (auto simp: priced_def)
  have le: "?S * (1 - ?f) \<le> ?S" using spot f by (simp add: mult_le_cancel_left2)
  show "val (cr_Rate res) \<le> val (cr_Spot res)" unfolding v by (rule le)
  have "val amount * (?S * (1 - ?f)) \<le> val amount * ?S"
    using le amount by (rule mult_left_mono)
  with abs_le_D1 [OF round_places_error [of 8 "val amount * (?S * (1 - ?f)) - ?fee"]]
    abs_le_D1 [OF round_places_error [of 8 ?fee]]
  show "val (cr_Total res) \<le> val amount * val (cr_Spot res) - val (cr_Fee res) + 1 / 10 ^ 8"
    unfolding v by simp
qed

text \<open>
  (C9) A spread of at least zero never favours the customer. A BUY is at or above the spot rate and
  yields at most the amount's worth of crypto at the spot rate; a SELL is at or below the spot rate and
  yields at most the crypto's worth at the spot rate less the fee; in both cases up to the rounding of
  an amount, less than one unit of the eighth place.
\<close>

theorem spread_never_favours_customer:
  assumes D: "decimal_laws D val" and r: "fst (Get D ck hook from to s m) = Inr r"
    and spot: "0 < spot_value val r" and amount: "0 \<le> val amount"
    and b: "0 \<le> spread_for D p st tier to side amount"
    and res: "fst (Compute D ck hook p st from to amount tier side s m) = Some (Inr res)"
  shows "(side = ''BUY'' \<longrightarrow> val (cr_Spot res) \<le> val (cr_Rate res) \<and>
      val (cr_CryptoAmount res) \<le> val amount / val (cr_Spot res) + 1 / 10 ^ 8) \<and>
    (side = ''SELL'' \<longrightarrow> val (cr_Rate res) \<le> val (cr_Spot res) \<and>
      val (cr_Total res) \<le> val amount * val (cr_Spot res) - val (cr_Fee res) + 1 / 10 ^ 8)"
proof -
  have comp: "compute_from_rate D p st r to amount tier side = Some (Inr res)"
    using res by (simp add: Compute_of_Get [OF r])
  show ?thesis
  proof (intro conjI impI)
    assume "side = ''BUY''"
    then show "val (cr_Spot res) \<le> val (cr_Rate res)"
      and "val (cr_CryptoAmount res) \<le> val amount / val (cr_Spot res) + 1 / 10 ^ 8"
      using buy_never_favours_customer [OF D spot amount] b comp by simp_all
  next
    assume "side = ''SELL''"
    then show "val (cr_Rate res) \<le> val (cr_Spot res)"
      and "val (cr_Total res) \<le> val amount * val (cr_Spot res) - val (cr_Fee res) + 1 / 10 ^ 8"
      using sell_never_favours_customer [OF D spot amount] b comp by simp_all
  qed
qed

text \<open>
  A cross-pair quote without hedge cost: rate and spot are the USD ones over the fiat rate, but the
  crypto amount, fee and total are those of the USD quote for the same number.
\<close>

lemma cross_leg_unhedged:
  assumes D: "decimal_laws D val" and h: "hedgeBPS \<le> 0"
  shows "(val (dNewFromFloat D fxRate) = 0 \<longrightarrow> cross_leg D usdRes fxRate hedgeBPS amount side = None) \<and>
    (val (dNewFromFloat D fxRate) \<noteq> 0 \<longrightarrow>
      (\<exists>res. cross_leg D usdRes fxRate hedgeBPS amount side = Some res \<and>
        val (cr_Rate res) = round_places 16 (val (cr_Rate usdRes) / val (dNewFromFloat D fxRate)) \<and>
        val (cr_Spot res) = round_places 16 (val (cr_Spot usdRes) / val (dNewFromFloat D fxRate)) \<and>
        cr_SpreadBPS res = cr_SpreadBPS usdRes \<and> cr_Fee res = cr_Fee usdRes \<and>
        cr_Total res = cr_Total usdRes \<and> cr_CryptoAmount res = cr_CryptoAmount usdRes))"
proof (intro conjI impI)
  let ?fx = "dNewFromFloat D fxRate"
  show "cross_leg D usdRes fxRate hedgeBPS amount side = None" if "val ?fx = 0"
    using decimal_laws.Div_zero [OF D that] by (simp add: cross_leg_def)
  assume "val ?fx \<noteq> 0"
  then obtain rt sp where "dDiv D (cr_Rate usdRes) ?fx = Some rt" "dDiv D (cr_Spot usdRes) ?fx = Some sp"
    "val rt = round_places 16 (val (cr_Rate usdRes) / val ?fx)"
    "val sp = round_places 16 (val (cr_Spot usdRes) / val ?fx)"
    using decimal_laws.Div_Some [OF D] by metis
  with h show "\<exists>res. cross_leg D usdRes fxRate hedgeBPS amount side = Some res \<and>
        val (cr_Rate res) = round_places 16 (val (cr_Rate usdRes) / val ?fx) \<and>
        val (cr_Spot res) = round_places 16 (val (cr_Spot usdRes) / val ?fx) \<and>
        cr_SpreadBPS res = cr_SpreadBPS usdRes \<and> cr_Fee res = cr_Fee usdRes \<and>
        cr_Total res = cr_Total usdRes \<and> cr_CryptoAmount res = cr_CryptoAmount usdRes"
    by (simp add: cross_leg_def)
qed

section \<open>Concrete instances\<close>

text \<open>A BPS schedule of 100 basis points for either side of BTC with a spread of 50, over the live
  rate of 70000.\<close>

definition ex_schedule :: "dec10 FeeSchedule" where
  "ex_schedule = \<lparr>fs_ID = 1, fs_UserTier = ''T1'', fs_Asset = ''BTC'', fs_SizeBandMin = (0, 0),
     fs_SizeBandMax = (0, 0), fs_Side = [], fs_SpreadBPS = 50, fs_FeeType = ''BPS'',
     fs_FeeAmount = (0, 0), fs_FeeBPS = 100, fs_Enabled = True, fs_UpdatedAt = 0\<rparr>"

definition ex_fees :: "dec10 Store" where
  "ex_fees = SetFeeSchedules [ex_schedule] NewStore"

definition ex_pricer :: "dec10 Pricer" where
  "ex_pricer = NewPricer ex_fees 100"

lemma ex_match:
  "matchSchedule dec10_ops ex_pricer ex_fees ''T1'' ''BTC'' ''BUY'' (100, 0) = Some ex_schedule"
  "matchSchedule dec10_ops ex_pricer ex_fees ''T1'' ''BTC'' ''SELL'' (100, 0) = Some ex_schedule"
  by code_simp+

lemma ex_spread:
  "spread_for dec10_ops ex_pricer ex_fees ''T1'' ''BTC'' ''BUY'' (100, 0) = 50"
  "spread_for dec10_ops ex_pricer ex_fees ''T1'' ''BTC'' ''SELL'' (100, 0) = 50"
  by (simp_all add: spread_for_def ex_match) (simp_all add: ex_schedule_def)

lemma ex_live_Get:
  "fst (Get dec10_ops (\<lambda>_. 250) None ''USD'' ''BTC'' ex_live newMetrics) = Inr (ex_rate ''BTC'' 70000 5)"
  by (simp add: Get_value [OF ex_spot_inv(2)] pairKey_def ex_live_cached ex_maxStaleAge)
    (simp add: ex_rate_def)

lemma ex_live_spot: "spot_value dec10_val (ex_rate ''BTC'' 70000 5) = 70000"
  by (simp add: spot_value_def ex_rate_def dec10_val_def)


theorem Compute_BUY_values_witness:
  "\<exists>res. fst (Compute dec10_ops (\<lambda>_. 250) None ex_pricer ex_fees ''USD'' ''BTC'' (100, 0) ''T1''
      ''BUY'' ex_live newMetrics) = Some (Inr res) \<and>
    dec10_val (cr_Rate res) = 70350 \<and> dec10_val (cr_Fee res) = round_places 8 (round_places 16 1)"
proof -
  have "fee_value dec10_val (Some ex_schedule) (dec10_val (100, 0)) = round_places 16 1"
    by (simp add: fee_value_def ex_schedule_def dec10_val_def)
  then show ?thesis
    using Compute_BUY_values [OF dec10.decimal_laws_axioms ex_live_Get, where p = ex_pricer and
        st = ex_fees and tier = "''T1''" and amount = "(100, 0)"]
    by (auto simp: ex_live_spot ex_spread ex_match priced_def)
qed

theorem Compute_SELL_values_witness:
  "\<exists>res. fst (Compute dec10_ops (\<lambda>_. 250) None ex_pricer ex_fees ''USD'' ''BTC'' (100, 0) ''T1''
      ''SELL'' ex_live newMetrics) = Some (Inr res) \<and>
    dec10_val (cr_Rate res) = 69650 \<and> dec10_val (cr_Fee res) = 0 \<and> fs_FeeBPS ex_schedule = 100"
proof -
  have "fs_FeeType ex_schedule = ''BPS''" "fs_FeeBPS ex_schedule = 100" by (simp_all add: ex_schedule_def)
  then show ?thesis
    using Compute_SELL_values [OF dec10.decimal_laws_axioms ex_live_Get, where p = ex_pricer and
        st = ex_fees and tier = "''T1''" and amount = "(100, 0)"]
    by (auto simp: ex_live_spot ex_spread ex_match priced_def)
qed

theorem spread_never_favours_customer_witness:
  "\<exists>res. fst (Compute dec10_ops (\<lambda>_. 250) None ex_pricer ex_fees ''USD'' ''BTC'' (100, 0) ''T1''
      ''BUY'' ex_live newMetrics) = Some (Inr res) \<and>
    dec10_val (cr_CryptoAmount res) \<le> 100 / dec10_val (cr_Spot res) + 1 / 10 ^ 8"
proof -
  have "\<exists>res. fst (Compute dec10_ops (\<lambda>_. 250) None ex_pricer ex_fees ''USD'' ''BTC'' (100, 0) ''T1''
      ''BUY'' ex_live newMetrics) = Some (Inr res)"
    using decimal_laws.compute_BUY [OF dec10.decimal_laws_axioms, where r = "ex_rate ''BTC'' 70000 5" and
        p = ex_pricer and st = ex_fees and tier = "''T1''" and to = "''BTC''" and amount = "(100, 0)"]
    by (auto simp: Compute_of_Get [OF ex_live_Get] ex_live_spot ex_spread)
  then obtain res where res: "fst (Compute dec10_ops (\<lambda>_. 250) None ex_pricer ex_fees ''USD'' ''BTC''
      (100, 0) ''T1'' ''BUY'' ex_live newMetrics) = Some (Inr res)" ..
  show ?thesis
    using spread_never_favours_customer [OF dec10.decimal_laws_axioms ex_live_Get _ _ _ res] res
    by (simp add: ex_live_spot ex_spread dec10_val_def)
qed

end
