(* ===== verification/Json_Text.thy ===== *)
theory Json_Text
  imports Go_Json
begin

text \<open>
  The text syntax of \<open>encoding/json\<close>: the text \<open>Encoder\<close> writes for a value, and the reading of a text by
  \<open>Unmarshal\<close> (the whole text) and by \<open>Decoder\<close> (its first value). Values are read back as they were
  written, except that strings come back as UTF-8.
\<close>

section \<open>Writing\<close>

text \<open>
  The digits of a \<open>float64\<close> are an argument: the source marshals no such value. An object is written in the
  order of its members.
\<close>

fun json_text :: "(rat \<Rightarrow> string) \<Rightarrow> json \<Rightarrow> string"
  and json_elems_text :: "(rat \<Rightarrow> string) \<Rightarrow> json list \<Rightarrow> string"
  and json_members_text :: "(rat \<Rightarrow> string) \<Rightarrow> (string \<times> json) list \<Rightarrow> string" where
  "json_text fl JNull = ''null''"
| "json_text fl (JBool b) = (if b then ''true'' else ''false'')"
| "json_text fl (JInt n) = show_int n"
| "json_text fl (JFloat x) = fl x"
| "json_text fl (JStr s) = json_string s"
| "json_text fl (JArr []) = ''[]''"
| "json_text fl (JArr (j # js)) = ''['' @ json_text fl j @ json_elems_text fl js"
| "json_text fl (JObj []) = ''{}''"
| "json_text fl (JObj ((k, j) # kjs)) = ''{'' @ json_string k @ '':'' @ json_text fl j @ json_members_text fl kjs"
| "json_elems_text fl [] = '']''"
| "json_elems_text fl (j # js) = '','' @ json_text fl j @ json_elems_text fl js"
| "json_members_text fl [] = ''}''"
| "json_members_text fl ((k, j) # kjs) = '','' @ json_string k @ '':'' @ json_text fl j @ json_members_text fl kjs"

section \<open>Reading strings\<close>

definition hex_value :: "char \<Rightarrow> nat option" where
  "hex_value c =
     (let n = byte_at c in
      if 48 \<le> n \<and> n < 58 then Some (n - 48)
      else if 97 \<le> n \<and> n < 103 then Some (n - 87)
      else if 65 \<le> n \<and> n < 71 then Some (n - 55) else None)"

text \<open>Four hexadecimal digits at the front of a text.\<close>

definition hex4 :: "string \<Rightarrow> nat option" where
  "hex4 s =
     (case map hex_value (take 4 s) of
        [Some a, Some b, Some c, Some d] \<Rightarrow> Some (a * 4096 + b * 256 + c * 16 + d)
      | _ \<Rightarrow> None)"

text \<open>The low half of a surrogate pair, as an escape of its own.\<close>

definition low_surrogate :: "string \<Rightarrow> nat option" where
  "low_surrogate s =
     (if take 2 s = [CHR 0x5C, CHR ''u'']
      then (case hex4 (drop 2 s) of
              None \<Rightarrow> None
            | Some v \<Rightarrow> if 56320 \<le> v \<and> v < 57344 then Some v else None)
      else None)"

definition unicode_escape :: "string \<Rightarrow> (string \<times> nat) option" where
  "unicode_escape s =
     (case hex4 s of
        None \<Rightarrow> None
      | Some u \<Rightarrow>
          if u < 55296 \<or> 57344 \<le> u then Some (encode_rune u, 4)
          else if u < 56320 then
            (case low_surrogate (drop 4 s) of
               Some v \<Rightarrow> Some (encode_rune (65536 + (u - 55296) * 1024 + (v - 56320)), 10)
             | None \<Rightarrow> Some (encode_rune rune_error, 4))
          else Some (encode_rune rune_error, 4))"

text \<open>What follows a backslash: the text it stands for, and its length.\<close>

definition scan_escape :: "string \<Rightarrow> (string \<times> nat) option" where
  "scan_escape s =
     (case s of
        [] \<Rightarrow> None
      | e # s' \<Rightarrow>
          if e = CHR 0x22 \<or> e = CHR 0x5C \<or> e = CHR ''/'' then Some ([e], 1)
          else if e = CHR ''b'' then Some ([CHR 0x08], 1)
          else if e = CHR ''f'' then Some ([CHR 0x0C], 1)
          else if e = CHR ''n'' then Some ([CHR 0x0A], 1)
          else if e = CHR ''r'' then Some ([CHR 0x0D], 1)
          else if e = CHR ''t'' then Some ([CHR 0x09], 1)
          else if e = CHR ''u'' then map_option (apsnd Suc) (unicode_escape s')
          else None)"

text \<open>After the opening quote: the string, and what follows the closing quote.\<close>

function scan_string :: "string \<Rightarrow> (string \<times> string) option" where
  "scan_string [] = None"
| "scan_string (c # s) =
     (if c = CHR 0x22 then Some ([], s)
      else if c = CHR 0x5C then
        (case scan_escape s of
           None \<Rightarrow> None
         | Some (u, k) \<Rightarrow> map_option (apfst (append u)) (scan_string (drop k s)))
      else if byte_at c < 32 then None
      else (case next_rune c s of (r, k) \<Rightarrow> map_option (apfst (append (encode_rune r))) (scan_string (drop k s))))"
  by pat_completeness auto
termination by (relation "measure length") auto

section \<open>Reading numbers\<close>

definition is_digit :: "char \<Rightarrow> bool" where "is_digit c \<longleftrightarrow> char_digit c \<noteq> None"

text \<open>One digit or more.\<close>

definition scan_digits :: "string \<Rightarrow> (nat \<times> nat \<times> string) option" where
  "scan_digits s =
     (case read_nat (takeWhile is_digit s) of
        None \<Rightarrow> None
      | Some n \<Rightarrow> Some (n, length (takeWhile is_digit s), dropWhile is_digit s))"

definition scan_sign :: "string \<Rightarrow> bool \<times> string" where
  "scan_sign s = (case s of c # s' \<Rightarrow> if c = CHR ''-'' then (True, s') else (False, s) | [] \<Rightarrow> (False, s))"

text \<open>The integer part has no leading zero.\<close>

definition scan_integer :: "string \<Rightarrow> (nat \<times> string) option" where
  "scan_integer s =
     (case s of
        c # s' \<Rightarrow>
          if c = CHR ''0'' then Some (0, s') else map_option (\<lambda>(n, l, s''). (n, s'')) (scan_digits s)
      | [] \<Rightarrow> None)"

definition scan_fraction :: "string \<Rightarrow> (rat option \<times> string) option" where
  "scan_fraction s =
     (case s of
        c # s' \<Rightarrow>
          if c = CHR ''.'' then map_option (\<lambda>(n, l, s''). (Some (of_nat n / 10 ^ l), s'')) (scan_digits s')
          else Some (None, s)
      | [] \<Rightarrow> Some (None, s))"

definition scan_exponent :: "string \<Rightarrow> (rat option \<times> string) option" where
  "scan_exponent s =
     (case s of
        c # s' \<Rightarrow>
          if c = CHR ''e'' \<or> c = CHR ''E'' then
            (case s' of
               d # s'' \<Rightarrow>
                 if d = CHR ''-'' then map_option (\<lambda>(n, l, t). (Some (1 / 10 ^ n), t)) (scan_digits s'')
                 else map_option (\<lambda>(n, l, t). (Some (10 ^ n), t)) (scan_digits (if d = CHR ''+'' then s'' else s'))
             | [] \<Rightarrow> None)
          else Some (None, s)
      | [] \<Rightarrow> Some (None, s))"

text \<open>
  A literal without fraction and exponent is an integer. Other literals have their exact value; the rounding to
  a \<open>float64\<close> is not modelled.
\<close>

definition signed :: "bool \<Rightarrow> 'a :: uminus \<Rightarrow> 'a" where "signed neg x = (if neg then - x else x)"

definition scan_number :: "string \<Rightarrow> (json \<times> string) option" where
  "scan_number s =
     (case scan_sign s of (neg, s1) \<Rightarrow>
       (case scan_integer s1 of
          None \<Rightarrow> None
        | Some (n, s2) \<Rightarrow>
            (case scan_fraction s2 of
               None \<Rightarrow> None
             | Some (f, s3) \<Rightarrow>
                 (case scan_exponent s3 of
                    None \<Rightarrow> None
                  | Some (e, s4) \<Rightarrow>
                      if f = None \<and> e = None then Some (JInt (signed neg (int n)), s4)
                      else Some (JFloat (signed neg ((of_nat n + (case f of None \<Rightarrow> 0 | Some x \<Rightarrow> x)) *
                             (case e of None \<Rightarrow> 1 | Some x \<Rightarrow> x))), s4)))))"

section \<open>Reading values\<close>

definition json_space :: "char \<Rightarrow> bool" where
  "json_space c \<longleftrightarrow> c = CHR '' '' \<or> c = CHR 0x09 \<or> c = CHR 0x0D \<or> c = CHR 0x0A"

definition skip_space :: "string \<Rightarrow> string" where "skip_space = dropWhile json_space"

definition scan_literal :: "string \<Rightarrow> (json \<times> string) option" where
  "scan_literal s =
     (if HasPrefix s ''null'' then Some (JNull, drop 4 s)
      else if HasPrefix s ''true'' then Some (JBool True, drop 4 s)
      else if HasPrefix s ''false'' then Some (JBool False, drop 5 s)
      else None)"

text \<open>The key of a member and its colon, the value of which follows.\<close>

definition scan_key :: "string \<Rightarrow> (string \<times> string) option" where
  "scan_key s =
     (case s of
        c # s1 \<Rightarrow>
          if c = CHR 0x22 then
            (case scan_string s1 of
               None \<Rightarrow> None
             | Some (k, s2) \<Rightarrow>
                 (case skip_space s2 of
                    d # s3 \<Rightarrow> if d = CHR '':'' then Some (k, skip_space s3) else None
                  | [] \<Rightarrow> None))
          else None
      | [] \<Rightarrow> None)"

definition max_depth :: nat where "max_depth = 10000"

text \<open>
  A value at the front of a text, at nesting depth \<open>d\<close>; the elements or members after the first one of an
  array or object. Each step uses up fuel and at least one byte, so that as much fuel as bytes is enough.
\<close>

fun scan_value :: "nat \<Rightarrow> nat \<Rightarrow> string \<Rightarrow> (json \<times> string) option"
  and scan_elems :: "nat \<Rightarrow> nat \<Rightarrow> string \<Rightarrow> (json list \<times> string) option"
  and scan_members :: "nat \<Rightarrow> nat \<Rightarrow> string \<Rightarrow> ((string \<times> json) list \<times> string) option" where
  "scan_value 0 d s = None"
| "scan_value (Suc n) d s =
     (case s of
        [] \<Rightarrow> None
      | c # s1 \<Rightarrow>
          if c = CHR 0x22 then map_option (apfst JStr) (scan_string s1)
          else if c = CHR ''['' then
            (if max_depth \<le> d then None
             else if skip_space s1 \<noteq> [] \<and> hd (skip_space s1) = CHR '']'' then Some (JArr [], tl (skip_space s1))
             else (case scan_value n (Suc d) (skip_space s1) of
                     None \<Rightarrow> None
                   | Some (j, s2) \<Rightarrow> map_option (apfst (\<lambda>js. JArr (j # js))) (scan_elems n (Suc d) (skip_space s2))))
          else if c = CHR ''{'' then
            (if max_depth \<le> d then None
             else if skip_space s1 \<noteq> [] \<and> hd (skip_space s1) = CHR ''}'' then Some (JObj [], tl (skip_space s1))
             else (case scan_key (skip_space s1) of
                     None \<Rightarrow> None
                   | Some (k, s2) \<Rightarrow>
                       (case scan_value n (Suc d) s2 of
                          None \<Rightarrow> None
                        | Some (j, s3) \<Rightarrow>
                            map_option (apfst (\<lambda>kjs. JObj ((k, j) # kjs))) (scan_members n (Suc d) (skip_space s3)))))
          else if c = CHR ''-'' \<or> is_digit c then scan_number s
          else scan_literal s)"
| "scan_elems 0 d s = None"
| "scan_elems (Suc n) d s =
     (case s of
        [] \<Rightarrow> None
      | c # s1 \<Rightarrow>
          if c = CHR '']'' then Some ([], s1)
          else if c = CHR '','' then
            (case scan_value n d (skip_space s1) of
               None \<Rightarrow> None
             | Some (j, s2) \<Rightarrow> map_option (apfst (Cons j)) (scan_elems n d (skip_space s2)))
          else None)"
| "scan_members 0 d s = None"
| "scan_members (Suc n) d s =
     (case s of
        [] \<Rightarrow> None
      | c # s1 \<Rightarrow>
          if c = CHR ''}'' then Some ([], s1)
          else if c = CHR '','' then
            (case scan_key (skip_space s1) of
               None \<Rightarrow> None
             | Some (k, s2) \<Rightarrow>
                 (case scan_value n d s2 of
                    None \<Rightarrow> None
                  | Some (j, s3) \<Rightarrow> map_option (apfst (Cons (k, j))) (scan_members n d (skip_space s3))))
          else None)"

text \<open>\<open>Unmarshal\<close> takes a text that is one value and white space.\<close>

definition json_first :: "string \<Rightarrow> (json \<times> string) option" where
  "json_first s = scan_value (Suc (length s)) 0 (skip_space s)"

definition json_document :: "string \<Rightarrow> json option" where
  "json_document s =
     (case json_first s of
        None \<Rightarrow> None
      | Some (j, rest) \<Rightarrow> if skip_space rest = [] then Some j else None)"

text \<open>
  A \<open>Decoder\<close> takes the first value of what a reader gives before the error \<open>err\<close>. A value that is not an
  object or an array ends where the next byte, or the end of the input, shows it.
\<close>

definition self_delimiting :: "json \<Rightarrow> bool" where
  "self_delimiting j = (case j of JArr js \<Rightarrow> True | JObj kjs \<Rightarrow> True | _ \<Rightarrow> False)"

definition decoder_first :: "string \<Rightarrow> string \<Rightarrow> json option" where
  "decoder_first s err =
     (case json_first s of
        None \<Rightarrow> None
      | Some (j, rest) \<Rightarrow> if self_delimiting j \<or> rest \<noteq> [] \<or> err = ''EOF'' then Some j else None)"

section \<open>Fuel\<close>

lemma map_option_apfst_eq_Some [simp]:
  "map_option (apfst f) x = Some (y, r) \<longleftrightarrow> (\<exists>z. x = Some (z, r) \<and> y = f z)"
  by (cases x) auto

lemma skip_space_length: "length (skip_space s) \<le> length s"
  by (simp add: skip_space_def length_dropWhile_le)

lemma scan_string_shorter: "scan_string s = Some (u, r) \<Longrightarrow> length r < length s"
proof (induction s arbitrary: u rule: scan_string.induct)
  case (2 c s)
  show ?case
  proof (cases "c = CHR 0x22 \<or> c = CHR 0x5C")
    case True
    with 2 show ?thesis by (fastforce split: if_splits option.splits prod.splits)
  next
    case False
    obtain q k where rk: "next_rune c s = (q, k)" by fastforce
    with False 2 show ?thesis by (fastforce split: if_splits)
  qed
qed simp

lemma scan_digits_shorter: "scan_digits s = Some (n, l, r) \<Longrightarrow> length r < length s"
proof -
  assume a: "scan_digits s = Some (n, l, r)"
  then have "takeWhile is_digit s \<noteq> []" by (auto simp: scan_digits_def read_nat_def split: option.splits)
  moreover have "length (takeWhile is_digit s) + length (dropWhile is_digit s) = length s"
    by (metis length_append takeWhile_dropWhile_id)
  ultimately have "length (dropWhile is_digit s) < length s" by (metis length_greater_0_conv less_add_same_cancel2)
  then show ?thesis using a by (auto simp: scan_digits_def split: option.splits)
qed

lemma scan_number_shorter: "scan_number s = Some (j, r) \<Longrightarrow> length r < length s"
proof -
  assume a: "scan_number s = Some (j, r)"
  obtain neg s1 where s1: "scan_sign s = (neg, s1)" by fastforce
  with a obtain n s2 where s2: "scan_integer s1 = Some (n, s2)" by (auto simp: scan_number_def split: option.splits)
  with a s1 obtain f s3 where s3: "scan_fraction s2 = Some (f, s3)" by (auto simp: scan_number_def split: option.splits)
  with a s1 s2 obtain e where s4: "scan_exponent s3 = Some (e, r)"
    by (auto simp: scan_number_def split: option.splits if_splits)
  have "length r \<le> length s3" using s4 scan_digits_shorter
    by (fastforce simp: scan_exponent_def split: list.splits if_splits)
  moreover have "length s3 \<le> length s2" using s3 scan_digits_shorter
    by (fastforce simp: scan_fraction_def split: list.splits if_splits)
  moreover have "length s2 < length s1" using s2 scan_digits_shorter
    by (fastforce simp: scan_integer_def split: list.splits if_splits)
  moreover have "length s1 \<le> length s" using s1 by (auto simp: scan_sign_def split: list.splits if_splits)
  ultimately show ?thesis by simp
qed

lemma scan_literal_shorter: "scan_literal s = Some (j, r) \<Longrightarrow> length r < length s"
  by (auto simp: scan_literal_def HasPrefix_def split: if_splits) (cases s; simp)+

lemma scan_key_shorter:
  assumes "scan_key s = Some (k, r)"
  shows "length r < length s"
proof -
  from assms obtain s1 s2 s3 where "s = CHR 0x22 # s1" "scan_string s1 = Some (k, s2)" "skip_space s2 = CHR '':'' # s3"
    "r = skip_space s3"
    by (auto simp: scan_key_def split: list.splits if_splits option.splits)
  with scan_string_shorter [of s1 k s2] skip_space_length [of s2] skip_space_length [of s3] show ?thesis by simp
qed

lemma tl_skip_space: "skip_space s \<noteq> [] \<Longrightarrow> length (tl (skip_space s)) \<le> length s"
  using skip_space_length [of s] by simp

lemma scan_value_string: "scan_value (Suc n) d (CHR 0x22 # s) = map_option (apfst JStr) (scan_string s)"
  by simp

lemma scan_value_scalar:
  "c \<noteq> CHR 0x22 \<Longrightarrow> c \<noteq> CHR ''['' \<Longrightarrow> c \<noteq> CHR ''{'' \<Longrightarrow>
   scan_value (Suc n) d (c # s) = (if c = CHR ''-'' \<or> is_digit c then scan_number (c # s) else scan_literal (c # s))"
  by simp

lemma scan_value_array:
  assumes "scan_value (Suc n) d (CHR ''['' # s) = Some (j, r)"
  obtains "skip_space s \<noteq> []" "r = tl (skip_space s)"
    | j1 s2 js where "scan_value n (Suc d) (skip_space s) = Some (j1, s2)" "scan_elems n (Suc d) (skip_space s2) = Some (js, r)"
  using assms by (auto split: if_splits option.splits)

lemma scan_value_object:
  assumes "scan_value (Suc n) d (CHR ''{'' # s) = Some (j, r)"
  obtains "skip_space s \<noteq> []" "r = tl (skip_space s)"
    | k s2 j1 s3 kjs where "scan_key (skip_space s) = Some (k, s2)" "scan_value n (Suc d) s2 = Some (j1, s3)"
        "scan_members n (Suc d) (skip_space s3) = Some (kjs, r)"
  using assms by (auto split: if_splits option.splits)

lemma scan_elems_Some:
  assumes "scan_elems (Suc n) d (c # s) = Some (js, r)"
  obtains "r = s" | j s2 js' where "scan_value n d (skip_space s) = Some (j, s2)" "scan_elems n d (skip_space s2) = Some (js', r)"
  using assms by (auto split: if_splits option.splits)

lemma scan_members_Some:
  assumes "scan_members (Suc n) d (c # s) = Some (kjs, r)"
  obtains "r = s" | k s2 j s3 kjs' where "scan_key (skip_space s) = Some (k, s2)" "scan_value n d s2 = Some (j, s3)"
      "scan_members n d (skip_space s3) = Some (kjs', r)"
  using assms by (auto split: if_splits option.splits)

lemma scan_value_shorter:
  assumes v: "\<And>d s j r. scan_value n d s = Some (j, r) \<Longrightarrow> length r < length s"
    and e: "\<And>d s js r. scan_elems n d s = Some (js, r) \<Longrightarrow> length r < length s"
    and m: "\<And>d s kjs r. scan_members n d s = Some (kjs, r) \<Longrightarrow> length r < length s"
    and step: "scan_value (Suc n) d (c # s) = Some (j, r)"
  shows "length r < length (c # s)"
proof -
  note sk = skip_space_length
  consider "c = CHR 0x22" | "c = CHR ''[''" | "c = CHR ''{''" | "c \<noteq> CHR 0x22" "c \<noteq> CHR ''[''" "c \<noteq> CHR ''{''"
    by blast
  then show ?thesis
  proof cases
    assume c: "c = CHR 0x22"
    from step obtain u where "scan_string s = Some (u, r)" unfolding c scan_value_string by auto
    with scan_string_shorter show ?thesis by fastforce
  next
    assume c: "c = CHR ''[''"
    from step [unfolded c] show ?thesis
    proof (cases rule: scan_value_array)
      case (2 j1 s2 js)
      from v [OF 2(1)] e [OF 2(2)] sk [of s] sk [of s2] show ?thesis by simp
    qed (use tl_skip_space [of s] in simp)
  next
    assume c: "c = CHR ''{''"
    from step [unfolded c] show ?thesis
    proof (cases rule: scan_value_object)
      case (2 k s2 j1 s3 kjs)
      from scan_key_shorter [OF 2(1)] v [OF 2(2)] m [OF 2(3)] sk [of s] sk [of s3] show ?thesis by simp
    qed (use tl_skip_space [of s] in simp)
  next
    assume c: "c \<noteq> CHR 0x22" "c \<noteq> CHR ''[''" "c \<noteq> CHR ''{''"
    from step show ?thesis using scan_number_shorter scan_literal_shorter
      unfolding scan_value_scalar [OF c] by (metis (full_types))
  qed
qed

text \<open>Every step leaves less of the text.\<close>

lemma scan_shorter:
  "scan_value n d s = Some (j, r) \<Longrightarrow> length r < length s"
  "scan_elems n d s = Some (js, r) \<Longrightarrow> length r < length s"
  "scan_members n d s = Some (kjs, r) \<Longrightarrow> length r < length s"
proof (induction n arbitrary: d s j r js kjs)
  case (Suc n)
  note sk = skip_space_length
  { case 1
    then obtain c s1 where s: "s = c # s1" by (cases s) auto
    from scan_value_shorter [OF Suc.IH 1 [unfolded s]] s show ?case by simp
  next
    case 2
    then obtain c s1 where s: "s = c # s1" by (cases s) auto
    from 2 [unfolded s] show ?case
    proof (cases rule: scan_elems_Some)
      case (2 j s2 js')
      from Suc.IH(1) [OF 2(1)] Suc.IH(2) [OF 2(2)] sk [of s1] sk [of s2] s show ?thesis by simp
    qed (simp add: s)
  next
    case 3
    then obtain c s1 where s: "s = c # s1" by (cases s) auto
    from 3 [unfolded s] show ?case
    proof (cases rule: scan_members_Some)
      case (2 k s2 j s3 kjs')
      from scan_key_shorter [OF 2(1)] Suc.IH(1) [OF 2(2)] Suc.IH(3) [OF 2(3)] sk [of s1] sk [of s3] s show ?thesis by simp
    qed (simp add: s)
  }
qed simp_all

lemma scan_Nil: "scan_value n d [] = None" "scan_key [] = None"
  by (cases n; simp) (simp add: scan_key_def)

text \<open>One step with different fuel for the rest.\<close>

definition same_scan :: "nat \<Rightarrow> nat \<Rightarrow> string \<Rightarrow> bool" where
  "same_scan n k s \<longleftrightarrow>
     (\<forall>d. scan_value n d s = scan_value k d s \<and> scan_elems n d s = scan_elems k d s \<and> scan_members n d s = scan_members k d s)"

lemma same_scan_step:
  assumes same: "\<And>s. length s \<le> length s1 \<Longrightarrow> same_scan n k s"
  shows "same_scan (Suc n) (Suc k) (c # s1)"
proof -
  note sk = skip_space_length
  have e1: "scan_value n d (skip_space s1) = scan_value k d (skip_space s1)" for d
    using same [OF sk] by (simp add: same_scan_def)
  have e2: "scan_elems n d (skip_space s2) = scan_elems k d (skip_space s2)"
    if "scan_value k d (skip_space s1) = Some (j, s2)" for d j s2
    using same [of "skip_space s2"] scan_shorter(1) [OF that] sk [of s1] sk [of s2] by (simp add: same_scan_def)
  have e3: "scan_value n d s2 = scan_value k d s2" if "scan_key (skip_space s1) = Some (u, s2)" for d u s2
    using same [of s2] scan_key_shorter [OF that] sk [of s1] by (simp add: same_scan_def)
  have e4: "scan_members n d (skip_space s3) = scan_members k d (skip_space s3)"
    if "scan_key (skip_space s1) = Some (u, s2)" "scan_value k d s2 = Some (j, s3)" for d u s2 j s3
    using same [of "skip_space s3"] scan_key_shorter [OF that(1)] scan_shorter(1) [OF that(2)] sk [of s1] sk [of s3]
    by (simp add: same_scan_def)
  show ?thesis by (simp add: same_scan_def e1 e2 e3 e4 scan_Nil split: option.split)
qed

text \<open>More fuel than bytes makes no difference.\<close>

lemma scan_fuel: "length s < n \<Longrightarrow> length s < m \<Longrightarrow> same_scan n m s"
proof (induction n arbitrary: m s)
  case (Suc n)
  then obtain k where m: "m = Suc k" by (cases m) auto
  show ?case
  proof (cases s)
    case (Cons c s1)
    with Suc m show ?thesis by (auto intro: same_scan_step)
  qed (simp add: same_scan_def m)
qed simp

section \<open>Strings read back\<close>

lemma scan_string_plain:
  assumes "\<forall>c \<in> set u. byte_at c < 128 \<and> 32 \<le> byte_at c \<and> byte_at c \<noteq> 34 \<and> byte_at c \<noteq> 92"
  shows "scan_string (u @ s) = map_option (apfst (append u)) (scan_string s)"
  using assms
proof (induction u)
  case Nil
  then show ?case by (cases "scan_string s") auto
next
  case (Cons c u)
  then have "c \<noteq> CHR 0x22" "c \<noteq> CHR 0x5C" "\<not> byte_at c < 32" "byte_at c < 128" by (auto simp: byte_at_def)
  moreover from this have "encode_rune (byte_at c) = [c]" by (simp add: encode_rune_def)
  ultimately show ?case using Cons by (cases "scan_string s") (auto simp: next_rune_ascii)
qed

lemma hex_value_digit: "n < 16 \<Longrightarrow> hex_value (hex_digit n) = Some n"
  by (auto simp: hex_value_def hex_digit_def digit_char_def byte_at_def Let_def)

lemma scan_string_escape:
  "scan_escape (u @ s) = Some (v, length u) \<Longrightarrow>
   scan_string (CHR 0x5C # u @ s) = map_option (apfst (append v)) (scan_string s)"
  by simp

lemma hex4_Cons:
  assumes "hex_value a = Some w" and "hex_value b = Some x" and "hex_value c = Some y" and "hex_value d = Some z"
  shows "hex4 (a # b # c # d # s) = Some (w * 4096 + x * 256 + y * 16 + z)"
  by (simp add: hex4_def assms)

lemma byte_at_eqD: "byte_at c = n \<Longrightarrow> c = char_of n"
  by (metis char_of_byte_at)

lemma scan_code_escape:
  assumes "n < 128"
  shows "scan_escape (CHR ''u'' # CHR ''0'' # CHR ''0'' # hex_digit (n div 16) # hex_digit (n mod 16) # s) = Some ([char_of n], 5)"
proof -
  have z: "hex_value (CHR ''0'') = Some 0" by code_simp
  have h: "hex_value (hex_digit (n div 16)) = Some (n div 16)" "hex_value (hex_digit (n mod 16)) = Some (n mod 16)"
    using assms by (simp_all add: hex_value_digit)
  have "hex4 (CHR ''0'' # CHR ''0'' # hex_digit (n div 16) # hex_digit (n mod 16) # s) = Some n"
    using hex4_Cons [OF z z h] by simp
  with assms show ?thesis by (simp add: scan_escape_def unicode_escape_def encode_rune_def)
qed

lemma escaped_chars:
  "char_of (34 :: nat) = CHR 0x22" "char_of (92 :: nat) = CHR 0x5C" "char_of (8 :: nat) = CHR 0x08" "char_of (12 :: nat) = CHR 0x0C"
  "char_of (10 :: nat) = CHR 0x0A" "char_of (13 :: nat) = CHR 0x0D" "char_of (9 :: nat) = CHR 0x09"
  by code_simp+

lemma scan_short_escape:
  assumes "byte_at c = 34 \<or> byte_at c = 92 \<or> byte_at c = 8 \<or> byte_at c = 12 \<or> byte_at c = 10 \<or> byte_at c = 13 \<or> byte_at c = 9"
  obtains e where "json_escape_char c = [CHR 0x5C, e]" "\<And>s. scan_escape (e # s) = Some ([c], 1)"
proof -
  have "c = CHR 0x22 \<or> c = CHR 0x5C \<or> c = CHR 0x08 \<or> c = CHR 0x0C \<or> c = CHR 0x0A \<or> c = CHR 0x0D \<or> c = CHR 0x09"
    using assms by (elim disjE) (drule byte_at_eqD, simp add: escaped_chars)+
  then show thesis using that by (elim disjE) (simp_all add: json_escape_char_def scan_escape_def Let_def escaped_chars)
qed

lemma scan_ascii:
  assumes "byte_at c < 128"
  shows "scan_string (json_escape_char c @ s) = map_option (apfst (append [c])) (scan_string s)"
proof -
  let ?n = "byte_at c"
  consider (short) "?n = 34 \<or> ?n = 92 \<or> ?n = 8 \<or> ?n = 12 \<or> ?n = 10 \<or> ?n = 13 \<or> ?n = 9"
    | (code) "?n \<noteq> 34" "?n \<noteq> 92" "?n \<noteq> 8" "?n \<noteq> 12" "?n \<noteq> 10" "?n \<noteq> 13" "?n \<noteq> 9" "?n < 32 \<or> ?n = 60 \<or> ?n = 62 \<or> ?n = 38"
    | (plain) "?n \<noteq> 34" "?n \<noteq> 92" "32 \<le> ?n" "?n \<noteq> 60" "?n \<noteq> 62" "?n \<noteq> 38"
    by (metis not_less)
  then show ?thesis
  proof cases
    case short
    then obtain e where "json_escape_char c = [CHR 0x5C, e]" "\<And>s. scan_escape (e # s) = Some ([c], 1)"
      by (rule scan_short_escape) blast
    then show ?thesis by simp
  next
    case code
    then have "json_escape_char c = CHR 0x5C # ''u00'' @ [hex_digit (?n div 16), hex_digit (?n mod 16)]"
      by (auto simp: json_escape_char_def byte_at_def Let_def escaped_chars)
    then show ?thesis using scan_code_escape [OF assms] by simp
  next
    case plain
    then have "json_escape_char c = [c]" by (auto simp: json_escape_char_def byte_at_def Let_def)
    with plain scan_string_plain [of "[c]" s] assms show ?thesis by simp
  qed
qed


lemma scan_escape_code:
  assumes "hex4 [a, b, c, d] = Some n" and "n < 55296 \<or> 57344 \<le> n"
  shows "scan_string (CHR 0x5C # CHR ''u'' # a # b # c # d # s) = map_option (apfst (append (encode_rune n))) (scan_string s)"
proof -
  have "hex4 (a # b # c # d # s) = Some n" using assms(1) by (simp add: hex4_def)
  then have "scan_escape (CHR ''u'' # a # b # c # d # s) = Some (encode_rune n, 5)"
    using assms(2) by (simp add: scan_escape_def unicode_escape_def)
  then show ?thesis by simp
qed

lemma scan_sequence:
  assumes "valid_rune r" and "128 \<le> r" and "encode_rune r = a # u" and "128 \<le> byte_at a"
  shows "scan_string (a # u @ s) = map_option (apfst (append (encode_rune r))) (scan_string s)"
proof -
  have "a \<noteq> CHR 0x22" "a \<noteq> CHR 0x5C" "\<not> byte_at a < 32" using assms(4) by (auto simp: byte_at_def)
  with next_rune_encode [OF assms(1,3)] show ?thesis by simp
qed

text \<open>What \<open>Marshal\<close> writes for a rune is read back as the rune.\<close>

lemma scan_escaped_rune:
  assumes "next_rune a s = (r, k)"
  shows "scan_string (json_escape_rune r a (take k s) @ t) = map_option (apfst (append (encode_rune r))) (scan_string t)"
  using assms
proof (cases rule: next_rune_cases)
  case ascii
  then have "encode_rune r = [a]" by (simp add: encode_rune_def)
  with ascii scan_ascii show ?thesis by (simp add: json_escape_rune_def)
next
  case error
  then show ?thesis
    using scan_escape_code [of "CHR ''f''" "CHR ''f''" "CHR ''f''" "CHR ''d''" 65533 t]
    by (simp add: json_escape_rune_def rune_error_def) (simp add: hex4_def hex_value_def byte_at_def Let_def)
next
  case sequence
  have seps: "hex4 ''2028'' = Some 8232" "hex4 ''2029'' = Some 8233" by code_simp+
  show ?thesis
    using sequence scan_sequence [OF sequence(5,4,6,1), of t]
      scan_escape_code [OF seps(1), of t] scan_escape_code [OF seps(2), of t]
    by (auto simp: json_escape_rune_def)
qed

lemma scan_json_string:
  "scan_string (json_escape s @ CHR 0x22 # rest) = Some (sanitize s, rest)"
proof (induction s rule: json_escape.induct)
  case (2 a s)
  obtain r k where rk: "next_rune a s = (r, k)" by fastforce
  with "2.IH" [OF rk [symmetric]] scan_escaped_rune [OF rk] show ?case by (simp add: sanitize_Cons [OF rk])
qed simp


section \<open>Integers read back\<close>

text \<open>What may follow a value: no byte that could continue a number.\<close>

definition value_end :: "string \<Rightarrow> bool" where
  "value_end s \<longleftrightarrow> s = [] \<or> hd s \<in> {CHR '','', CHR '']'', CHR ''}'', CHR 0x0A}"

lemma is_digit_digit_char: "d < 10 \<Longrightarrow> is_digit (digit_char d)"
  by (simp add: is_digit_def)

lemma show_nat_is_digit: "c \<in> set (show_nat n) \<Longrightarrow> is_digit c"
  using show_nat_digits is_digit_digit_char by blast

lemma value_end_no_digit: "value_end s \<Longrightarrow> takeWhile is_digit (u @ s) = takeWhile is_digit u \<and> (dropWhile is_digit s = s)"
  by (cases s; induction u) (auto simp: value_end_def is_digit_def char_digit_def)

lemma scan_digits_show_nat: "value_end s \<Longrightarrow> scan_digits (show_nat n @ s) = Some (n, length (show_nat n), s)"
proof -
  assume e: "value_end s"
  have d: "\<forall>c \<in> set (show_nat n). is_digit c" using show_nat_is_digit by blast
  then have "takeWhile is_digit (show_nat n @ s) = show_nat n" "dropWhile is_digit (show_nat n @ s) = s"
    using value_end_no_digit [OF e, of "show_nat n"] by (simp_all add: dropWhile_append2 takeWhile_eq_all_conv [THEN iffD2])
  then show ?thesis by (simp add: scan_digits_def)
qed

lemma show_nat_zero: "hd (show_nat n) = CHR ''0'' \<Longrightarrow> n = 0"
proof (induction n rule: show_nat.induct)
  case (1 n)
  show ?case
  proof (cases "n < 10")
    case True
    with "1.prems" have "digit_char n = CHR ''0''" by (subst (asm) show_nat.simps) simp
    with char_digit_digit_char [OF True] show ?thesis by (simp add: char_digit_def)
  next
    case False
    with "1.prems" have "hd (show_nat (n div 10)) = CHR ''0''" by (subst (asm) show_nat.simps) simp
    with "1.IH" False show ?thesis by fastforce
  qed
qed


lemma show_nat_0: "show_nat 0 = ''0''"
  by code_simp

lemma scan_integer_show_nat:
  assumes "value_end s"
  shows "scan_integer (show_nat n @ s) = Some (n, s)"
proof (cases "n = 0")
  case True
  then show ?thesis by (simp add: scan_integer_def show_nat_0)
next
  case False
  then obtain c u where u: "show_nat n = c # u" "c \<noteq> CHR ''0''"
    using show_nat_zero [of n] by (cases "show_nat n") auto
  with scan_digits_show_nat [OF assms, of n] show ?thesis by (simp add: scan_integer_def)
qed

lemma scan_number_show_int:
  assumes "value_end s"
  shows "scan_number (show_int n @ s) = Some (JInt n, s)"
proof -
  have rest: "scan_fraction s = Some (None, s)" "scan_exponent s = Some (None, s)"
    using assms by (auto simp: scan_fraction_def scan_exponent_def value_end_def split: list.split)
  have sign: "scan_sign (show_nat m @ s) = (False, show_nat m @ s)" for m
  proof -
    obtain c u where u: "show_nat m = c # u" by (cases "show_nat m") auto
    then have "is_digit c" using show_nat_is_digit [of c m] by simp
    then have "c \<noteq> CHR ''-''" by (auto simp: is_digit_def char_digit_def)
    with u show ?thesis by (simp add: scan_sign_def)
  qed
  show ?thesis
    by (simp add: scan_number_def show_int_def sign scan_integer_show_nat [OF assms] rest scan_sign_def [of "_ # _"] signed_def)
qed

section \<open>Values read back\<close>

text \<open>Values without floats, with at most \<open>m\<close> levels of arrays and objects.\<close>

fun json_within :: "nat \<Rightarrow> json \<Rightarrow> bool" where
  "json_within m (JFloat x) = False"
| "json_within m (JArr js) \<longleftrightarrow> 0 < m \<and> list_all (json_within (m - 1)) js"
| "json_within m (JObj kjs) \<longleftrightarrow> 0 < m \<and> list_all (\<lambda>(k, j). json_within (m - 1) j) kjs"
| "json_within m j = True"

fun sanitize_json :: "json \<Rightarrow> json" where
  "sanitize_json (JStr s) = JStr (sanitize s)"
| "sanitize_json (JArr js) = JArr (map sanitize_json js)"
| "sanitize_json (JObj kjs) = JObj (map (\<lambda>(k, j). (sanitize k, sanitize_json j)) kjs)"
| "sanitize_json j = j"

lemma show_int_start: obtains c u where "show_int n = c # u" "c = CHR ''-'' \<or> is_digit c"
proof -
  have "\<exists>c u. show_nat m = c # u \<and> is_digit c" for m
    using show_nat_is_digit [of _ m] by (cases "show_nat m") auto
  then show thesis using that by (fastforce simp: show_int_def split: if_splits)
qed

lemma json_text_start:
  assumes "json_within m j"
  obtains c u where "json_text fl j = c # u" "\<not> json_space c" "c \<noteq> CHR '']''"
proof -
  have int: "\<exists>c u. show_int n = c # u \<and> \<not> json_space c \<and> c \<noteq> CHR '']''" for n
    by (rule show_int_start [of n]) (auto simp: is_digit_def char_digit_def json_space_def)
  show thesis
  proof (cases "\<exists>b. j = JBool b")
    case True
    then obtain b where "j = JBool b" by blast
    with that show thesis by (cases b) (auto simp: json_space_def)
  next
    case False
    with assms int that show thesis
      by (cases "(fl, j)" rule: json_text.cases) (auto simp: json_space_def json_string_def)
  qed
qed

lemma skip_space_Cons: "\<not> json_space c \<Longrightarrow> skip_space (c # s) = c # s"
  by (simp add: skip_space_def)

lemma skip_space_text: "json_within m j \<Longrightarrow> skip_space (json_text fl j @ s) = json_text fl j @ s"
  by (erule json_text_start [where fl = fl]) (simp add: skip_space_Cons)

lemma tail_text:
  "value_end (json_elems_text fl js @ s)" "skip_space (json_elems_text fl js @ s) = json_elems_text fl js @ s"
  "value_end (json_members_text fl kjs @ s)" "skip_space (json_members_text fl kjs @ s) = json_members_text fl kjs @ s"
  by (cases js; cases kjs; force simp: value_end_def skip_space_def json_space_def)+

lemma scan_key_text:
  assumes "json_within m j"
  shows "scan_key (json_string k @ CHR '':'' # json_text fl j @ s) = Some (sanitize k, json_text fl j @ s)"
  by (simp add: scan_key_def json_string_def scan_json_string skip_space_Cons json_space_def skip_space_text [OF assms])

lemma skip_space_json_string: "skip_space (json_string k @ s) = json_string k @ s"
  by (simp add: json_string_def skip_space_Cons json_space_def)

lemma scan_array_text:
  assumes "json_within (max_depth - d) (JArr (j # js))"
    and "scan_value n (Suc d) (json_text fl j @ json_elems_text fl js @ s) = Some (j', json_elems_text fl js @ s)"
    and "scan_elems n (Suc d) (json_elems_text fl js @ s) = Some (js', s)"
  shows "scan_value (Suc n) d (json_text fl (JArr (j # js)) @ s) = Some (JArr (j' # js'), s)"
proof -
  from assms(1) have d: "d < max_depth" "json_within (max_depth - Suc d) j" by simp_all
  then obtain c u where "json_text fl j = c # u" "c \<noteq> CHR '']''" using json_text_start by metis
  with assms(2,3) d(1) skip_space_text [OF d(2), of fl "json_elems_text fl js @ s"] show ?thesis by (simp add: tail_text)
qed

lemma scan_object_text:
  assumes "json_within (max_depth - d) (JObj ((k, j) # kjs))"
    and "scan_value n (Suc d) (json_text fl j @ json_members_text fl kjs @ s) = Some (j', json_members_text fl kjs @ s)"
    and "scan_members n (Suc d) (json_members_text fl kjs @ s) = Some (kjs', s)"
  shows "scan_value (Suc n) d (json_text fl (JObj ((k, j) # kjs)) @ s) = Some (JObj ((sanitize k, j') # kjs'), s)"
proof -
  from assms(1) have d: "d < max_depth" "json_within (max_depth - Suc d) j" by simp_all
  have "hd (json_string k @ t) \<noteq> CHR ''}''" for t by (simp add: json_string_def)
  with assms(2,3) d(1) scan_key_text [OF d(2), of k fl "json_members_text fl kjs @ s"] show ?thesis
    by (simp add: tail_text skip_space_json_string)
qed

lemma scan_scalar_text:
  assumes "value_end s"
  shows "scan_value (Suc n) d (''null'' @ s) = Some (JNull, s)"
    and "scan_value (Suc n) d ((if b then ''true'' else ''false'') @ s) = Some (JBool b, s)"
    and "scan_value (Suc n) d (show_int i @ s) = Some (JInt i, s)"
    and "scan_value (Suc n) d (json_string u @ s) = Some (JStr (sanitize u), s)"
proof -
  show "scan_value (Suc n) d (''null'' @ s) = Some (JNull, s)"
    by (simp add: scan_literal_def HasPrefix_def is_digit_def char_digit_def)
  show "scan_value (Suc n) d ((if b then ''true'' else ''false'') @ s) = Some (JBool b, s)"
    by (cases b) (simp_all add: scan_literal_def HasPrefix_def is_digit_def char_digit_def)
  obtain c v where v: "show_int i = c # v" "c = CHR ''-'' \<or> is_digit c" by (rule show_int_start)
  then have "c \<noteq> CHR 0x22" "c \<noteq> CHR ''[''" "c \<noteq> CHR ''{''" by (auto simp: is_digit_def char_digit_def)
  with v scan_number_show_int [OF assms, of i] show "scan_value (Suc n) d (show_int i @ s) = Some (JInt i, s)" by simp
  show "scan_value (Suc n) d (json_string u @ s) = Some (JStr (sanitize u), s)"
    by (simp add: json_string_def scan_json_string)
qed

lemma json_text_not_Nil: "json_within m j \<Longrightarrow> json_text fl j \<noteq> []"
  by (erule json_text_start [where fl = fl]) simp

lemma scan_text:
  "\<lbrakk>json_within (max_depth - d) j; length (json_text fl j) \<le> n; value_end s\<rbrakk> \<Longrightarrow>
     scan_value n d (json_text fl j @ s) = Some (sanitize_json j, s)"
  "\<lbrakk>list_all (json_within (max_depth - d)) js; length (json_elems_text fl js) \<le> n\<rbrakk> \<Longrightarrow>
     scan_elems n d (json_elems_text fl js @ s) = Some (map sanitize_json js, s)"
  "\<lbrakk>list_all (\<lambda>(k, j). json_within (max_depth - d) j) kjs; length (json_members_text fl kjs) \<le> n\<rbrakk> \<Longrightarrow>
     scan_members n d (json_members_text fl kjs @ s) = Some (map (\<lambda>(k, j). (sanitize k, sanitize_json j)) kjs, s)"
proof (induction fl j and fl js and fl kjs arbitrary: n d s and n d s and n d s
    rule: json_text_json_elems_text_json_members_text.induct)
  case (7 fl j js)
  then obtain m where n: "n = Suc m" by (cases n) auto
  have "scan_value m (Suc d) (json_text fl j @ json_elems_text fl js @ s) = Some (sanitize_json j, json_elems_text fl js @ s)"
    and "scan_elems m (Suc d) (json_elems_text fl js @ s) = Some (map sanitize_json js, s)"
    using 7(3,4) n by (intro 7(1,2) tail_text; simp)+
  from scan_array_text [OF 7(3) this] show ?case by (simp add: n)
next
  case (9 fl k j kjs)
  then obtain m where n: "n = Suc m" by (cases n) auto
  have "scan_value m (Suc d) (json_text fl j @ json_members_text fl kjs @ s) = Some (sanitize_json j, json_members_text fl kjs @ s)"
    and "scan_members m (Suc d) (json_members_text fl kjs @ s) = Some (map (\<lambda>(k, j). (sanitize k, sanitize_json j)) kjs, s)"
    using 9(3,4) n by (intro 9(1,2) tail_text; simp)+
  from scan_object_text [OF 9(3) this] show ?case by (simp add: n)
next
  case (11 fl j js)
  then obtain m where n: "n = Suc m" by (cases n) auto
  with 11 skip_space_text [of "max_depth - d" j] show ?case by (simp add: tail_text)
next
  case (13 fl k j kjs)
  then obtain m where n: "n = Suc m" by (cases n) auto
  with 13 scan_key_text [of "max_depth - d" j] show ?case by (simp add: skip_space_json_string tail_text)
next
  case (6 fl)
  then show ?case by (cases n) (auto simp: skip_space_def json_space_def)
next
  case (8 fl)
  then show ?case by (cases n) (auto simp: skip_space_def json_space_def)
next
  case (10 fl)
  then show ?case by (cases n) auto
next
  case (12 fl)
  then show ?case by (cases n) auto
next
  case (1 fl)
  then show ?case by (cases n) (simp_all del: scan_value.simps add: scan_scalar_text [simplified])
next
  case (2 fl b)
  with json_text_not_Nil [OF 2(1), of fl] show ?case by (cases n) (simp_all del: scan_value.simps add: scan_scalar_text)
next
  case (3 fl i)
  with json_text_not_Nil [OF 3(1), of fl] show ?case by (cases n) (simp_all del: scan_value.simps add: scan_scalar_text)
next
  case (5 fl u)
  with json_text_not_Nil [OF 5(1), of fl] show ?case by (cases n) (simp_all del: scan_value.simps add: scan_scalar_text)
qed simp

section \<open>Documents read back\<close>

lemma json_first_text:
  assumes "json_within max_depth j" and "value_end s"
  shows "json_first (json_text fl j @ s) = Some (sanitize_json j, s)"
proof -
  have "scan_value (Suc (length (json_text fl j @ s))) 0 (json_text fl j @ s) = Some (sanitize_json j, s)"
    by (rule scan_text(1)) (simp_all add: assms)
  then show ?thesis by (simp add: json_first_def skip_space_text [OF assms(1)])
qed

text \<open>A text that was written is read back, with the newline an \<open>Encoder\<close> adds or without.\<close>

lemma json_document_text:
  assumes "json_within max_depth j"
  shows "json_document (json_text fl j) = Some (sanitize_json j)"
    and "json_document (json_text fl j @ [CHR 0x0A]) = Some (sanitize_json j)"
    and "decoder_first (json_text fl j) ''EOF'' = Some (sanitize_json j)"
  using json_first_text [OF assms, of "[]" fl] json_first_text [OF assms, of "[CHR 0x0A]" fl]
  by (simp_all add: json_document_def decoder_first_def value_end_def skip_space_def json_space_def)

lemma json_within_mono: "json_within m j \<Longrightarrow> m \<le> n \<Longrightarrow> json_within n j"
  by (induction m j arbitrary: n rule: json_within.induct) (auto simp: list_all_iff)

lemma sanitize_json_idem: "sanitize_json (sanitize_json j) = sanitize_json j"
  by (induction j rule: sanitize_json.induct) auto

text \<open>A map whose keys are UTF-8 has the members of the object read back from its text.\<close>

lemma map_of_sort_by:
  assumes "distinct (map fst m)"
  shows "map_of (sort_by lt m) = map_of m"
proof
  fix k
  have "mset (map fst (sort_by lt m)) = mset (map fst m)" by simp
  then have "distinct (map fst (sort_by lt m))" using assms mset_eq_imp_distinct_iff by blast
  then show "map_of (sort_by lt m) k = map_of m k"
    using map_of_eq_Some_iff [OF assms, of k] map_of_eq_Some_iff [of "sort_by lt m" k] by (metis not_Some_eq set_sort_by)
qed

lemma map_of_map_keys: "\<forall>k \<in> fst ` set m. f k = k \<Longrightarrow> map_of (map (\<lambda>(k, v). (f k, g v)) m) k = map_option g (map_of m k)"
  by (induction m) auto

lemma map_reads_back:
  assumes "distinct (map fst m)" and "\<forall>k \<in> fst ` set m. sanitize k = k"
  obtains kvs where "sanitize_json (json_of_map m) = JObj kvs" "\<And>k. map_of kvs k = map_option sanitize_json (map_of m k)"
proof
  let ?m = "sort_by (\<lambda>a b. str_less (fst a) (fst b)) m"
  show "sanitize_json (json_of_map m) = JObj (map (\<lambda>(k, j). (sanitize k, sanitize_json j)) ?m)"
    by (simp add: json_of_map_def)
  show "map_of (map (\<lambda>(k, j). (sanitize k, sanitize_json j)) ?m) k = map_option sanitize_json (map_of m k)" for k
    using map_of_map_keys [of ?m sanitize sanitize_json k] assms by (simp add: map_of_sort_by)
qed

end
