(* ===== verification/Startup.thy ===== *)
theory Startup
  imports Migrations Redis_Lock Logger Pricer Json_Text
begin

text \<open>
  The commands and the wiring around the server: \<open>cmd/pricing-quote/main.go\<close>, \<open>cmd/migrate/main.go\<close>, the
  health probe, the log form of the configuration and the HTTP client of the fx service. What the
  process gets from outside (HTTP responses, the database driver, the exporter set-up, the server that
  runs until it fails) is an argument.
\<close>

section \<open>The log form of the configuration\<close>

text \<open>\<open>time.Duration.String\<close>: \<open>frac_digits w v\<close> is the fraction of \<open>v\<close> parts of \<open>10 ^ w\<close>, trailing zeros cut.\<close>

definition frac_digits :: "nat \<Rightarrow> int \<Rightarrow> string" where
  "frac_digits w v =
     (if v = 0 then [] else CHR ''.'' # rev (dropWhile (\<lambda>c. c = CHR ''0'') (rev (pad w v))))"

definition small_duration :: "int \<Rightarrow> string" where
  "small_duration u =
     (if u < 1000 then show_int u @ ''ns''
      else if u < 1000000 then show_int (u div 1000) @ frac_digits 3 (u mod 1000) @ bytes [194, 181, 115]
      else show_int (u div 1000000) @ frac_digits 6 (u mod 1000000) @ ''ms'')"

definition large_duration :: "int \<Rightarrow> string" where
  "large_duration u =
     (let s = u div second; m = s div 60; h = m div 60 in
      (if 0 < h then show_int h @ ''h'' else []) @
      (if 0 < m then show_int (m mod 60) @ ''m'' else []) @
      show_int (s mod 60) @ frac_digits 9 (u mod second) @ ''s'')"

definition Duration_String :: "duration \<Rightarrow> string" where
  "Duration_String d =
     (if d = 0 then ''0s''
      else (if d < 0 then ''-'' else []) @ (if \<bar>d\<bar> < second then small_duration \<bar>d\<bar> else large_duration \<bar>d\<bar>))"

definition Config_String :: "Config \<Rightarrow> string" where
  "Config_String c =
     ''port='' @ cfg_Port c @ '' ttl='' @ Duration_String (cfg_RateLockTTL c) @
     '' stale='' @ Duration_String (cfg_MaxStaleAge c) @ '' spread='' @ show_int (cfg_DefaultSpreadBPS c) @
     '' slip='' @ show_int (cfg_SlippageToleranceBPS c) @ '' bulk='' @ show_int (cfg_BulkQuoteMaxItems c) @
     '' redis='' @ maskURL (cfg_RedisURL c) @
     '' db_set='' @ (if cfg_DatabaseURL c \<noteq> [] then ''true'' else ''false'')"

section \<open>The health probe\<close>

text \<open>A GET is an error or a status code.\<close>

definition RunHealthcheck :: "environment \<Rightarrow> (string \<Rightarrow> string + int) \<Rightarrow> int" where
  "RunHealthcheck env http_get =
     (let port = (if Getenv env ''PORT'' \<noteq> [] then Getenv env ''PORT'' else ''8080'');
          url = ''http://localhost:'' @ port @ ''/healthz'' in
      case http_get url of
        Inl err \<Rightarrow> 1
      | Inr status \<Rightarrow> if status \<noteq> 200 then 1 else 0)"

section \<open>The fx client\<close>

definition decode_float :: "json \<Rightarrow> rat \<Rightarrow> rat option" where
  "decode_float j old = (case j of JNull \<Rightarrow> Some old | JInt n \<Rightarrow> Some (of_int n) | JFloat x \<Rightarrow> Some x | _ \<Rightarrow> None)"

definition decode_int :: "json \<Rightarrow> int \<Rightarrow> int option" where
  "decode_int j old =
     (case j of JNull \<Rightarrow> Some old | JInt n \<Rightarrow> if in_int64 n then Some n else None | _ \<Rightarrow> None)"

definition decode_fx :: "json \<Rightarrow> (rat \<times> int) option" where
  "decode_fx j =
     decode_struct (\<lambda>k v (rate, hedge).
       if is_field ''rate'' k then map_option (\<lambda>r. (r, hedge)) (decode_float v rate)
       else if is_field ''hedge_cost_bps'' k then map_option (\<lambda>h. (rate, h)) (decode_int v hedge)
       else Some (rate, hedge)) j (0, 0)"

record httpFXClient =
  fx_BaseURL :: string

definition newHTTPFXClient :: "string \<Rightarrow> httpFXClient option" where
  "newHTTPFXClient baseURL =
     (if baseURL = [] then None else Some \<lparr>fx_BaseURL = TrimRightByte baseURL (CHR ''/'')\<rparr>)"

definition ErrFXUnavailable :: string where "ErrFXUnavailable = ''fx service unavailable''"

definition noopFXClient_FetchFX :: "string \<Rightarrow> string + rat \<times> int" where
  "noopFXClient_FetchFX fiat = Inl ErrFXUnavailable"

text \<open>A response is an error, or a status with the first JSON value of the body (\<open>None\<close>: not JSON).\<close>

definition FetchFX ::
    "(string \<Rightarrow> string + int \<times> json option) \<Rightarrow> httpFXClient \<Rightarrow> string \<Rightarrow> string + rat \<times> int" where
  "FetchFX http_get c fiat =
     (case http_get (fx_BaseURL c @ ''/fx?fiat='' @ fiat) of
        Inl err \<Rightarrow> Inl err
      | Inr (status, body) \<Rightarrow>
          if status \<noteq> 200 then Inl (''fx status '' @ show_int status)
          else (case Option.bind body decode_fx of
                  None \<Rightarrow> Inl ''invalid body''
                | Some (rate, hedge) \<Rightarrow> Inr (rate, hedge)))"

text \<open>Every lookup is timed, a failed one too.\<close>

definition FetchFX_timed ::
    "(string \<Rightarrow> string + int \<times> json option) \<Rightarrow> httpFXClient \<Rightarrow> duration \<Rightarrow> string \<Rightarrow> metrics \<Rightarrow>
     (string + rat \<times> int) \<times> metrics" where
  "FetchFX_timed http_get c elapsed fiat m =
     (FetchFX http_get c fiat, m\<lparr>m_fxLookupSeconds := m_fxLookupSeconds m @ [elapsed]\<rparr>)"

text \<open>The client as the pricer sees it.\<close>

definition as_fx_client :: "(string \<Rightarrow> string + rat \<times> int) \<Rightarrow> fx_client" where
  "as_fx_client fetch = (\<lambda>fiat. case fetch fiat of Inl err \<Rightarrow> None | Inr x \<Rightarrow> Some x)"

text \<open>
  The response as text: the status, the body as far as it is read, and the error that ends it. A service that
  answers with the JSON of a rate and a hedge cost is understood.
\<close>

definition http_json :: "(string \<Rightarrow> string + int \<times> string \<times> string) \<Rightarrow> string \<Rightarrow> string + int \<times> json option" where
  "http_json get url =
     (case get url of Inl err \<Rightarrow> Inl err | Inr (status, body, err) \<Rightarrow> Inr (status, decoder_first body err))"

lemma FetchFX_text:
  assumes "get (fx_BaseURL c @ ''/fx?fiat='' @ fiat) =
      Inr (200, json_text fl (JObj [(''rate'', JInt rate), (''hedge_cost_bps'', JInt hedge)]), ''EOF'')"
    and "in_int64 hedge"
  shows "FetchFX (http_json get) c fiat = Inr (of_int rate, hedge)"
proof -
  have keys: "plain_key ''rate''" "plain_key ''hedge_cost_bps''" by code_simp+
  have "decoder_first (json_text fl (JObj [(''rate'', JInt rate), (''hedge_cost_bps'', JInt hedge)])) ''EOF'' =
      Some (JObj [(''rate'', JInt rate), (''hedge_cost_bps'', JInt hedge)])"
    using json_document_text(3) [of "JObj [(''rate'', JInt rate), (''hedge_cost_bps'', JInt hedge)]" fl] keys
    by (simp add: max_depth_def sanitize_plain)
  with assms show ?thesis
    by (simp add: FetchFX_def http_json_def decode_fx_def decode_struct_def decode_float_def decode_int_def
        is_field_plain [OF keys(1)] is_field_plain [OF keys(2)])
qed

section \<open>The migrate command\<close>

datatype migrate_error =
    DB_URL_required
  | Sql_open string
  | Migration_failed string
  | Unknown_direction string

text \<open>The second result is what is printed.\<close>

definition migrate_run ::
    "environment \<Rightarrow> (string \<Rightarrow> string option) \<Rightarrow> 'db sql_db \<Rightarrow> string \<Rightarrow> string \<Rightarrow> string \<Rightarrow> 'db \<Rightarrow>
     migrate_error option \<times> string list \<times> 'db" where
  "migrate_run env sql_open Q initUp initDown direction db =
     (let dsn = Getenv env ''DB_URL'' in
      if dsn = [] then (Some DB_URL_required, [], db)
      else case sql_open dsn of
             Some e \<Rightarrow> (Some (Sql_open e), [], db)
           | None \<Rightarrow>
               if direction = ''up'' then
                 (case Up Q initUp db of
                    (Some e, db') \<Rightarrow> (Some (Migration_failed e), [], db')
                  | (None, db') \<Rightarrow> (None, [''migrations applied''], db'))
               else if direction = ''down'' then
                 (case Down Q initDown db of
                    (Some e, db') \<Rightarrow> (Some (Migration_failed e), [], db')
                  | (None, db') \<Rightarrow> (None, [''migrations rolled back''], db'))
               else (Some (Unknown_direction direction), [], db))"

text \<open>The exit code, with what \<open>log.Fatalf\<close> and the command print left as they are.\<close>

definition migrate_main ::
    "environment \<Rightarrow> (string \<Rightarrow> string option) \<Rightarrow> 'db sql_db \<Rightarrow> string \<Rightarrow> string \<Rightarrow> string option \<Rightarrow> 'db \<Rightarrow>
     int \<times> string list \<times> 'db" where
  "migrate_main env sql_open Q initUp initDown flag db =
     (case migrate_run env sql_open Q initUp initDown (case flag of None \<Rightarrow> ''up'' | Some d \<Rightarrow> d) db of
        (Some e, out, db') \<Rightarrow> (1, out, db')
      | (None, out, db') \<Rightarrow> (0, out, db'))"

lemma migrate_main_succeeds:
  "fst (migrate_main env sql_open Q initUp initDown None db) = 0 \<longleftrightarrow>
    Getenv env ''DB_URL'' \<noteq> [] \<and> sql_open (Getenv env ''DB_URL'') = None \<and> fst (Up Q initUp db) = None"
  by (auto simp: migrate_main_def migrate_run_def Let_def split: option.split prod.split)

section \<open>The server command\<close>

definition dbURL :: "environment \<Rightarrow> string" where
  "dbURL env = (if Getenv env ''DB_URL'' \<noteq> [] then Getenv env ''DB_URL'' else Getenv env ''DATABASE_URL'')"

definition applyMigrations ::
    "(string \<Rightarrow> string option) \<Rightarrow> (string \<Rightarrow> string option) \<Rightarrow> 'db sql_db \<Rightarrow> string \<Rightarrow> string \<Rightarrow> 'db \<Rightarrow> string option \<times> 'db" where
  "applyMigrations sql_open ping Q initUp dsn db =
     (case sql_open dsn of
        Some e \<Rightarrow> (Some (''open db: '' @ e), db)
      | None \<Rightarrow>
          (case ping dsn of
             Some e \<Rightarrow> (Some (''ping db: '' @ e), db)
           | None \<Rightarrow>
               (case Up Q initUp db of
                  (Some e, db') \<Rightarrow> (Some (''apply migrations: '' @ e), db')
                | (None, db') \<Rightarrow> (None, db'))))"

record 'db main_env =
  me_env :: environment
  me_http_get :: "string \<Rightarrow> string + int"
  me_otel_init :: "string option"
  me_sql_open :: "string \<Rightarrow> string option"
  me_ping :: "string \<Rightarrow> string option"
  me_sql :: "'db sql_db"
  me_initUp :: string
  me_run :: "Config \<Rightarrow> string option"

text \<open>
  The outcome: the exit code, the configuration the server was run with if it was, and the calls of the
  logger, each with its level.
\<close>

record main_outcome =
  mo_exit :: int
  mo_served :: "Config option"
  mo_log :: "(int \<times> string \<times> field list) list"

definition production_ready :: "environment \<Rightarrow> bool" where
  "production_ready env \<longleftrightarrow> \<not> (Getenv env ''PRICE_FEED_URL'' = [] \<and> Getenv env ''ORACLE_URL'' = [] \<and>
     Getenv env ''RATE_FEED_URL'' = [])"

text \<open>The two messages about the mode, with their dash in UTF-8.\<close>

definition feed_required :: string where
  "feed_required = ''PRICE_FEED_URL (or ORACLE_URL) required in production mode; spot rates are otherwise seeded stubs '' @
     bytes [226, 128, 148] @ '' set DEV_MODE=1 for local dev''"

definition dev_mode_notice :: string where
  "dev_mode_notice = ''DEV_MODE=1: using seeded in-memory spot rates '' @ bytes [226, 128, 148] @ '' NOT FOR PRODUCTION''"

definition serve ::
    "'db main_env \<Rightarrow> Config \<Rightarrow> (int \<times> string \<times> field list) list \<Rightarrow> main_outcome" where
  "serve P cfg lines =
     (case me_run P cfg of
        Some e \<Rightarrow> \<lparr>mo_exit = 1, mo_served = Some cfg,
          mo_log = lines @ [(lvlError, ''server exited with error'', [FErr e])]\<rparr>
      | None \<Rightarrow> \<lparr>mo_exit = 0, mo_served = Some cfg, mo_log = lines\<rparr>)"

definition migrate_and_serve ::
    "'db main_env \<Rightarrow> Config \<Rightarrow> (int \<times> string \<times> field list) list \<Rightarrow> 'db \<Rightarrow> main_outcome \<times> 'db" where
  "migrate_and_serve P cfg lines db =
     (let dsn = dbURL (me_env P) in
      if dsn \<noteq> [] then
        (case applyMigrations (me_sql_open P) (me_ping P) (me_sql P) (me_initUp P) dsn db of
           (Some e, db') \<Rightarrow>
             (\<lparr>mo_exit = 1, mo_served = None, mo_log = lines @ [(lvlError, ''startup migrations failed'', [FErr e])]\<rparr>, db')
         | (None, db') \<Rightarrow> (serve P cfg (lines @ [(lvlInfo, ''database migrations applied'', [])]), db'))
      else (serve P cfg lines, db))"

definition main_program :: "'db main_env \<Rightarrow> bool \<Rightarrow> 'db \<Rightarrow> main_outcome \<times> 'db" where
  "main_program P healthcheck db =
     (if healthcheck
      then (\<lparr>mo_exit = RunHealthcheck (me_env P) (me_http_get P), mo_served = None, mo_log = []\<rparr>, db)
      else case me_otel_init P of
             Some e \<Rightarrow> (\<lparr>mo_exit = 1, mo_served = None, mo_log = []\<rparr>, db)
           | None \<Rightarrow>
               (let cfg = LoadConfig (me_env P);
                    lines = [(lvlInfo, ''starting pricing-quote'', [FStr ''config'' (Config_String cfg)])] in
                if Getenv (me_env P) ''DEV_MODE'' \<noteq> ''1'' then
                  (if \<not> production_ready (me_env P)
                   then (\<lparr>mo_exit = 1, mo_served = None,
                          mo_log = lines @ [(lvlError, feed_required,
                            [FStr ''hint'' ''DEV_MODE=1 for local dev''])]\<rparr>, db)
                   else migrate_and_serve P cfg lines db)
                else migrate_and_serve P cfg (lines @ [(lvlInfo, dev_mode_notice, [])]) db))"

section \<open>Properties\<close>

lemma serve_served [simp]: "mo_served (serve P cfg lines) = Some cfg"
  by (simp add: serve_def split: option.split)

lemma migrate_and_serve_cases:
  assumes "migrate_and_serve P cfg lines db = (out, db')"
  shows "(dbURL (me_env P) = [] \<longrightarrow> mo_served out = Some cfg \<and> db' = db) \<and>
    (mo_served out = None \<longrightarrow> mo_exit out = 1) \<and>
    (mo_served out \<noteq> None \<longrightarrow> mo_served out = Some cfg \<and>
      (dbURL (me_env P) \<noteq> [] \<longrightarrow> Up (me_sql P) (me_initUp P) db = (None, db')))"
  using assms
  by (auto simp: migrate_and_serve_def applyMigrations_def Let_def split: if_splits option.splits prod.splits)


text \<open> The log form of the configuration is the same for all credentials in front of the Redis host, and
  for all database URLs that are set: neither can be read off it.
\<close>

lemma Config_String_redacts:
  assumes "CHR ''@'' \<notin> set cred" and "CHR ''@'' \<notin> set cred'" and "dsn \<noteq> []" and "dsn' \<noteq> []"
  shows "Config_String (c\<lparr>cfg_RedisURL := cred @ CHR ''@'' # host, cfg_DatabaseURL := dsn\<rparr>) =
    Config_String (c\<lparr>cfg_RedisURL := cred' @ CHR ''@'' # host, cfg_DatabaseURL := dsn'\<rparr>)"
  using assms by (simp add: Config_String_def maskURL_at)


section \<open>Concrete instances\<close>

definition ex_main :: "list_db main_env" where
  "ex_main = \<lparr>me_env = [''DEV_MODE'' \<mapsto> ''1'', ''DB_URL'' \<mapsto> ''postgres://db''], me_http_get = (\<lambda>_. Inl ''refused''),
     me_otel_init = None, me_sql_open = (\<lambda>_. None), me_ping = (\<lambda>_. None), me_sql = list_sql,
     me_initUp = ''up'', me_run = (\<lambda>_. None)\<rparr>"



definition ex_fx_pricer :: "json \<Rightarrow> dec10 Pricer" where
  "ex_fx_pricer j = ex_pricer\<lparr>pr_fx := Some (as_fx_client (FetchFX (\<lambda>_. Inr (200, Some j)) \<lparr>fx_BaseURL = ''http://fx''\<rparr>))\<rparr>"


end
