(* ===== verification/Otel.thy ===== *)
theory Otel
  imports Startup
begin

text \<open>
  \<open>internal/otel\<close>: the set-up of the process-wide tracer and meter providers. The OpenTelemetry SDK is not
  part of the repository: its constructors that can fail are a record of functions, and what a provider
  does when it is shut down is an argument. An error wrapped by \<open>fmt.Errorf\<close> is its text.
\<close>

section \<open>The SDK and the global providers\<close>

record ('r, 't, 'm) otel_sdk =
  so_resource :: "string \<Rightarrow> string + 'r"
  so_traceExporter :: "string \<Rightarrow> string + 't"
  so_metricExporter :: "string \<Rightarrow> string + 'm"

datatype ('r, 't) tracer_provider = Plain_tracer | Batch_tracer 't 'r

datatype ('r, 'm) meter_provider = Noop_meter | Periodic_meter 'm 'r

record ('r, 't, 'm) otel_globals =
  og_tracer :: "('r, 't) tracer_provider option"
  og_meter :: "('r, 'm) meter_provider option"
  og_propagator :: "string list"

datatype ('r, 't, 'm) otel_shutdown =
    Shutdown_nothing
  | Shutdown_both "('r, 't) tracer_provider" "('r, 'm) meter_provider"

definition set_providers ::
    "('r, 't) tracer_provider \<Rightarrow> ('r, 'm) meter_provider \<Rightarrow> ('r, 't, 'm) otel_globals \<Rightarrow> ('r, 't, 'm) otel_globals" where
  "set_providers tp mp g = g\<lparr>og_tracer := Some tp, og_meter := Some mp, og_propagator := [''tracecontext'', ''baggage'']\<rparr>"

section \<open>Init\<close>

definition otel_endpoint :: "environment \<Rightarrow> string" where
  "otel_endpoint env = TrimSpace (Getenv env ''OTEL_EXPORTER_OTLP_ENDPOINT'')"

definition otel_service :: "environment \<Rightarrow> string \<Rightarrow> string" where
  "otel_service env serviceName =
     (let name = TrimSpace (Getenv env ''OTEL_SERVICE_NAME'') in if name \<noteq> [] then name else serviceName)"

definition otel_target :: "string \<Rightarrow> string" where
  "otel_target endpoint = TrimPrefix (TrimPrefix endpoint ''http://'') ''grpc://''"

definition otel_Init ::
    "('r, 't, 'm) otel_sdk \<Rightarrow> environment \<Rightarrow> string \<Rightarrow> ('r, 't, 'm) otel_globals \<Rightarrow>
     (string + ('r, 't, 'm) otel_shutdown) \<times> ('r, 't, 'm) otel_globals" where
  "otel_Init K env serviceName g =
     (if otel_endpoint env = [] then (Inr Shutdown_nothing, set_providers Plain_tracer Noop_meter g)
      else let target = otel_target (otel_endpoint env) in
        case so_resource K (otel_service env serviceName) of
          Inl err \<Rightarrow> (Inl (''otel resource: '' @ err), g)
        | Inr res \<Rightarrow>
            (case so_traceExporter K target of
               Inl err \<Rightarrow> (Inl (''otel trace exporter: '' @ err), g)
             | Inr spanExp \<Rightarrow>
                 (case so_metricExporter K target of
                    Inl err \<Rightarrow> (Inl (''otel metric exporter: '' @ err), g)
                  | Inr metricExp \<Rightarrow>
                      (let tp = Batch_tracer spanExp res; mp = Periodic_meter metricExp res
                       in (Inr (Shutdown_both tp mp), set_providers tp mp g)))))"

text \<open>Both providers are shut down, whatever the first one returns; its error is the one reported.\<close>

definition otel_Shutdown ::
    "(('r, 't) tracer_provider \<Rightarrow> 's \<Rightarrow> string option \<times> 's) \<Rightarrow> (('r, 'm) meter_provider \<Rightarrow> 's \<Rightarrow> string option \<times> 's) \<Rightarrow>
     ('r, 't, 'm) otel_shutdown \<Rightarrow> 's \<Rightarrow> string option \<times> 's" where
  "otel_Shutdown tpShutdown mpShutdown sd s =
     (case sd of
        Shutdown_nothing \<Rightarrow> (None, s)
      | Shutdown_both tp mp \<Rightarrow>
          (case tpShutdown tp s of
             (t, s1) \<Rightarrow>
               (case mpShutdown mp s1 of
                  (m, s2) \<Rightarrow>
                    (let traceErr = map_option ((@) ''trace shutdown: '') t;
                         metricErr = map_option ((@) ''metric shutdown: '') m
                     in (if traceErr \<noteq> None then traceErr else metricErr, s2)))))"

section \<open>Lemmas\<close>

lemma otel_target_schemes:
  "otel_target (''http://'' @ host) = TrimPrefix host ''grpc://''" "otel_target (''grpc://'' @ host) = host"
  "otel_target (''https://'' @ host) = ''https://'' @ host"
  by (simp_all add: otel_target_def TrimPrefix_def HasPrefix_def)

text \<open>
  \<open>Init\<close> installs both providers or, with an error, neither; it can only fail with an endpoint set, and
  without one it installs providers that export nothing. Both exporters get the same endpoint.
\<close>

lemma otel_Init_all_or_nothing:
  assumes "otel_Init K env name g = (r, g')"
  shows "(\<exists>err. r = Inl err \<and> g' = g \<and> otel_endpoint env \<noteq> []) \<or>
    (r = Inr Shutdown_nothing \<and> g' = set_providers Plain_tracer Noop_meter g \<and> otel_endpoint env = []) \<or>
    (\<exists>res spanExp metricExp.
      r = Inr (Shutdown_both (Batch_tracer spanExp res) (Periodic_meter metricExp res)) \<and>
      g' = set_providers (Batch_tracer spanExp res) (Periodic_meter metricExp res) g \<and>
      so_resource K (otel_service env name) = Inr res \<and>
      so_traceExporter K (otel_target (otel_endpoint env)) = Inr spanExp \<and>
      so_metricExporter K (otel_target (otel_endpoint env)) = Inr metricExp)"
  using assms by (auto simp: otel_Init_def Let_def split: if_splits sum.splits)

lemma otel_Shutdown_both:
  assumes "tpShutdown tp s = (t, s1)" and "mpShutdown mp s1 = (m, s2)"
  shows "snd (otel_Shutdown tpShutdown mpShutdown (Shutdown_both tp mp) s) = s2"
    and "fst (otel_Shutdown tpShutdown mpShutdown (Shutdown_both tp mp) s) = None \<longleftrightarrow> t = None \<and> m = None"
  using assms by (auto simp: otel_Shutdown_def)

section \<open>Telemetry of the server command\<close>

text \<open>
  \<open>main\<close> sets the providers up before anything else and defers their shutdown. A deferred call runs when
  \<open>main\<close> returns, not when it calls \<open>os.Exit\<close>.
\<close>

definition main_with_telemetry ::
    "('r, 't, 'm) otel_sdk \<Rightarrow> (('r, 't) tracer_provider \<Rightarrow> 's \<Rightarrow> string option \<times> 's) \<Rightarrow>
     (('r, 'm) meter_provider \<Rightarrow> 's \<Rightarrow> string option \<times> 's) \<Rightarrow> 'db main_env \<Rightarrow> bool \<Rightarrow>
     ('r, 't, 'm) otel_globals \<Rightarrow> 's \<Rightarrow> 'db \<Rightarrow> main_outcome \<times> ('r, 't, 'm) otel_globals \<times> 's \<times> 'db" where
  "main_with_telemetry K tpShutdown mpShutdown P healthcheck g s db =
     (if healthcheck then (case main_program P True db of (out, db') \<Rightarrow> (out, g, s, db'))
      else case otel_Init K (me_env P) ''pricing-quote'' g of
             (Inl err, g') \<Rightarrow>
               (case main_program (P\<lparr>me_otel_init := Some err\<rparr>) False db of (out, db') \<Rightarrow> (out, g', s, db'))
           | (Inr shutdown, g') \<Rightarrow>
               (case main_program (P\<lparr>me_otel_init := None\<rparr>) False db of
                  (out, db') \<Rightarrow>
                    (out, g', if mo_exit out = 0 then snd (otel_Shutdown tpShutdown mpShutdown shutdown s) else s, db')))"

text \<open>
  A run that returns shuts both providers down. A run that ends with an error after they were set up shuts
  down neither, so what they still hold is lost. Without an endpoint the set-up never stops the server.
\<close>

lemma main_telemetry_shutdown:
  assumes run: "main_with_telemetry K tpShutdown mpShutdown P False g s db = (out, g', s', db')"
    and init: "otel_Init K (me_env P) ''pricing-quote'' g = (Inr (Shutdown_both tp mp), g1)"
  shows "g' = g1 \<and> (mo_exit out = 0 \<longrightarrow> s' = snd (mpShutdown mp (snd (tpShutdown tp s)))) \<and>
    (mo_exit out \<noteq> 0 \<longrightarrow> s' = s)"
  using run init
  by (auto simp: main_with_telemetry_def otel_Shutdown_def split: prod.splits)

lemma main_without_endpoint:
  assumes "otel_endpoint (me_env P) = []"
  shows "main_with_telemetry K tpShutdown mpShutdown P False g s db =
    (case main_program (P\<lparr>me_otel_init := None\<rparr>) False db of
       (out, db') \<Rightarrow> (out, set_providers Plain_tracer Noop_meter g, s, db'))"
  using assms by (simp add: main_with_telemetry_def otel_Init_def otel_Shutdown_def split: prod.split)

end
