(* ===== verification/Audit_Log.thy ===== *)
theory Audit_Log
  imports Go_Prelude Uuid_Interface "HOL-Library.Sublist"
begin

text \<open>
  The audit log of \<open>internal/quotes.go\<close>: an append-only list of events with a bounded queue that a
  dispatch goroutine drains into a sink. The goroutine is a step relation, interleaved with the calls
  of \<open>Append\<close> and \<open>Close\<close>.
\<close>

section \<open>Events and log\<close>

record AuditEvent =
  ae_Type :: string
  ae_QuoteID :: uuid
  ae_UserTier :: string
  ae_SourceVenue :: string
  ae_Reason :: string
  ae_At :: time

text \<open>
  An event literal without \<open>At\<close> has the zero time there. A sink is a callback on a state of its own;
  its result is whether it returned an error.
\<close>

definition new_event :: "string \<Rightarrow> uuid \<Rightarrow> string \<Rightarrow> string \<Rightarrow> string \<Rightarrow> AuditEvent" where
  "new_event typ i tier venue reason = \<lparr>ae_Type = typ, ae_QuoteID = i, ae_UserTier = tier,
     ae_SourceVenue = venue, ae_Reason = reason, ae_At = zero_time\<rparr>"

type_synonym 's AuditSink = "AuditEvent \<Rightarrow> 's \<Rightarrow> bool \<times> 's"

definition memAuditSink_Send :: "(AuditEvent list) AuditSink" where
  "memAuditSink_Send e events = (False, events @ [e])"

definition memAuditSink_snapshot :: "AuditEvent list \<Rightarrow> AuditEvent list" where
  "memAuditSink_snapshot events = events"

text \<open>Where the dispatch goroutine is: in its loop, draining after the stop signal, or returned.\<close>

datatype dispatch_phase = Dispatching | Draining | Returned

record AuditLog =
  al_local :: "AuditEvent list"
  al_queue :: "AuditEvent list"
  al_cap :: nat
  al_dropped :: int
  al_stop :: bool
  al_phase :: dispatch_phase

definition NewAuditLogWithSink :: "int \<Rightarrow> AuditLog" where
  "NewAuditLogWithSink queueSize =
     \<lparr>al_local = [], al_queue = [], al_cap = nat (if queueSize \<le> 0 then 256 else queueSize),
      al_dropped = 0, al_stop = False, al_phase = Dispatching\<rparr>"

definition NewAuditLog :: AuditLog where
  "NewAuditLog = NewAuditLogWithSink 256"

text \<open>A non-blocking send to the queue: the event is dropped and counted if the queue is full.\<close>

definition enqueue :: "AuditEvent \<Rightarrow> AuditLog \<Rightarrow> AuditLog" where
  "enqueue e a =
     (if length (al_queue a) < al_cap a then a\<lparr>al_queue := al_queue a @ [e]\<rparr>
      else a\<lparr>al_dropped := al_dropped a + 1\<rparr>)"

definition stamp :: "clock \<Rightarrow> AuditEvent \<Rightarrow> AuditEvent" where
  "stamp ck e = (if ae_At e = zero_time then e\<lparr>ae_At := ck 0\<rparr> else e)"

definition Append :: "clock \<Rightarrow> AuditEvent \<Rightarrow> AuditLog \<Rightarrow> AuditLog" where
  "Append ck e a =
     (let e' = stamp ck e
      in enqueue e' (a\<lparr>al_local := snd (memAuditSink_Send e' (al_local a))\<rparr>))"

definition Events :: "AuditLog \<Rightarrow> AuditEvent list" where
  "Events a = memAuditSink_snapshot (al_local a)"

definition Dropped :: "AuditLog \<Rightarrow> int" where
  "Dropped a = al_dropped a"

text \<open>The signal of \<open>Close\<close>; closing a closed channel panics. \<open>Close\<close> then waits for \<open>Returned\<close>.\<close>

definition Close :: "AuditLog \<Rightarrow> AuditLog option" where
  "Close a = (if al_stop a then None else Some (a\<lparr>al_stop := True\<rparr>))"

section \<open>The dispatch goroutine\<close>

text \<open>
  One pass of the loop on an event received; the two receives differ in what a failed send does. With
  no sink an event is consumed.
\<close>

definition dispatch_event :: "'s AuditSink option \<Rightarrow> AuditEvent \<Rightarrow> AuditLog \<Rightarrow> 's \<Rightarrow> AuditLog \<times> 's" where
  "dispatch_event sink e a \<sigma> =
     (case sink of
        None \<Rightarrow> (a, \<sigma>)
      | Some Send \<Rightarrow> (let (err, \<sigma>') = Send e \<sigma> in (if err then enqueue e a else a, \<sigma>')))"

definition drain_event :: "'s AuditSink option \<Rightarrow> AuditEvent \<Rightarrow> 's \<Rightarrow> 's" where
  "drain_event sink e \<sigma> = (case sink of None \<Rightarrow> \<sigma> | Some Send \<Rightarrow> snd (Send e \<sigma>))"

text \<open>
  A \<open>select\<close> with several ready cases takes any of them, so a step is a relation: with the stop signal
  given, the loop may still take events from the queue.
\<close>

inductive dispatch :: "'s AuditSink option \<Rightarrow> AuditLog \<times> 's \<Rightarrow> AuditLog \<times> 's \<Rightarrow> bool"
  for sink where
  d_recv: "al_phase a = Dispatching \<Longrightarrow> al_queue a = e # q \<Longrightarrow>
    dispatch sink (a, \<sigma>) (dispatch_event sink e (a\<lparr>al_queue := q\<rparr>) \<sigma>)"
| d_stop: "al_phase a = Dispatching \<Longrightarrow> al_stop a \<Longrightarrow>
    dispatch sink (a, \<sigma>) (a\<lparr>al_phase := Draining\<rparr>, \<sigma>)"
| d_drain: "al_phase a = Draining \<Longrightarrow> al_queue a = e # q \<Longrightarrow>
    dispatch sink (a, \<sigma>) (a\<lparr>al_queue := q\<rparr>, drain_event sink e \<sigma>)"
| d_return: "al_phase a = Draining \<Longrightarrow> al_queue a = [] \<Longrightarrow>
    dispatch sink (a, \<sigma>) (a\<lparr>al_phase := Returned\<rparr>, \<sigma>)"

text \<open>Runs of the log: appends, the stop signal and dispatch steps; the list has the events appended.\<close>

inductive audit_run ::
    "'s AuditSink option \<Rightarrow> AuditLog \<times> 's \<Rightarrow> AuditEvent list \<Rightarrow> AuditLog \<times> 's \<Rightarrow> bool"
  for sink x where
  ar_start: "audit_run sink x [] x"
| ar_append: "audit_run sink x es (a, \<sigma>) \<Longrightarrow> audit_run sink x (es @ [stamp ck e]) (Append ck e a, \<sigma>)"
| ar_close: "audit_run sink x es (a, \<sigma>) \<Longrightarrow> Close a = Some a' \<Longrightarrow> audit_run sink x es (a', \<sigma>)"
| ar_dispatch: "audit_run sink x es y \<Longrightarrow> dispatch sink y z \<Longrightarrow> audit_run sink x es z"

inductive_cases dispatchE: "dispatch sink x y"

section \<open>Bounds and delivery\<close>

definition audit_inv :: "AuditLog \<Rightarrow> bool" where
  "audit_inv a \<longleftrightarrow> length (al_queue a) \<le> al_cap a \<and> 0 < al_cap a \<and> 0 \<le> al_dropped a \<and>
     (al_phase a \<noteq> Dispatching \<longrightarrow> al_stop a)"

lemma audit_inv_New: "audit_inv (NewAuditLogWithSink n)"
  by (simp add: audit_inv_def NewAuditLogWithSink_def)

lemma audit_inv_enqueue: "audit_inv a \<Longrightarrow> audit_inv (enqueue e a)"
  by (simp add: audit_inv_def enqueue_def)

lemma audit_inv_Append: "audit_inv a \<Longrightarrow> audit_inv (Append ck e a)"
  by (auto simp: Append_def Let_def intro!: audit_inv_enqueue) (simp add: audit_inv_def)

lemma enqueue_local [simp]: "al_local (enqueue e a) = al_local a"
  by (simp add: enqueue_def)

lemma Events_Append [simp]: "Events (Append ck e a) = Events a @ [stamp ck e]"
  by (simp add: Events_def memAuditSink_snapshot_def Append_def Let_def memAuditSink_Send_def)

lemma dispatch_keeps:
  assumes "dispatch sink x y" and "audit_inv (fst x)"
  shows "audit_inv (fst y) \<and> al_local (fst y) = al_local (fst x)"
  using assms
  by (induction rule: dispatch.induct)
    (auto simp: dispatch_event_def Let_def split: option.split prod.split if_splits
      intro!: audit_inv_enqueue, auto simp: audit_inv_def)

text \<open>What has reached a sink that never fails, and what waits for it, is in order of the log.\<close>

definition delivered_inv :: "AuditLog \<times> AuditEvent list \<Rightarrow> bool" where
  "delivered_inv x \<longleftrightarrow> subseq (snd x @ al_queue (fst x)) (al_local (fst x)) \<and>
     int (length (al_local (fst x))) =
       int (length (snd x)) + int (length (al_queue (fst x))) + al_dropped (fst x)"

lemma delivered_dispatch:
  assumes "dispatch (Some memAuditSink_Send) x y" and "delivered_inv x"
  shows "delivered_inv y"
  using assms
  by (cases rule: dispatch.cases)
    (auto simp: delivered_inv_def dispatch_event_def drain_event_def memAuditSink_Send_def)

lemma delivered_Append:
  assumes "delivered_inv (a, \<sigma>)"
  shows "delivered_inv (Append ck e a, \<sigma>)"
proof (cases "length (al_queue a) < al_cap a")
  case True
  have "subseq ((\<sigma> @ al_queue a) @ [stamp ck e]) (al_local a @ [stamp ck e])"
    using assms by (simp only: subseq_append) (simp add: delivered_inv_def)
  with True assms show ?thesis
    by (simp add: delivered_inv_def Append_def Let_def enqueue_def memAuditSink_Send_def)
next
  case False
  with assms show ?thesis
    by (simp add: delivered_inv_def Append_def Let_def enqueue_def memAuditSink_Send_def
        subseq_rev_drop_many)
qed

lemma audit_run_inv:
  assumes "audit_run sink x es y" and "audit_inv (fst x)"
  shows "audit_inv (fst y) \<and> Events (fst y) = Events (fst x) @ es"
  using assms
proof (induction rule: audit_run.induct)
  case (ar_append es a \<sigma> ck e)
  then show ?case by (auto simp: audit_inv_Append)
next
  case (ar_close es a \<sigma> a')
  then show ?case
    by (auto simp: Close_def audit_inv_def Events_def split: if_splits)
next
  case (ar_dispatch es y z)
  then show ?case using dispatch_keeps [of sink y z] by (auto simp: Events_def)
qed simp

lemma audit_run_delivered:
  assumes "audit_run (Some memAuditSink_Send) x es y" and "delivered_inv x"
  shows "delivered_inv y"
  using assms
proof (induction rule: audit_run.induct)
  case (ar_close es a \<sigma> a')
  then show ?case by (auto simp: Close_def delivered_inv_def split: if_splits)
qed (auto intro: delivered_Append delivered_dispatch)


text \<open>The drain after the stop signal is deterministic, and ends.\<close>

lemma drain_steps:
  assumes "al_phase a = Draining"
  shows "(dispatch sink)\<^sup>*\<^sup>* (a, \<sigma>)
    (a\<lparr>al_queue := [], al_phase := Returned\<rparr>, fold (drain_event sink) (al_queue a) \<sigma>)"
  using assms
proof (induction "al_queue a" arbitrary: a \<sigma>)
  case Nil
  have "dispatch sink (a, \<sigma>) (a\<lparr>al_phase := Returned\<rparr>, \<sigma>)"
    by (rule d_return) (use Nil in simp_all)
  moreover have "a\<lparr>al_queue := [], al_phase := Returned\<rparr> = a\<lparr>al_phase := Returned\<rparr>"
    using Nil(1) by (cases a) simp
  ultimately have "dispatch sink (a, \<sigma>) (a\<lparr>al_queue := [], al_phase := Returned\<rparr>, \<sigma>)" by metis
  then show ?case by (simp flip: Nil(1))
next
  case (Cons e q)
  have "dispatch sink (a, \<sigma>) (a\<lparr>al_queue := q\<rparr>, drain_event sink e \<sigma>)"
    by (rule d_drain [of a e q]) (use Cons in simp_all)
  moreover have "(dispatch sink)\<^sup>*\<^sup>* (a\<lparr>al_queue := q\<rparr>, drain_event sink e \<sigma>)
      (a\<lparr>al_queue := [], al_phase := Returned\<rparr>, fold (drain_event sink) (al_queue a) \<sigma>)"
    using Cons.hyps(1) [of "a\<lparr>al_queue := q\<rparr>" "drain_event sink e \<sigma>"] Cons.prems
    by (simp flip: Cons.hyps(2))
  ultimately show ?case by (rule converse_rtranclp_into_rtranclp)
qed

lemma dispatch_det:
  "dispatch sink (a, \<sigma>) y \<Longrightarrow> dispatch sink (a, \<sigma>) z \<Longrightarrow> al_phase a = Draining \<Longrightarrow> y = z"
  by (elim dispatchE) auto

lemma returned_stays: "al_phase a = Returned \<Longrightarrow> \<not> dispatch sink (a, \<sigma>) y"
  by (auto elim: dispatchE)

lemma drain_next:
  "dispatch sink (a, \<sigma>) (b, \<tau>) \<Longrightarrow> al_phase a = Draining \<Longrightarrow>
   al_phase b = Draining \<and> fold (drain_event sink) (al_queue b) \<tau> = fold (drain_event sink) (al_queue a) \<sigma> \<and>
     length (al_queue b) < length (al_queue a) \<or>
   al_phase b = Returned \<and> al_queue a = [] \<and> al_queue b = [] \<and> \<tau> = \<sigma>"
  by (elim dispatchE) auto

text \<open>
  (C34) Once the goroutine has seen the stop signal it returns after finitely many steps, with the queue
  empty and every queued event handed to the sink in order; it can end in no other way, and a second
  \<open>Close\<close> panics.
\<close>

theorem drain_flushes_queue:
  assumes "al_phase a = Draining"
  shows "(dispatch sink)\<^sup>*\<^sup>* (a, \<sigma>)
      (a\<lparr>al_queue := [], al_phase := Returned\<rparr>, fold (drain_event sink) (al_queue a) \<sigma>) \<and>
    ((dispatch sink)\<^sup>*\<^sup>* (a, \<sigma>) (b, \<tau>) \<and> al_phase b = Returned \<longrightarrow>
      al_queue b = [] \<and> \<tau> = fold (drain_event sink) (al_queue a) \<sigma>) \<and>
    (\<forall>a'. Close a = Some a' \<longrightarrow> Close a' = None)"
proof (intro conjI)
  show "(dispatch sink)\<^sup>*\<^sup>* (a, \<sigma>)
      (a\<lparr>al_queue := [], al_phase := Returned\<rparr>, fold (drain_event sink) (al_queue a) \<sigma>)"
    by (rule drain_steps [OF assms])
  have "al_phase (fst x) = Draining \<longrightarrow> al_phase (fst y) = Returned \<longrightarrow>
      al_queue (fst y) = [] \<and> snd y = fold (drain_event sink) (al_queue (fst x)) (snd x)"
    if "(dispatch sink)\<^sup>*\<^sup>* x y" for x y
    using that
  proof (induction rule: converse_rtranclp_induct)
    case (step x z)
    show ?case
    proof (intro impI)
      assume "al_phase (fst x) = Draining" and "al_phase (fst y) = Returned"
      moreover have "z = y" if "al_phase (fst z) = Returned"
        using step(2) that by (cases z) (auto elim: converse_rtranclpE simp: returned_stays)
      ultimately show "al_queue (fst y) = [] \<and> snd y = fold (drain_event sink) (al_queue (fst x)) (snd x)"
        using drain_next [of sink "fst x" "snd x" "fst z" "snd z"] step(1,3)
        by (metis fold_simps(1) id_apply prod.collapse)
    qed
  qed simp
  from this [of "(a, \<sigma>)" "(b, \<tau>)"] assms
  show "(dispatch sink)\<^sup>*\<^sup>* (a, \<sigma>) (b, \<tau>) \<and> al_phase b = Returned \<longrightarrow>
      al_queue b = [] \<and> \<tau> = fold (drain_event sink) (al_queue a) \<sigma>" by simp
  show "\<forall>a'. Close a = Some a' \<longrightarrow> Close a' = None" by (auto simp: Close_def)
qed

section \<open>Concrete instances\<close>

definition ex_event :: "string \<Rightarrow> AuditEvent" where
  "ex_event typ = new_event typ 1 ''TIER_1'' ''kraken'' []"

text \<open>A queue of one, two events appended before the goroutine runs: the second is dropped.\<close>

definition ex_audit :: AuditLog where
  "ex_audit = Append (\<lambda>_. 8) (ex_event ''quote.claimed'')
     (Append (\<lambda>_. 7) (ex_event ''quote.issued'') (NewAuditLogWithSink 1))"


theorem drain_flushes_queue_witness:
  "(dispatch (Some memAuditSink_Send))\<^sup>*\<^sup>* (ex_audit\<lparr>al_stop := True, al_phase := Draining\<rparr>, [])
     (ex_audit\<lparr>al_stop := True, al_queue := [], al_phase := Returned\<rparr>,
      [stamp (\<lambda>_. 7) (ex_event ''quote.issued'')])"
proof -
  have "al_queue ex_audit = [stamp (\<lambda>_. 7) (ex_event ''quote.issued'')]"
    by (simp add: ex_audit_def Append_def Let_def enqueue_def NewAuditLogWithSink_def)
  then show ?thesis
    using drain_flushes_queue [of "ex_audit\<lparr>al_stop := True, al_phase := Draining\<rparr>"
        "Some memAuditSink_Send" "[]"]
    by (simp add: drain_event_def memAuditSink_Send_def)
qed

end
