(* ===== verification/Claim_Service.thy ===== *)
theory Claim_Service
  imports Quote_Store Lock_Store Spot_Service Audit_Log Uuid_Interface
begin

text \<open>
  \<open>internal/claim.go\<close>: the claim of a quote with its expiry, lock and slippage guards, and the refresh.
  The objects the service points to are shared with the server, so they form a record \<open>Shared\<close> that
  the operations take and return and that the server's state extends. What the operations need of
  other packages and of the configuration is in \<open>deps\<close>.
\<close>

section \<open>State\<close>

record ('d, 'l) deps =
  dp_decimal :: "'d decimal_ops"
  dp_uuid :: uuid_ops
  dp_locks :: "'l LockBackend"
  dp_poll :: "'d poll_hook"

record ('d, 'l) Shared =
  sh_store :: "'d Store"
  sh_locks :: 'l
  sh_spot :: "'d SpotService"
  sh_audit :: AuditLog
  sh_metrics :: metrics

record 'd ClaimResult =
  cl_Quote :: "'d Quote option"
  cl_Reason :: string
  cl_Stale :: bool

record ClaimService =
  cs_slippageToleranceBPS :: int

definition NewClaimService :: "int \<Rightarrow> ClaimService" where
  "NewClaimService slipBPS = \<lparr>cs_slippageToleranceBPS = slipBPS\<rparr>"

definition lockKey :: "uuid_ops \<Rightarrow> uuid \<Rightarrow> string" where
  "lockKey U i = ''lock:quote:'' @ uString U i"

definition set_status :: "QuoteStatus \<Rightarrow> 'd Quote \<Rightarrow> 'd Quote" where
  "set_status st q = q\<lparr>q_Status := st\<rparr>"

definition mark_claimed :: "time \<Rightarrow> string \<Rightarrow> 'd Quote \<Rightarrow> 'd Quote" where
  "mark_claimed now claimedBy q =
     q\<lparr>q_Status := StatusClaimed, q_ClaimedAt := Some now, q_ClaimedBy := claimedBy\<rparr>"

definition claim_rejected :: "string \<Rightarrow> 'd Quote option \<Rightarrow> 'd ClaimResult" where
  "claim_rejected reason q = \<lparr>cl_Quote = q, cl_Reason = reason, cl_Stale = False\<rparr>"

text \<open>An audit event about a quote.\<close>

definition quote_event :: "string \<Rightarrow> uuid \<Rightarrow> 'd Quote \<Rightarrow> string \<Rightarrow> AuditEvent" where
  "quote_event typ i q reason = new_event typ i (q_UserTier q) (q_SourceVenue q) reason"

definition append_audit ::
    "clock \<Rightarrow> AuditEvent \<Rightarrow> ('d, 'l, 'z) Shared_scheme \<Rightarrow> ('d, 'l, 'z) Shared_scheme" where
  "append_audit ck e w = w\<lparr>sh_audit := Append ck e (sh_audit w)\<rparr>"

definition update_quote ::
    "uuid \<Rightarrow> ('d Quote \<Rightarrow> 'd Quote) \<Rightarrow> ('d, 'l, 'z) Shared_scheme \<Rightarrow>
     'd Quote option \<times> ('d, 'l, 'z) Shared_scheme" where
  "update_quote i fn w = (let (r, st) = UpdateQuote i fn (sh_store w) in (r, w\<lparr>sh_store := st\<rparr>))"

section \<open>Claim\<close>

text \<open>
  The slippage guard: whether the current rate is more than the tolerance away from the locked one.
  \<open>None\<close> stands for a panic of a division. The lock's payload is unmarshalled into a variable that
  nothing reads, so the guard compares with the rate of the quote's row.
\<close>

definition slippage_base :: "'d decimal_ops \<Rightarrow> 'd Rate \<Rightarrow> 'd option" where
  "slippage_base D r =
     (if dGreaterThan D (r_Mid r) (dZero D) then Some (r_Mid r)
      else dDiv D (dAdd D (r_Bid r) (r_Ask r)) (dNewFromInt D 2))"

definition slippage_exceeded :: "'d decimal_ops \<Rightarrow> int \<Rightarrow> 'd Rate \<Rightarrow> 'd \<Rightarrow> bool option" where
  "slippage_exceeded D tol r locked =
     do { base \<leftarrow> slippage_base D r;
          if dGreaterThan D base (dZero D) \<and> dGreaterThan D locked (dZero D)
          then do { rel \<leftarrow> dDiv D (dSub D base locked) locked;
                    let bps = dMul D rel (dNewFromInt D 10000);
                        bps' = (if dLessThan D bps (dZero D) then dNeg D bps else bps)
                    in Some (tol < dIntPart D bps') }
          else Some False }"

text \<open>The last part: the row is marked as claimed, the clock read before the update.\<close>

definition Claim_commit ::
    "clock \<Rightarrow> uuid \<Rightarrow> string \<Rightarrow> 'd Quote \<Rightarrow> ('d, 'l, 'z) Shared_scheme \<Rightarrow>
     'd ClaimResult option \<times> ('d, 'l, 'z) Shared_scheme" where
  "Claim_commit ck i claimedBy q w =
     (case update_quote i (mark_claimed (ck 0) claimedBy) w of
        (None, w') \<Rightarrow> (Some (claim_rejected ''missing'' (Some q)), w')
      | (Some updated, w') \<Rightarrow>
          (Some (claim_rejected [] (Some updated)),
           append_audit (later 1 ck) (quote_event ''quote.claimed'' i q []) w'))"

text \<open>The part after the lock is taken: the current spot rate and the slippage guard.\<close>

definition Claim_locked ::
    "('d, 'l) deps \<Rightarrow> clock \<Rightarrow> ClaimService \<Rightarrow> uuid \<Rightarrow> string \<Rightarrow> 'd Quote \<Rightarrow>
     ('d, 'l, 'z) Shared_scheme \<Rightarrow> 'd ClaimResult option \<times> ('d, 'l, 'z) Shared_scheme" where
  "Claim_locked E ck c i claimedBy q w =
     (let (curRate, s', m') =
            Get (dp_decimal E) ck (dp_poll E) (q_From q) (q_To q) (sh_spot w) (sh_metrics w);
          w1 = w\<lparr>sh_spot := s', sh_metrics := m'\<rparr>
      in case (case curRate of
                 Inl err \<Rightarrow> Some False
               | Inr r \<Rightarrow> slippage_exceeded (dp_decimal E) (cs_slippageToleranceBPS c) r (q_LockedRate q)) of
           None \<Rightarrow> (None, w1)
         | Some True \<Rightarrow>
             (Some (claim_rejected ''slippage_exceeded'' (Some q)),
              append_audit (later 2 ck)
                (quote_event ''quote.slippage_rejected'' i q ''slippage_exceeded'') w1)
         | Some False \<Rightarrow> Claim_commit (later 2 ck) i claimedBy q w1)"

definition Claim ::
    "('d, 'l) deps \<Rightarrow> clock \<Rightarrow> ClaimService \<Rightarrow> uuid \<Rightarrow> string \<Rightarrow> ('d, 'l, 'z) Shared_scheme \<Rightarrow>
     'd ClaimResult option \<times> ('d, 'l, 'z) Shared_scheme" where
  "Claim E ck c i claimedBy w =
     (case GetQuote (sh_store w) i of
        None \<Rightarrow> (Some (claim_rejected ''missing'' None), w)
      | Some q \<Rightarrow>
          if q_Status q = StatusCanceled \<or> q_Status q = StatusExpired
          then (Some (claim_rejected ''EXPIRED'' (Some q)), w)
          else if q_Status q = StatusClaimed
          then (Some (claim_rejected ''already_claimed'' (Some q)), w)
          else if q_ExpiresAt q < ck 0
          then (Some (claim_rejected ''EXPIRED'' (Some (set_status StatusExpired q))),
                append_audit (later 1 ck) (quote_event ''quote.expired'' i q [])
                  (snd (update_quote i (set_status StatusExpired) w)))
          else (case lb_Claim (dp_locks E) (later 1 ck) (lockKey (dp_uuid E) i) (sh_locks w) of
                  (None, l) \<Rightarrow> (Some (claim_rejected ''already_claimed'' (Some q)), w\<lparr>sh_locks := l\<rparr>)
                | (Some lockVal, l) \<Rightarrow>
                    Claim_locked E (later 2 ck) c i claimedBy q (w\<lparr>sh_locks := l\<rparr>)))"

section \<open>Refresh\<close>

text \<open>The compute callback is code of the caller, with its own effect on the shared objects.\<close>

datatype 'e refresh_error = RefreshNotFound | RefreshFailed 'e

definition Refresh ::
    "('d, 'l) deps \<Rightarrow> clock \<Rightarrow> uuid \<Rightarrow>
     ('d Quote \<Rightarrow> ('d, 'l, 'z) Shared_scheme \<Rightarrow> ('e + 'd Quote) \<times> ('d, 'l, 'z) Shared_scheme) \<Rightarrow>
     ('d, 'l, 'z) Shared_scheme \<Rightarrow> ('e refresh_error + 'd Quote) \<times> ('d, 'l, 'z) Shared_scheme" where
  "Refresh E ck i compute w =
     (case GetQuote (sh_store w) i of
        None \<Rightarrow> (Inl RefreshNotFound, w)
      | Some old \<Rightarrow>
          (let w1 = snd (update_quote i (set_status StatusCanceled) w);
               w2 = w1\<lparr>sh_locks := snd (lb_Del (dp_locks E) (lockKey (dp_uuid E) i) (sh_locks w1))\<rparr>;
               w3 = append_audit ck (quote_event ''quote.refreshed'' i old []) w2
           in case compute old w3 of
                (Inl err, w4) \<Rightarrow> (Inl (RefreshFailed err), w4)
              | (Inr nq, w4) \<Rightarrow> (Inr nq, w4)))"

section \<open>Frames\<close>

lemma append_audit_simps [simp]:
  "sh_store (append_audit ck e w) = sh_store w" "sh_locks (append_audit ck e w) = sh_locks w"
  "sh_spot (append_audit ck e w) = sh_spot w" "sh_metrics (append_audit ck e w) = sh_metrics w"
  "sh_audit (append_audit ck e w) = Append ck e (sh_audit w)"
  by (simp_all add: append_audit_def)

lemma update_quote_simps [simp]:
  "fst (update_quote i fn w) = map_option fn (GetQuote (sh_store w) i)"
  "sh_store (snd (update_quote i fn w)) = snd (UpdateQuote i fn (sh_store w))"
  "sh_locks (snd (update_quote i fn w)) = sh_locks w"
  "sh_spot (snd (update_quote i fn w)) = sh_spot w"
  "sh_audit (snd (update_quote i fn w)) = sh_audit w"
  "sh_metrics (snd (update_quote i fn w)) = sh_metrics w"
  by (simp_all add: update_quote_def Let_def split: prod.split) (metis UpdateQuote_result fst_conv)

lemma status_simps [simp]:
  "q_Status (set_status st q) = st" "q_QuoteID (set_status st q) = q_QuoteID q"
  "q_ExpiresAt (set_status st q) = q_ExpiresAt q"
  "q_Status (mark_claimed t by q) = StatusClaimed" "q_QuoteID (mark_claimed t by q) = q_QuoteID q"
  "q_ExpiresAt (mark_claimed t by q) = q_ExpiresAt q"
  by (simp_all add: set_status_def mark_claimed_def)

lemma claim_rejected_simps [simp]:
  "cl_Reason (claim_rejected reason q) = reason" "cl_Quote (claim_rejected reason q) = q"
  by (simp_all add: claim_rejected_def)

lemma lockKey_inj: "uuid_laws U \<Longrightarrow> lockKey U i = lockKey U j \<longleftrightarrow> i = j"
  by (simp add: lockKey_def uuid_laws.String_eq_iff)

section \<open>The slippage guard\<close>

definition base_value :: "('d \<Rightarrow> rat) \<Rightarrow> 'd Rate \<Rightarrow> rat" where
  "base_value val r =
     (if 0 < val (r_Mid r) then val (r_Mid r)
      else round_places 16 ((val (r_Bid r) + val (r_Ask r)) / 2))"

definition slippage_bps :: "('d \<Rightarrow> rat) \<Rightarrow> 'd Rate \<Rightarrow> 'd \<Rightarrow> rat" where
  "slippage_bps val r locked =
     \<bar>round_places 16 ((base_value val r - val locked) / val locked) * 10000\<bar>"

context decimal_laws
begin

lemma slippage_base_val: "\<exists>b. slippage_base D r = Some b \<and> val b = base_value val r"
proof -
  have "val (dNewFromInt D 2) \<noteq> 0" by (simp add: val_NewFromInt)
  from Div_Some [OF this, of "dAdd D (r_Bid r) (r_Ask r)"] show ?thesis
    by (auto simp: slippage_base_def base_value_def val_simps)
qed

lemma slippage_exceeded_val:
  "\<exists>b. slippage_exceeded D tol r locked = Some b \<and>
    (in_int64 (trunc_rat (slippage_bps val r locked)) \<longrightarrow>
      (b \<longleftrightarrow> 0 < base_value val r \<and> 0 < val locked \<and> tol < trunc_rat (slippage_bps val r locked)))"
proof -
  obtain base where base: "slippage_base D r = Some base" "val base = base_value val r"
    using slippage_base_val by blast
  show ?thesis
  proof (cases "0 < base_value val r \<and> 0 < val locked")
    case True
    then have "val locked \<noteq> 0" by simp
    from Div_Some [OF this, of "dSub D base locked"]
    obtain rel where rel: "dDiv D (dSub D base locked) locked = Some rel"
      "val rel = round_places 16 ((base_value val r - val locked) / val locked)"
      by (auto simp: val_simps base)
    define bps where "bps = dMul D rel (dNewFromInt D 10000)"
    define bps' where "bps' = (if dLessThan D bps (dZero D) then dNeg D bps else bps)"
    have v: "val bps' = slippage_bps val r locked"
      by (simp add: bps'_def bps_def val_simps rel slippage_bps_def)
    have "slippage_exceeded D tol r locked = Some (tol < dIntPart D bps')"
      using True by (simp add: slippage_exceeded_def base rel val_simps Let_def bps'_def bps_def)
    with True IntPart [of bps'] show ?thesis by (auto simp: v)
  next
    case False
    then show ?thesis by (auto simp: slippage_exceeded_def base val_simps)
  qed
qed

end

lemma trunc_le_iff:
  assumes "0 \<le> x"
  shows "trunc_rat x \<le> n \<longleftrightarrow> x < of_int n + 1"
  using assms by (simp add: trunc_rat_def floor_le_iff)

text \<open>
  (C13) The slippage guard never panics. At positive rates it lets a claim through exactly if the rate
  has moved by less than the tolerance plus one basis point, in either direction, relative to the
  locked rate (the fraction of a basis point is truncated before the comparison); where a rate is not
  positive it lets every claim through.
\<close>

theorem slippage_guard_bound:
  assumes D: "decimal_laws D val" and range: "in_int64 (trunc_rat (slippage_bps val r locked))"
  shows "slippage_exceeded D tol r locked \<noteq> None \<and>
    (0 < base_value val r \<and> 0 < val locked \<longrightarrow>
      (slippage_exceeded D tol r locked = Some False \<longleftrightarrow> slippage_bps val r locked < of_int tol + 1)) \<and>
    (base_value val r \<le> 0 \<or> val locked \<le> 0 \<longrightarrow> slippage_exceeded D tol r locked = Some False)"
  using decimal_laws.slippage_exceeded_val [OF D, of tol r locked] range
  by (auto simp: not_less trunc_le_iff [symmetric] slippage_bps_def)

section \<open>The claim\<close>

text \<open>What the guard of a claim says on a state, and the quotes that can be claimed in it.\<close>

definition claim_slips ::
    "('d, 'l) deps \<Rightarrow> clock \<Rightarrow> ClaimService \<Rightarrow> 'd Quote \<Rightarrow> ('d, 'l, 'z) Shared_scheme \<Rightarrow> bool option" where
  "claim_slips E ck c q w =
     (case fst (Get (dp_decimal E) ck (dp_poll E) (q_From q) (q_To q) (sh_spot w) (sh_metrics w)) of
        Inl err \<Rightarrow> Some False
      | Inr r \<Rightarrow> slippage_exceeded (dp_decimal E) (cs_slippageToleranceBPS c) r (q_LockedRate q))"

lemma claim_slips_total: "decimal_laws (dp_decimal E) val \<Longrightarrow> claim_slips E ck c q w \<noteq> None"
  using decimal_laws.slippage_exceeded_val
  by (fastforce simp: claim_slips_def split: sum.split)

definition spot_read ::
    "('d, 'l) deps \<Rightarrow> clock \<Rightarrow> 'd Quote \<Rightarrow> ('d, 'l, 'z) Shared_scheme \<Rightarrow> ('d, 'l, 'z) Shared_scheme" where
  "spot_read E ck q w =
     (let (r, s', m') = Get (dp_decimal E) ck (dp_poll E) (q_From q) (q_To q) (sh_spot w) (sh_metrics w)
      in w\<lparr>sh_spot := s', sh_metrics := m'\<rparr>)"

lemma spot_read_simps [simp]:
  "sh_store (spot_read E ck q w) = sh_store w" "sh_locks (spot_read E ck q w) = sh_locks w"
  "sh_audit (spot_read E ck q w) = sh_audit w"
  by (simp_all add: spot_read_def split: prod.split)

lemma Claim_locked_eq:
  "Claim_locked E ck c i by q w =
     (case claim_slips E ck c q w of
        None \<Rightarrow> (None, spot_read E ck q w)
      | Some True \<Rightarrow> (Some (claim_rejected ''slippage_exceeded'' (Some q)),
          append_audit (later 2 ck)
            (quote_event ''quote.slippage_rejected'' i q ''slippage_exceeded'') (spot_read E ck q w))
      | Some False \<Rightarrow> Claim_commit (later 2 ck) i by q (spot_read E ck q w))"
  unfolding Claim_locked_def claim_slips_def spot_read_def Let_def by (simp only: split_def fst_conv snd_conv)

lemma Claim_commit_eq:
  assumes "GetQuote (sh_store w) i = Some q0"
  shows "Claim_commit ck i by q w = (Some (claim_rejected [] (Some (mark_claimed (ck 0) by q0))),
    append_audit (later 1 ck) (quote_event ''quote.claimed'' i q [])
      (snd (update_quote i (mark_claimed (ck 0) by) w)))"
  using assms update_quote_simps(1) [of i "mark_claimed (ck 0) by" w]
  by (cases "update_quote i (mark_claimed (ck 0) by) w") (simp add: Claim_commit_def)

text \<open>The states after each way a claim that holds the lock can end.\<close>

lemma Claim_locked_cases:
  assumes "GetQuote (sh_store w) i = Some q"
  shows "claim_slips E ck c q w = Some True \<Longrightarrow>
      \<exists>w'. Claim_locked E ck c i by q w = (Some (claim_rejected ''slippage_exceeded'' (Some q)), w') \<and>
        sh_store w' = sh_store w \<and> sh_locks w' = sh_locks w \<and>
        Events (sh_audit w') = Events (sh_audit w) @
          [stamp (later 2 ck) (quote_event ''quote.slippage_rejected'' i q ''slippage_exceeded'')]"
    and "claim_slips E ck c q w = Some False \<Longrightarrow>
      \<exists>w'. Claim_locked E ck c i by q w =
          (Some (claim_rejected [] (Some (mark_claimed (ck 2) by q))), w') \<and>
        sh_store w' = snd (UpdateQuote i (mark_claimed (ck 2) by) (sh_store w)) \<and>
        sh_locks w' = sh_locks w \<and>
        Events (sh_audit w') = Events (sh_audit w) @
          [stamp (later 3 ck) (quote_event ''quote.claimed'' i q [])]"
  by (simp_all add: Claim_locked_eq Claim_commit_eq assms)

text \<open>A quote that a claim would take: open, not expired, its lock held and the rate not slipped.\<close>

definition claimable ::
    "('d, 'l) deps \<Rightarrow> ('l \<Rightarrow> time \<Rightarrow> string \<Rightarrow> string option) \<Rightarrow> clock \<Rightarrow> ClaimService \<Rightarrow>
     ('d, 'l, 'z) Shared_scheme \<Rightarrow> 'd Quote \<Rightarrow> uuid \<Rightarrow> bool" where
  "claimable E view ck c w q i \<longleftrightarrow>
     q_Status q = StatusOpen \<and> ck 0 \<le> q_ExpiresAt q \<and>
     view (sh_locks w) (ck 1) (lockKey (dp_uuid E) i) \<noteq> None \<and>
     claim_slips E (later 2 ck) c q w = Some False"

lemma claim_slips_locks [simp]: "claim_slips E ck c q (w\<lparr>sh_locks := l\<rparr>) = claim_slips E ck c q w"
  by (simp add: claim_slips_def)

text \<open>A claim of a row, over any backend: \<open>locked_value\<close> is what the backend hands out for the quote.\<close>

definition locked_value :: "('d, 'l) deps \<Rightarrow> clock \<Rightarrow> uuid \<Rightarrow> ('d, 'l, 'z) Shared_scheme \<Rightarrow> string option" where
  "locked_value E ck i w = fst (lb_Claim (dp_locks E) (later 1 ck) (lockKey (dp_uuid E) i) (sh_locks w))"

definition take_lock :: "('d, 'l) deps \<Rightarrow> clock \<Rightarrow> uuid \<Rightarrow> ('d, 'l, 'z) Shared_scheme \<Rightarrow> ('d, 'l, 'z) Shared_scheme" where
  "take_lock E ck i w =
     w\<lparr>sh_locks := snd (lb_Claim (dp_locks E) (later 1 ck) (lockKey (dp_uuid E) i) (sh_locks w))\<rparr>"

lemma take_lock_simps [simp]:
  "sh_store (take_lock E ck i w) = sh_store w" "sh_audit (take_lock E ck i w) = sh_audit w"
  "sh_spot (take_lock E ck i w) = sh_spot w" "sh_metrics (take_lock E ck i w) = sh_metrics w"
  "claim_slips E ck' c q (take_lock E ck i w) = claim_slips E ck' c q w"
  by (simp_all add: take_lock_def)

lemma Claim_row:
  assumes q: "GetQuote (sh_store w) i = Some q"
  shows "Claim E ck c i by w =
    (if q_Status q = StatusCanceled \<or> q_Status q = StatusExpired
     then (Some (claim_rejected ''EXPIRED'' (Some q)), w)
     else if q_Status q = StatusClaimed then (Some (claim_rejected ''already_claimed'' (Some q)), w)
     else if q_ExpiresAt q < ck 0
     then (Some (claim_rejected ''EXPIRED'' (Some (set_status StatusExpired q))),
           append_audit (later 1 ck) (quote_event ''quote.expired'' i q [])
             (snd (update_quote i (set_status StatusExpired) w)))
     else if locked_value E ck i w = None
     then (Some (claim_rejected ''already_claimed'' (Some q)), take_lock E ck i w)
     else Claim_locked E (later 2 ck) c i by q (take_lock E ck i w))"
  by (cases "lb_Claim (dp_locks E) (later 1 ck) (lockKey (dp_uuid E) i) (sh_locks w)")
    (simp add: Claim_def q Let_def locked_value_def take_lock_def split: option.split)

lemma locked_value_view:
  assumes "lock_backend (dp_locks E) tick view invar" and "invar (sh_locks w)"
  shows "locked_value E ck i w = view (sh_locks w) (ck 1) (lockKey (dp_uuid E) i)"
  using lock_backend.Claim_value [OF assms, of "later 1 ck"] by (simp add: locked_value_def)

lemma take_lock_view:
  assumes "lock_backend (dp_locks E) tick view invar" and "invar (sh_locks w)" and "ck 1 \<le> t"
  shows "view (sh_locks (take_lock E ck i w)) t (lockKey (dp_uuid E) i) = None"
  using lock_backend.Claim_view [OF assms(1,2), of "later 1 ck" t] assms(3) by (simp add: take_lock_def)

text \<open>A claim succeeds exactly when the lock was handed out for an open, unexpired, unslipped row.\<close>

lemma Claim_success:
  "(\<exists>res w'. Claim E ck c i by w = (Some res, w') \<and> cl_Reason res = []) \<longleftrightarrow>
   (\<exists>q. GetQuote (sh_store w) i = Some q \<and> q_Status q = StatusOpen \<and> ck 0 \<le> q_ExpiresAt q \<and>
     locked_value E ck i w \<noteq> None \<and> claim_slips E (later 2 ck) c q w = Some False)"
proof (cases "GetQuote (sh_store w) i")
  case None
  then show ?thesis by (simp add: Claim_def)
next
  case (Some q)
  note L = Claim_locked_cases [of "take_lock E ck i w" i q E "later 2 ck" c "by"]
  show ?thesis
  proof (cases "claim_slips E (later 2 ck) c q w")
    case None
    with Some show ?thesis by (cases "q_Status q") (auto simp: Claim_row Claim_locked_eq Let_def)
  next
    fix b
    assume "claim_slips E (later 2 ck) c q w = Some b"
    with Some L show ?thesis by (cases b; cases "q_Status q") (auto simp: Claim_row)
  qed
qed

lemma Claim_outcome:
  assumes "decimal_laws (dp_decimal E) val" and B: "lock_backend (dp_locks E) tick view invar"
    and inv: "invar (sh_locks w)"
  shows "\<exists>res w'. Claim E ck c i by w = (Some res, w') \<and>
    (cl_Reason res = [] \<longleftrightarrow> (\<exists>q. GetQuote (sh_store w) i = Some q \<and> claimable E view ck c w q i)) \<and>
    (\<forall>q. cl_Reason res = [] \<and> GetQuote (sh_store w) i = Some q \<longrightarrow>
      cl_Quote res = Some (mark_claimed (ck 4) by q) \<and>
      (\<forall>j. GetQuote (sh_store w') j =
        (if j = i then Some (mark_claimed (ck 4) by q) else GetQuote (sh_store w) j)) \<and>
      Events (sh_audit w') = Events (sh_audit w) @ [stamp (later 5 ck) (quote_event ''quote.claimed'' i q [])] \<and>
      (\<forall>t \<ge> ck 1. view (sh_locks w') t (lockKey (dp_uuid E) i) = None))"
proof (cases "GetQuote (sh_store w) i")
  case None
  then show ?thesis by (simp add: Claim_def)
next
  case (Some q)
  let ?w1 = "take_lock E ck i w"
  note eq = Claim_row [OF Some, of E ck c "by"] locked_value_view [OF B inv]
  have gone: "\<forall>t \<ge> ck 1. view (sh_locks ?w1) t (lockKey (dp_uuid E) i) = None"
    using take_lock_view [OF B inv] by simp
  show ?thesis
  proof (cases "q_Status q = StatusOpen \<and> ck 0 \<le> q_ExpiresAt q \<and>
      view (sh_locks w) (ck 1) (lockKey (dp_uuid E) i) \<noteq> None")
    case True
    then have cl: "Claim E ck c i by w = Claim_locked E (later 2 ck) c i by q ?w1"
      by (auto simp: eq Let_def)
    obtain b where b: "claim_slips E (later 2 ck) c q w = Some b"
      using claim_slips_total [OF assms(1)] by blast
    show ?thesis
    proof (cases b)
      case True
      with Claim_locked_cases(1) [of ?w1 i q E "later 2 ck" c "by"] b Some show ?thesis
        by (auto simp: cl claimable_def)
    next
      case False
      with Claim_locked_cases(2) [of ?w1 i q E "later 2 ck" c "by"] b Some gone
        \<open>q_Status q = StatusOpen \<and> _\<close> show ?thesis
        by (auto simp: cl claimable_def)
    qed
  next
    case False
    then show ?thesis
      by (cases "q_Status q") (auto simp: eq Some claimable_def Let_def)
  qed
qed

lemma Claim_success_row:
  assumes "Claim E ck c i by w = (Some res, w')" and "cl_Reason res = []"
  shows "\<exists>q. GetQuote (sh_store w) i = Some q \<and> GetQuote (sh_store w') i = Some (mark_claimed (ck 4) by q)"
proof -
  from Claim_success [of E ck c i "by" w] assms obtain q where q: "GetQuote (sh_store w) i = Some q"
    and ok: "q_Status q = StatusOpen" "ck 0 \<le> q_ExpiresAt q" "locked_value E ck i w \<noteq> None"
      "claim_slips E (later 2 ck) c q w = Some False"
    by blast
  with Claim_locked_cases(2) [of "take_lock E ck i w" i q E "later 2 ck" c "by"] assms(1)
  show ?thesis by (auto simp: Claim_row)
qed

text \<open>
  (C5) A claim never panics, and it succeeds exactly for a quote that is open, not past its expiry, still
  locked in the backend, and whose rate has not slipped. Then the row is the old one marked as
  claimed, no other row changes, one \<open>quote.claimed\<close> event is appended, and the lock is gone from
  then on.
\<close>

theorem Claim_succeeds_exactly:
  assumes "decimal_laws (dp_decimal E) val" and B: "lock_backend (dp_locks E) tick view invar"
    and inv: "invar (sh_locks w)"
  shows "\<exists>res w'. Claim E ck c i by w = (Some res, w') \<and>
    (cl_Reason res = [] \<longleftrightarrow> (\<exists>q. GetQuote (sh_store w) i = Some q \<and> claimable E view ck c w q i)) \<and>
    (\<forall>q. cl_Reason res = [] \<and> GetQuote (sh_store w) i = Some q \<longrightarrow>
      cl_Quote res = Some (mark_claimed (ck 4) by q) \<and>
      (\<forall>j. GetQuote (sh_store w') j =
        (if j = i then Some (mark_claimed (ck 4) by q) else GetQuote (sh_store w) j)) \<and>
      Events (sh_audit w') = Events (sh_audit w) @ [stamp (later 5 ck) (quote_event ''quote.claimed'' i q [])] \<and>
      (\<forall>t \<ge> ck 1. view (sh_locks w') t (lockKey (dp_uuid E) i) = None))"
  by (rule Claim_outcome [OF assms])


section \<open>The invariant of the shared objects\<close>

definition shared_inv :: "('l \<Rightarrow> bool) \<Rightarrow> ('d, 'l, 'z) Shared_scheme \<Rightarrow> bool" where
  "shared_inv invar w \<longleftrightarrow> store_inv (sh_store w) \<and> invar (sh_locks w) \<and> spot_inv (sh_spot w) \<and>
     audit_inv (sh_audit w)"

lemma shared_invD:
  assumes "shared_inv invar w"
  shows "store_inv (sh_store w)" "invar (sh_locks w)" "spot_inv (sh_spot w)" "audit_inv (sh_audit w)"
  using assms by (simp_all add: shared_inv_def)

lemma shared_inv_append [simp]: "shared_inv invar w \<Longrightarrow> shared_inv invar (append_audit ck e w)"
  by (simp add: shared_inv_def audit_inv_Append)

lemma shared_inv_update:
  "shared_inv invar w \<Longrightarrow> (\<And>q. q_QuoteID (fn q) = q_QuoteID q) \<Longrightarrow>
   shared_inv invar (snd (update_quote i fn w))"
  by (simp add: shared_inv_def store_inv_Update)

lemma shared_inv_locks: "shared_inv invar w \<Longrightarrow> invar l \<Longrightarrow> shared_inv invar (w\<lparr>sh_locks := l\<rparr>)"
  by (simp add: shared_inv_def)

lemma shared_inv_spot_read:
  assumes "shared_inv invar w" and "hook_ok (dp_poll E)"
  shows "shared_inv invar (spot_read E ck q w)"
proof -
  have "spot_inv (sh_spot (spot_read E ck q w))"
    using spot_inv_Get [OF shared_invD(3) [OF assms(1)] assms(2), of "dp_decimal E" ck "q_From q" "q_To q" "sh_metrics w"]
    by (simp add: spot_read_def split_def Let_def)
  with assms(1) show ?thesis by (simp add: shared_inv_def)
qed

lemma shared_inv_Claim_locked:
  assumes "shared_inv invar w" and "hook_ok (dp_poll E)"
  shows "shared_inv invar (snd (Claim_locked E ck c i by q w))"
proof -
  have sp: "shared_inv invar (spot_read E ck q w)" using assms by (rule shared_inv_spot_read)
  have up: "shared_inv invar w'" if "update_quote i (mark_claimed t by) (spot_read E ck q w) = (r, w')" for t r w'
    using shared_inv_update [OF sp, of "mark_claimed t by" i] that by simp
  show ?thesis
    using sp up
    by (auto simp: Claim_locked_eq Claim_commit_def split: option.split bool.split prod.split)
qed

lemma shared_inv_take_lock:
  assumes "lock_states (dp_locks E) tick invar" and "shared_inv invar w"
  shows "shared_inv invar (take_lock E ck i w)"
  unfolding take_lock_def
  by (rule shared_inv_locks [OF assms(2) lock_states.invar_Claim [OF assms(1) shared_invD(2) [OF assms(2)]]])

lemma shared_inv_Claim:
  assumes B: "lock_states (dp_locks E) tick invar" and inv: "shared_inv invar w"
    and hook: "hook_ok (dp_poll E)"
  shows "shared_inv invar (snd (Claim E ck c i by w))"
proof (cases "GetQuote (sh_store w) i")
  case None
  with inv show ?thesis by (simp add: Claim_def)
next
  case (Some q)
  have up: "shared_inv invar (snd (update_quote i (set_status StatusExpired) w))"
    using inv by (rule shared_inv_update) simp
  show ?thesis
    using inv up shared_inv_take_lock [OF B inv] shared_inv_Claim_locked [OF shared_inv_take_lock [OF B inv] hook]
    by (simp add: Claim_row [OF Some])
qed

text \<open>What a claim does to the rows: an open row may become claimed or expired, no other row changes.\<close>

definition claim_row_step :: "string \<Rightarrow> 'd Quote \<Rightarrow> 'd Quote \<Rightarrow> bool" where
  "claim_row_step by q q' \<longleftrightarrow> q' = q \<or> q_Status q = StatusOpen \<and>
     (q' = set_status StatusExpired q \<or> (\<exists>t. q' = mark_claimed t by q))"

lemma claim_row_refl [simp]: "rel_option (claim_row_step by) x x"
  by (cases x) (simp_all add: claim_row_step_def)

lemma Claim_locked_rows:
  assumes "GetQuote (sh_store w) i = Some q" and "q_Status q = StatusOpen"
  shows "rel_option (claim_row_step by) (GetQuote (sh_store w) j)
    (GetQuote (sh_store (snd (Claim_locked E ck c i by q w))) j)"
proof -
  have "claim_row_step by q (mark_claimed t by q)" for t
    using assms(2) unfolding claim_row_step_def by blast
  with assms(1) show ?thesis
    by (cases "claim_slips E ck c q w")
      (auto simp: Claim_locked_eq Claim_commit_eq split: bool.split)
qed

lemma Claim_row_steps:
  "rel_option (claim_row_step by) (GetQuote (sh_store w) j) (GetQuote (sh_store (snd (Claim E ck c i by w))) j)"
proof (cases "GetQuote (sh_store w) i")
  case None
  then show ?thesis by (simp add: Claim_def)
next
  case (Some q)
  show ?thesis
    using Claim_locked_rows [of "take_lock E ck i w" i q "by" j E "later 2 ck" c] Some
    by (cases "q_Status q") (auto simp: Claim_row [OF Some] claim_row_step_def)
qed

text \<open> A claim keeps the invariants of the store, the lock backend, the spot service and the audit log,
  and the only rows it changes are open ones, to claimed or to expired: a claimed, expired or
  canceled quote never changes by a claim, and no quote appears or disappears.
\<close>

lemma Claim_keeps_invariant:
  assumes B: "lock_states (dp_locks E) tick invar" and inv: "shared_inv invar w"
    and hook: "hook_ok (dp_poll E)"
  shows "shared_inv invar (snd (Claim E ck c i by w)) \<and>
    rel_option (claim_row_step by) (GetQuote (sh_store w) j) (GetQuote (sh_store (snd (Claim E ck c i by w))) j)"
  using shared_inv_Claim [OF assms] Claim_row_steps by blast

section \<open>Concrete instances\<close>

text \<open>An open quote locked at 65520 for 30 seconds, while the spot rate is 65000: about 79 basis points.\<close>

definition ex_deps :: "(dec10, LockStore) deps" where
  "ex_deps = \<lparr>dp_decimal = dec10_ops, dp_uuid = uuid_hex, dp_locks = LockStore_backend, dp_poll = None\<rparr>"

definition ex_shared :: "(dec10, LockStore) Shared" where
  "ex_shared = \<lparr>sh_store = SaveQuote (ex_quote 7 0) NewStore,
     sh_locks = snd (LockStore_SetNX (ex_clock 0) (lockKey uuid_hex 7) ''{}'' (30 * second) NewLockStore),
     sh_spot = ex_spot, sh_audit = NewAuditLog, sh_metrics = newMetrics\<rparr>"

lemma ex_deps_simps [simp]:
  "dp_decimal ex_deps = dec10_ops" "dp_uuid ex_deps = uuid_hex" "dp_locks ex_deps = LockStore_backend"
  "dp_poll ex_deps = None"
  by (simp_all add: ex_deps_def)

lemma ex_backend: "lock_backend (dp_locks ex_deps) timer_step lock_view lock_inv"
  using mem.lock_backend_axioms by simp

lemma ex_states: "lock_states (dp_locks ex_deps) timer_step lock_inv"
  by (rule lock_backend.axioms(1) [OF ex_backend])

lemma ex_shared_inv: "shared_inv lock_inv ex_shared"
  by (simp add: shared_inv_def ex_shared_def ex_spot_inv store_inv_Save store_inv_New audit_inv_New
      NewAuditLog_def lock_inv_SetNX lock_inv_New)

lemma ex_shared_quote: "GetQuote (sh_store ex_shared) 7 = Some (ex_quote 7 0)"
  by (simp add: ex_shared_def) (simp add: ex_quote_def)

lemma ex_claim_lock: "lock_view (sh_locks ex_shared) (ex_clock 100 1) (lockKey (dp_uuid ex_deps) 7) = Some ''{}''"
  by code_simp

lemma ex_claim_slips:
  "claim_slips ex_deps (later 2 (ex_clock 100)) (NewClaimService 150) (ex_quote 7 0) ex_shared = Some False"
  by code_simp

theorem slippage_guard_bound_witness:
  "slippage_exceeded dec10_ops 79 (seed_rate dec10_ops 0 ''USD'' ''BTC'' 64900 65100 65000) (65520, 0) =
     Some False \<and>
   slippage_bps dec10_val (seed_rate dec10_ops 0 ''USD'' ''BTC'' 64900 65100 65000) (65520, 0) < 80"
proof -
  let ?r = "seed_rate dec10_ops 0 ''USD'' ''BTC'' 64900 65100 65000"
  have v: "base_value dec10_val ?r = 65000" "dec10_val (65520, 0) = 65520"
    by (simp_all add: base_value_def seed_rate_def dec10_val_def dec10_ops_def)
  have c: "\<lceil>- (10000000000000063 / 126 :: rat)\<rceil> = - 79365079365079"
    by (rule ceiling_unique) simp_all
  have "in_int64 (trunc_rat (slippage_bps dec10_val ?r (65520, 0)))"
    and "slippage_bps dec10_val ?r (65520, 0) < 80"
    unfolding slippage_bps_def v by (simp_all add: round_places_def round_away_def trunc_rat_def in_int64_def c)
  then show ?thesis
    using slippage_guard_bound [OF dec10.decimal_laws_axioms, of ?r "(65520, 0)" 79] v by simp
qed

theorem Claim_succeeds_exactly_witness:
  "\<exists>res w'. Claim ex_deps (ex_clock 100) (NewClaimService 150) 7 ''svc'' ex_shared = (Some res, w') \<and>
     cl_Reason res = [] \<and> GetQuote (sh_store w') 7 = Some (mark_claimed 104 ''svc'' (ex_quote 7 0))"
proof -
  have cl: "claimable ex_deps lock_view (ex_clock 100) (NewClaimService 150) ex_shared (ex_quote 7 0) 7"
    unfolding claimable_def using ex_claim_lock ex_claim_slips
    by (simp add: ex_clock_def ex_quote_def second_def)
  have D: "decimal_laws (dp_decimal ex_deps) dec10_val" by (simp add: dec10.decimal_laws_axioms)
  show ?thesis
    using Claim_succeeds_exactly [OF D ex_backend shared_invD(2) [OF ex_shared_inv], of "ex_clock 100"
        "NewClaimService 150" 7 "''svc''"] cl ex_shared_quote
    by (auto simp: ex_clock_def)
qed



end
