(* ===== verification/Server.thy ===== *)
theory Server
  imports Claim_Service Pricer Web_Socket Config
begin

text \<open>
  \<open>internal/server.go\<close>: the server's state, the issue, lookup, refresh and claim of quotes behind the
  HTTP handlers, the sweeper of expired quotes and the fee-schedule reload. A handler takes the clock
  it reads, the identifiers the generator returns to it and the request, and gives the response
  (\<open>None\<close> where the handler panics) and the state after it. Log lines and trace spans are left out.
\<close>

section \<open>State\<close>

record ('d, 'l) Server = "('d, 'l) Shared" +
  srv_cfg :: Config
  srv_pricer :: "'d Pricer"
  srv_claim :: ClaimService
  srv_wsHub :: wsHub

text \<open>\<open>newQuoteID\<close> and \<open>newFeeScheduleID\<close> return what the generator of the uuid package gives.\<close>

type_synonym id_source = "nat \<Rightarrow> uuid"

definition later_ids :: "nat \<Rightarrow> id_source \<Rightarrow> id_source" where
  "later_ids k ids = (\<lambda>i. ids (k + i))"

definition seed_schedule ::
    "'d decimal_ops \<Rightarrow> time \<Rightarrow> uuid \<Rightarrow> string \<Rightarrow> string \<Rightarrow> 'd \<Rightarrow> int \<Rightarrow> string \<Rightarrow> int \<Rightarrow> int \<Rightarrow> 'd FeeSchedule" where
  "seed_schedule D now i tier asset bandMin bandMax side spread bps =
     \<lparr>fs_ID = i, fs_UserTier = tier, fs_Asset = asset, fs_SizeBandMin = bandMin,
      fs_SizeBandMax = dNewFromInt D bandMax, fs_Side = side, fs_SpreadBPS = spread,
      fs_FeeType = ''BPS'', fs_FeeAmount = dZeroValue D, fs_FeeBPS = bps, fs_Enabled = True,
      fs_UpdatedAt = now\<rparr>"

definition seedFeeSchedules :: "'d decimal_ops \<Rightarrow> clock \<Rightarrow> id_source \<Rightarrow> 'd Store \<Rightarrow> 'd Store" where
  "seedFeeSchedules D ck ids st =
     (let now = ck 0; zero = dZero D in
      SetFeeSchedules
        [seed_schedule D now (ids 0) ''TIER_1'' ''BTC'' zero 1000 ''BUY'' 80 50,
         seed_schedule D now (ids 1) ''TIER_1'' ''BTC'' (dNewFromInt D 1000) 10000 ''BUY'' 60 30,
         seed_schedule D now (ids 2) ''TIER_1'' ''ETH'' zero 100 ''BUY'' 90 50,
         seed_schedule D now (ids 3) ''TIER_2'' ''BTC'' zero 1000 ''BUY'' 70 40,
         seed_schedule D now (ids 4) ''TIER_2'' ''ETH'' zero 100 ''BUY'' 75 40,
         seed_schedule D now (ids 5) ''TIER_2'' ''BTC'' zero 1000 ''SELL'' 70 40,
         seed_schedule D now (ids 6) ''TIER_1'' ''BTC'' zero 1000 ''SELL'' 80 50] st)"

text \<open>\<open>NewServer\<close> on the process-wide metrics; the update callback is installed.\<close>

definition NewServer ::
    "'d decimal_ops \<Rightarrow> clock \<Rightarrow> id_source \<Rightarrow> Config \<Rightarrow> metrics \<Rightarrow> ('d, LockStore) Server" where
  "NewServer D ck ids cfg m =
     (let store = NewStore;
          spot = NewSpotService D (ck 0) (cfg_MaxStaleAge cfg);
          pricer = NewPricer store (cfg_DefaultSpreadBPS cfg);
          store' = seedFeeSchedules D (later 1 ck) ids store;
          (pricer', m') = ReloadIndex store' pricer m
      in \<lparr>sh_store = store', sh_locks = NewLockStore, sh_spot = SetOnUpdate True spot,
          sh_audit = NewAuditLog, sh_metrics = m', srv_cfg = cfg, srv_pricer = pricer',
          srv_claim = NewClaimService (cfg_SlippageToleranceBPS cfg), srv_wsHub = newWSHub\<rparr>)"

text \<open>\<open>RunWithConfigCtx\<close> puts the configured backend in place of the in-memory one.\<close>

definition with_lock_backend :: "'l \<Rightarrow> ('d, 'k) Server \<Rightarrow> ('d, 'l) Server" where
  "with_lock_backend locks srv =
     \<lparr>sh_store = sh_store srv, sh_locks = locks, sh_spot = sh_spot srv, sh_audit = sh_audit srv,
      sh_metrics = sh_metrics srv, srv_cfg = srv_cfg srv, srv_pricer = srv_pricer srv,
      srv_claim = NewClaimService (cfg_SlippageToleranceBPS (srv_cfg srv)), srv_wsHub = srv_wsHub srv\<rparr>"

section \<open>Requests and responses\<close>

text \<open>
  A body is given by the JSON value of its text (\<open>rq_body\<close>, for \<open>Unmarshal\<close>) and the first value in it
  (\<open>rq_first\<close>, for a \<open>Decoder\<close>, which ignores what follows).
\<close>

record http_request =
  rq_Method :: string
  rq_Path :: string
  rq_RequestID :: string
  rq_QueryID :: string
  rq_Upgrade :: string
  rq_WebSocketKey :: string
  rq_read_ok :: bool
  rq_body :: "json option"
  rq_first :: "json option"

text \<open>A response without a body has \<open>rp_Body = None\<close>.\<close>

record http_response =
  rp_Status :: int
  rp_Body :: "json option"

definition respond :: "int \<Rightarrow> json \<Rightarrow> http_response" where
  "respond status body = \<lparr>rp_Status = status, rp_Body = Some body\<rparr>"

definition writeError :: "http_request \<Rightarrow> int \<Rightarrow> string \<Rightarrow> string \<Rightarrow> http_response" where
  "writeError rq status code message =
     respond status (json_of_map [(''error'', json_of_map
       [(''code'', JStr code), (''message'', JStr message),
        (''request_id'', JStr (requestIDFromContext (rq_RequestID rq) (rq_QueryID rq)))])])"

definition writeErrorApp :: "http_request \<Rightarrow> AppError \<Rightarrow> http_response" where
  "writeErrorApp rq e = writeError rq (ae_Status e) (ae_Code e) (ae_Message e)"

definition method_not_allowed :: "http_request \<Rightarrow> http_response" where
  "method_not_allowed rq = writeError rq 405 ''method_not_allowed'' ''method not allowed''"

definition toResponse :: "uuid_ops \<Rightarrow> 'd Quote \<Rightarrow> (string, json) gomap" where
  "toResponse U q =
     [(''quote_id'', JStr (uString U (q_QuoteID q))), (''from'', JStr (q_From q)),
      (''to'', JStr (q_To q)), (''amount'', JStr (q_Amount q)), (''rate'', JStr (q_Rate q)),
      (''spread_bps'', JInt (q_SpreadBPS q)), (''fee'', JStr (q_Fee q)),
      (''fee_currency'', JStr (q_FeeCurrency q)), (''total'', JStr (q_Total q)),
      (''crypto_amount'', JStr (q_CryptoAmount q)), (''user_tier'', JStr (q_UserTier q)),
      (''side'', JStr (q_Side q)), (''status'', JStr (status_string (q_Status q))),
      (''source_venue'', JStr (q_SourceVenue q)),
      (''created_at'', JStr (RFC3339Nano (q_CreatedAt q))),
      (''expires_at'', JStr (RFC3339Nano (q_ExpiresAt q)))]
     @ (case q_ClaimedAt q of None \<Rightarrow> [] | Some t \<Rightarrow> [(''claimed_at'', JStr (RFC3339Nano t))])
     @ (if q_ClaimedBy q \<noteq> [] then [(''claimed_by'', JStr (q_ClaimedBy q))] else [])"

text \<open>A \<open>Quote\<close> marshalled by its struct tags, as in the items of a bulk response.\<close>

definition quote_json :: "uuid_ops \<Rightarrow> 'd Quote \<Rightarrow> json" where
  "quote_json U q = JObj (toResponse U q)"

section \<open>Issuing quotes\<close>

definition new_quote ::
    "'d decimal_ops \<Rightarrow> uuid \<Rightarrow> quoteRequest \<Rightarrow> 'd ComputeResult \<Rightarrow> time \<Rightarrow> time \<Rightarrow> 'd Quote" where
  "new_quote D i req res now expiry =
     \<lparr>q_QuoteID = i, q_From = req_From req, q_To = req_To req, q_Amount = req_Amount req,
      q_Rate = dString D (cr_Rate res), q_SpreadBPS = cr_SpreadBPS res, q_Fee = dString D (cr_Fee res),
      q_FeeCurrency = req_From req, q_Total = dString D (cr_Total res),
      q_CryptoAmount = dString D (cr_CryptoAmount res), q_UserTier = req_UserTier req,
      q_Side = req_Side req, q_Status = StatusOpen, q_SourceVenue = cr_SourceVenue res,
      q_CreatedAt = now, q_ExpiresAt = expiry, q_ClaimedAt = None, q_ClaimedBy = [],
      q_LockedRate = cr_Rate res, q_SpotPrice = cr_Spot res\<rparr>"

definition lock_payload :: "'d decimal_ops \<Rightarrow> quoteRequest \<Rightarrow> 'd ComputeResult \<Rightarrow> time \<Rightarrow> string" where
  "lock_payload D req res expiry =
     marshal_strings [(''rate'', dString D (cr_Rate res)), (''from'', req_From req), (''to'', req_To req),
       (''amount'', req_Amount req), (''expires_at'', RFC3339Nano expiry),
       (''source_venue'', cr_SourceVenue res)]"

text \<open>The part that \<open>createQuote\<close> and \<open>refreshQuote\<close> share: row, lock and audit event of a new quote.\<close>

definition issue_quote ::
    "('d, 'l) deps \<Rightarrow> clock \<Rightarrow> uuid \<Rightarrow> quoteRequest \<Rightarrow> 'd ComputeResult \<Rightarrow> ('d, 'l) Server \<Rightarrow>
     'd Quote \<times> ('d, 'l) Server" where
  "issue_quote E ck i req res srv =
     (let now = ck 0; expiry = now + cfg_RateLockTTL (srv_cfg srv);
          q = new_quote (dp_decimal E) i req res now expiry;
          srv1 = srv\<lparr>sh_store := SaveQuote q (sh_store srv)\<rparr>;
          srv2 = srv1\<lparr>sh_locks := snd (lb_SetNX (dp_locks E) (later 1 ck) (lockKey (dp_uuid E) i)
                   (lock_payload (dp_decimal E) req res expiry) (cfg_RateLockTTL (srv_cfg srv)) (sh_locks srv1))\<rparr>
      in (q, append_audit (later 4 ck)
               (new_event ''quote.issued'' i (req_UserTier req) (cr_SourceVenue res) []) srv2))"

definition compute_price ::
    "('d, 'l) deps \<Rightarrow> clock \<Rightarrow> quoteRequest \<Rightarrow> ('d, 'l) Server \<Rightarrow>
     (compute_error + 'd ComputeResult) option \<times> ('d, 'l) Server" where
  "compute_price E ck req srv =
     (case Compute (dp_decimal E) ck (dp_poll E) (srv_pricer srv) (sh_store srv) (req_From req) (req_To req)
             (fst (parseAmount (dp_decimal E) (req_Amount req))) (req_UserTier req) (req_Side req)
             (sh_spot srv) (sh_metrics srv) of
        (res, s', m') \<Rightarrow> (res, srv\<lparr>sh_spot := s', sh_metrics := m'\<rparr>))"

definition createQuote ::
    "('d, 'l) deps \<Rightarrow> clock \<Rightarrow> uuid \<Rightarrow> quoteRequest \<Rightarrow> ('d, 'l) Server \<Rightarrow>
     (AppError + 'd Quote) option \<times> ('d, 'l) Server" where
  "createQuote E ck i req srv =
     (case compute_price E ck req srv of
        (None, srv1) \<Rightarrow> (None, srv1)
      | (Some (Inl err), srv1) \<Rightarrow> (Some (Inl errSpotUnavailable), srv1)
      | (Some (Inr res), srv1) \<Rightarrow>
          (case issue_quote E (later 2 ck) i req res srv1 of (q, srv2) \<Rightarrow> (Some (Inr q), srv2)))"

definition singleQuote ::
    "('d, 'l) deps \<Rightarrow> clock \<Rightarrow> id_source \<Rightarrow> http_request \<Rightarrow> ('d, 'l) Server \<Rightarrow>
     http_response option \<times> ('d, 'l) Server" where
  "singleQuote E ck ids rq srv =
     (case Option.bind (rq_body rq) decode_quoteRequest of
        None \<Rightarrow> (Some (writeError rq 400 ''bad_request'' ''invalid JSON body''), srv)
      | Some req \<Rightarrow>
          (case validateRequest (dp_decimal E) req of
             Some e \<Rightarrow> (Some (writeErrorApp rq e), srv)
           | None \<Rightarrow>
               (case createQuote E ck (ids 0) req srv of
                  (None, srv1) \<Rightarrow> (None, srv1)
                | (Some (Inl e), srv1) \<Rightarrow> (Some (writeErrorApp rq e), srv1)
                | (Some (Inr q), srv1) \<Rightarrow> (Some (respond 201 (json_of_map (toResponse (dp_uuid E) q))), srv1))))"

text \<open>One item of a bulk request: the code of an error, or the quote. Each item reads the clock seven
  times at most.\<close>

fun bulk_items ::
    "('d, 'l) deps \<Rightarrow> clock \<Rightarrow> id_source \<Rightarrow> quoteRequest list \<Rightarrow> ('d, 'l) Server \<Rightarrow>
     (string + 'd Quote) list option \<times> ('d, 'l) Server" where
  "bulk_items E ck ids [] srv = (Some [], srv)"
| "bulk_items E ck ids (it # its) srv =
     (case validateRequest (dp_decimal E) it of
        Some e \<Rightarrow>
          (case bulk_items E ck ids its srv of
             (rs, srv') \<Rightarrow> (map_option (Cons (Inl (ae_Code e))) rs, srv'))
      | None \<Rightarrow>
          (case createQuote E ck (ids 0) it srv of
             (None, srv1) \<Rightarrow> (None, srv1)
           | (Some (Inl e), srv1) \<Rightarrow>
               (case bulk_items E (later 7 ck) ids its srv1 of
                  (rs, srv') \<Rightarrow> (map_option (Cons (Inl (ae_Code e))) rs, srv'))
           | (Some (Inr q), srv1) \<Rightarrow>
               (case bulk_items E (later 7 ck) (later_ids 1 ids) its srv1 of
                  (rs, srv') \<Rightarrow> (map_option (Cons (Inr q)) rs, srv'))))"

definition item_json :: "uuid_ops \<Rightarrow> (string + 'd Quote) \<Rightarrow> json" where
  "item_json U r =
     (case r of
        Inl code \<Rightarrow> JObj ([(''ok'', JBool False)] @ (if code \<noteq> [] then [(''error'', JStr code)] else []))
      | Inr q \<Rightarrow> JObj [(''ok'', JBool True), (''quote'', quote_json U q)])"

definition bulkQuotes ::
    "('d, 'l) deps \<Rightarrow> clock \<Rightarrow> id_source \<Rightarrow> http_request \<Rightarrow> ('d, 'l) Server \<Rightarrow>
     http_response option \<times> ('d, 'l) Server" where
  "bulkQuotes E ck ids rq srv =
     (case Option.bind (rq_body rq) decode_bulkRequest of
        None \<Rightarrow> (Some (writeError rq 400 ''bad_request'' ''invalid JSON body''), srv)
      | Some req \<Rightarrow>
          if cfg_BulkQuoteMaxItems (srv_cfg srv) < int (length (bulk_Items req))
          then (Some (writeError rq 400 ''too_many_items'' ''bulk quote exceeds max items''), srv)
          else (case bulk_items E ck ids (bulk_Items req) srv of
                  (rs, srv') \<Rightarrow>
                    (map_option (\<lambda>rs. respond 201 (json_of_map
                       [(''items'', JArr (map (item_json (dp_uuid E)) rs))])) rs, srv')))"

section \<open>Looking up, refreshing and claiming\<close>

definition getQuote ::
    "('d, 'l) deps \<Rightarrow> clock \<Rightarrow> http_request \<Rightarrow> uuid \<Rightarrow> ('d, 'l) Server \<Rightarrow> http_response \<times> ('d, 'l) Server" where
  "getQuote E ck rq i srv =
     (case GetQuote (sh_store srv) i of
        None \<Rightarrow> (writeErrorApp rq errNotFound, srv)
      | Some q \<Rightarrow>
          if q_Status q = StatusExpired \<or> (q_Status q = StatusOpen \<and> q_ExpiresAt q < ck 0)
          then (writeErrorApp rq errExpired, snd (update_quote i (set_status StatusExpired) srv))
          else (respond 200 (json_of_map (toResponse (dp_uuid E) q)), srv))"

definition request_of_quote :: "'d Quote \<Rightarrow> quoteRequest" where
  "request_of_quote old = \<lparr>req_From = q_From old, req_To = q_To old, req_Amount = q_Amount old,
     req_UserTier = q_UserTier old, req_Side = q_Side old\<rparr>"

text \<open>The row is canceled, the lock deleted and the event appended before the new price is computed.\<close>

definition cancel_for_refresh ::
    "('d, 'l) deps \<Rightarrow> clock \<Rightarrow> uuid \<Rightarrow> 'd Quote \<Rightarrow> ('d, 'l) Server \<Rightarrow> ('d, 'l) Server" where
  "cancel_for_refresh E ck i old srv =
     (let srv1 = snd (update_quote i (set_status StatusCanceled) srv);
          srv2 = srv1\<lparr>sh_locks := snd (lb_Del (dp_locks E) (lockKey (dp_uuid E) i) (sh_locks srv1))\<rparr>
      in append_audit ck (quote_event ''quote.refreshed'' i old []) srv2)"

definition refreshQuote ::
    "('d, 'l) deps \<Rightarrow> clock \<Rightarrow> id_source \<Rightarrow> http_request \<Rightarrow> uuid \<Rightarrow> ('d, 'l) Server \<Rightarrow>
     http_response option \<times> ('d, 'l) Server" where
  "refreshQuote E ck ids rq i srv =
     (case GetQuote (sh_store srv) i of
        None \<Rightarrow> (Some (writeErrorApp rq errNotFound), srv)
      | Some old \<Rightarrow>
          (case compute_price E (later 1 ck) (request_of_quote old) (cancel_for_refresh E ck i old srv) of
             (None, srv1) \<Rightarrow> (None, srv1)
           | (Some (Inl err), srv1) \<Rightarrow> (Some (writeErrorApp rq errSpotUnavailable), srv1)
           | (Some (Inr res), srv1) \<Rightarrow>
               (case issue_quote E (later 3 ck) (ids 0) (request_of_quote old) res srv1 of
                  (nq, srv2) \<Rightarrow> (Some (respond 201 (json_of_map (toResponse (dp_uuid E) nq))), srv2))))"

definition count_claim :: "string \<Rightarrow> ('d, 'l) Server \<Rightarrow> ('d, 'l) Server" where
  "count_claim result srv = srv\<lparr>sh_metrics := inc_claim result (sh_metrics srv)\<rparr>"

text \<open>The response to the outcome of a claim. A success always carries a quote.\<close>

definition claim_response ::
    "('d, 'l) deps \<Rightarrow> http_request \<Rightarrow> 'd ClaimResult \<Rightarrow> ('d, 'l) Server \<Rightarrow>
     http_response option \<times> ('d, 'l) Server" where
  "claim_response E rq res srv =
     (if cl_Reason res \<noteq> [] then
        (Some (if cl_Reason res = ''missing'' then writeError rq 404 ''not_found'' ''quote not found''
               else if cl_Reason res = ''EXPIRED'' then writeError rq 410 ''EXPIRED'' ''quote expired''
               else writeError rq 409 (cl_Reason res) (''claim rejected: '' @ cl_Reason res)),
         count_claim (cl_Reason res) srv)
      else (map_option (\<lambda>q. respond 200 (json_of_map (toResponse (dp_uuid E) q))) (cl_Quote res),
            count_claim ''ok'' srv))"

definition claimQuote ::
    "('d, 'l) deps \<Rightarrow> clock \<Rightarrow> http_request \<Rightarrow> uuid \<Rightarrow> string \<Rightarrow> ('d, 'l) Server \<Rightarrow>
     http_response option \<times> ('d, 'l) Server" where
  "claimQuote E ck rq i claimedBy srv =
     (case Claim E ck (srv_claim srv) i claimedBy srv of
        (None, srv1) \<Rightarrow> (None, srv1)
      | (Some res, srv1) \<Rightarrow> claim_response E rq res srv1)"

section \<open>The other endpoints\<close>

definition healthz :: http_response where
  "healthz = respond 200 (json_of_map [(''status'', JStr ''ok'')])"

definition readyz :: "('d, 'l) deps \<Rightarrow> http_request \<Rightarrow> ('d, 'l) Server \<Rightarrow> http_response" where
  "readyz E rq srv =
     (if \<not> IsReady (sh_spot srv) then writeError rq 503 ''not_ready'' ''spot cache cold''
      else if \<not> lb_Ready (dp_locks E) (sh_locks srv) then writeError rq 503 ''not_ready'' ''lock store unreachable''
      else respond 200 (json_of_map [(''status'', JStr ''ready'')]))"

definition feeSchedulesReload ::
    "('d, 'l) deps \<Rightarrow> clock \<Rightarrow> id_source \<Rightarrow> http_request \<Rightarrow> ('d, 'l) Server \<Rightarrow>
     http_response \<times> ('d, 'l) Server" where
  "feeSchedulesReload E ck ids rq srv =
     (if rq_Method rq \<noteq> ''POST'' then (method_not_allowed rq, srv)
      else let st = seedFeeSchedules (dp_decimal E) ck ids (sh_store srv);
               (pricer, m) = ReloadIndex st (srv_pricer srv) (sh_metrics srv)
           in (respond 200 (json_of_map [(''status'', JStr ''reloaded'')]),
               srv\<lparr>sh_store := st, srv_pricer := pricer, sh_metrics := m\<rparr>))"

definition feeSchedulesHandler :: "('d, 'l) deps \<Rightarrow> http_request \<Rightarrow> ('d, 'l) Server \<Rightarrow> http_response" where
  "feeSchedulesHandler E rq srv =
     (if rq_Method rq \<noteq> ''GET'' then method_not_allowed rq
      else respond 200 (json_of_map [(''fee_schedules'', JArr (map (\<lambda>f. json_of_map
        [(''id'', JStr (uString (dp_uuid E) (fs_ID f))), (''user_tier'', JStr (fs_UserTier f)),
         (''asset'', JStr (fs_Asset f)),
         (''size_band_min'', JStr (dString (dp_decimal E) (fs_SizeBandMin f))),
         (''size_band_max'', JStr (dString (dp_decimal E) (fs_SizeBandMax f))),
         (''side'', JStr (fs_Side f)), (''spread_bps'', JInt (fs_SpreadBPS f)),
         (''fee_type'', JStr (fs_FeeType f)),
         (''fee_amount'', JStr (dString (dp_decimal E) (fs_FeeAmount f))),
         (''fee_bps'', JInt (fs_FeeBPS f)), (''enabled'', JBool (fs_Enabled f)),
         (''updated_at'', JStr (RFC3339Nano (fs_UpdatedAt f)))]) (FeeSchedules (sh_store srv))))]))"

definition rateSourcesHandler ::
    "(RateSource list \<Rightarrow> RateSource list) \<Rightarrow> http_request \<Rightarrow> ('d, 'l) Server \<Rightarrow> http_response" where
  "rateSourcesHandler iter rq srv =
     (if rq_Method rq \<noteq> ''GET'' then method_not_allowed rq
      else respond 200 (json_of_map [(''rate_sources'', JArr (map (\<lambda>s. json_of_map
        [(''name'', JStr (rs_Name s)), (''priority'', JInt (rs_Priority s)),
         (''enabled'', JBool (rs_Enabled s)), (''endpoint_ref'', JStr (rs_EndpointRef s)),
         (''weight'', JInt (rs_Weight s)), (''created_at'', JStr (RFC3339Nano (rs_CreatedAt s))),
         (''updated_at'', JStr (RFC3339Nano (rs_UpdatedAt s)))]) (RateSources iter (sh_store srv))))]))"

definition listQuotes ::
    "('d, 'l) deps \<Rightarrow> ('d Quote list \<Rightarrow> 'd Quote list) \<Rightarrow> ('d, 'l) Server \<Rightarrow> http_response" where
  "listQuotes E iter srv =
     respond 200 (json_of_map [(''quotes'',
       JArr (map (\<lambda>q. json_of_map (toResponse (dp_uuid E) q)) (ListQuotes iter (sh_store srv))))])"

definition event_json :: "uuid_ops \<Rightarrow> AuditEvent \<Rightarrow> json" where
  "event_json U e =
     JObj ([(''type'', JStr (ae_Type e)), (''quote_id'', JStr (uString U (ae_QuoteID e))),
            (''user_tier'', JStr (ae_UserTier e)), (''source_venue'', JStr (ae_SourceVenue e))]
       @ (if ae_Reason e \<noteq> [] then [(''reason'', JStr (ae_Reason e))] else [])
       @ [(''at'', JStr (RFC3339Nano (ae_At e)))])"

definition auditEventsHandler :: "('d, 'l) deps \<Rightarrow> http_request \<Rightarrow> ('d, 'l) Server \<Rightarrow> http_response" where
  "auditEventsHandler E rq srv =
     (if rq_Method rq \<noteq> ''GET'' then method_not_allowed rq
      else respond 200 (json_of_map [(''events'', JArr (map (event_json (dp_uuid E)) (Events (sh_audit srv))))]))"

section \<open>Background work\<close>

fun sweep_loop :: "time \<Rightarrow> clock \<Rightarrow> 'd Quote list \<Rightarrow> ('d, 'l, 'z) Shared_scheme \<Rightarrow> ('d, 'l, 'z) Shared_scheme" where
  "sweep_loop now ck [] w = w"
| "sweep_loop now ck (q # qs) w =
     (if q_Status q = StatusOpen \<and> q_ExpiresAt q < now
      then sweep_loop now (later 1 ck) qs
             (append_audit ck (quote_event ''quote.expired'' (q_QuoteID q) q [])
               (snd (update_quote (q_QuoteID q) (set_status StatusExpired) w)))
      else sweep_loop now ck qs w)"

definition sweepExpired ::
    "clock \<Rightarrow> ('d Quote list \<Rightarrow> 'd Quote list) \<Rightarrow> ('d, 'l, 'z) Shared_scheme \<Rightarrow> ('d, 'l, 'z) Shared_scheme" where
  "sweepExpired ck iter w = sweep_loop (ck 0) (later 1 ck) (ListQuotes iter (sh_store w)) w"

text \<open>A tick of the fee-schedule refresh seeds the store again; the pricer's index is not rebuilt.\<close>

definition feeScheduleRefresh_tick ::
    "('d, 'l) deps \<Rightarrow> clock \<Rightarrow> id_source \<Rightarrow> ('d, 'l) Server \<Rightarrow> ('d, 'l) Server" where
  "feeScheduleRefresh_tick E ck ids srv =
     srv\<lparr>sh_store := seedFeeSchedules (dp_decimal E) ck ids (sh_store srv)\<rparr>"

section \<open>Issuing a quote\<close>

lemma compute_price_simps [simp]:
  "sh_store (snd (compute_price E ck req srv)) = sh_store srv"
  "sh_locks (snd (compute_price E ck req srv)) = sh_locks srv"
  "sh_audit (snd (compute_price E ck req srv)) = sh_audit srv"
  "srv_cfg (snd (compute_price E ck req srv)) = srv_cfg srv"
  "srv_pricer (snd (compute_price E ck req srv)) = srv_pricer srv"
  "srv_claim (snd (compute_price E ck req srv)) = srv_claim srv"
  "srv_wsHub (snd (compute_price E ck req srv)) = srv_wsHub srv"
  by (simp_all add: compute_price_def split: prod.split)

lemma append_audit_server [simp]:
  "srv_cfg (append_audit ck e srv) = srv_cfg srv" "srv_pricer (append_audit ck e srv) = srv_pricer srv"
  "srv_claim (append_audit ck e srv) = srv_claim srv" "srv_wsHub (append_audit ck e srv) = srv_wsHub srv"
  by (simp_all add: append_audit_def)

lemma update_quote_server [simp]:
  "srv_cfg (snd (update_quote i fn srv)) = srv_cfg srv"
  "srv_pricer (snd (update_quote i fn srv)) = srv_pricer srv"
  "srv_claim (snd (update_quote i fn srv)) = srv_claim srv"
  "srv_wsHub (snd (update_quote i fn srv)) = srv_wsHub srv"
  by (simp_all add: update_quote_def Let_def split: prod.split)

lemma issue_quote_simps:
  "fst (issue_quote E ck i req res srv) =
     new_quote (dp_decimal E) i req res (ck 0) (ck 0 + cfg_RateLockTTL (srv_cfg srv))"
  "sh_store (snd (issue_quote E ck i req res srv)) =
     SaveQuote (new_quote (dp_decimal E) i req res (ck 0) (ck 0 + cfg_RateLockTTL (srv_cfg srv))) (sh_store srv)"
  "sh_locks (snd (issue_quote E ck i req res srv)) =
     snd (lb_SetNX (dp_locks E) (later 1 ck) (lockKey (dp_uuid E) i)
       (lock_payload (dp_decimal E) req res (ck 0 + cfg_RateLockTTL (srv_cfg srv)))
       (cfg_RateLockTTL (srv_cfg srv)) (sh_locks srv))"
  "sh_spot (snd (issue_quote E ck i req res srv)) = sh_spot srv"
  "sh_metrics (snd (issue_quote E ck i req res srv)) = sh_metrics srv"
  "sh_audit (snd (issue_quote E ck i req res srv)) =
     Append (later 4 ck) (new_event ''quote.issued'' i (req_UserTier req) (cr_SourceVenue res) []) (sh_audit srv)"
  "srv_cfg (snd (issue_quote E ck i req res srv)) = srv_cfg srv"
  "srv_claim (snd (issue_quote E ck i req res srv)) = srv_claim srv"
  "srv_pricer (snd (issue_quote E ck i req res srv)) = srv_pricer srv"
  "srv_wsHub (snd (issue_quote E ck i req res srv)) = srv_wsHub srv"
  by (simp_all add: issue_quote_def Let_def)

lemma new_quote_simps [simp]:
  "q_QuoteID (new_quote D i req res now e) = i" "q_Status (new_quote D i req res now e) = StatusOpen"
  "q_ExpiresAt (new_quote D i req res now e) = e" "q_CreatedAt (new_quote D i req res now e) = now"
  "request_of_quote (new_quote D i req res now e) = req"
  "q_LockedRate (new_quote D i req res now e) = cr_Rate res"
  by (simp_all add: new_quote_def request_of_quote_def)

lemma createQuote_cases:
  obtains (panic) "fst (compute_price E ck req srv) = None"
      "createQuote E ck i req srv = (None, snd (compute_price E ck req srv))"
  | (spot) err where "fst (compute_price E ck req srv) = Some (Inl err)"
      "createQuote E ck i req srv = (Some (Inl errSpotUnavailable), snd (compute_price E ck req srv))"
  | (issued) res where "fst (compute_price E ck req srv) = Some (Inr res)"
      "createQuote E ck i req srv =
         (Some (Inr (fst (issue_quote E (later 2 ck) i req res (snd (compute_price E ck req srv))))),
          snd (issue_quote E (later 2 ck) i req res (snd (compute_price E ck req srv))))"
proof (cases "fst (compute_price E ck req srv)")
  case None
  then show ?thesis
    by (intro panic) (auto simp: createQuote_def split: prod.split)
next
  case (Some x)
  show ?thesis
  proof (cases x)
    case (Inl err)
    with Some show ?thesis by (intro spot) (auto simp: createQuote_def split: prod.split)
  next
    case (Inr res)
    with Some show ?thesis by (intro issued) (auto simp: createQuote_def split: prod.split)
  qed
qed

text \<open>
  (C10) Issuing a quote either fails without touching rows, locks and audit log, or stores one open row
  under the new identifier that expires exactly the lock time after its creation, carries the computed
  rate as locked rate and the request's terms, leaves every other row, appends one \<open>quote.issued\<close>
  event, and (under a fresh lock key) locks it in the backend until the lock time has passed.
\<close>

theorem createQuote_issues:
  assumes B: "lock_backend (dp_locks E) tick view invar" and inv: "invar (sh_locks srv)"
    and fresh: "view (sh_locks srv) (ck 3) (lockKey (dp_uuid E) i) = None"
    and out: "createQuote E ck i req srv = (r, srv')"
  shows "(case r of
      Some (Inr q) \<Rightarrow>
        q_Status q = StatusOpen \<and> q_ExpiresAt q = ck 2 + cfg_RateLockTTL (srv_cfg srv) \<and>
        request_of_quote q = req \<and>
        (\<exists>res. fst (compute_price E ck req srv) = Some (Inr res) \<and> q_LockedRate q = cr_Rate res) \<and>
        (\<forall>j. GetQuote (sh_store srv') j = (if j = i then Some q else GetQuote (sh_store srv) j)) \<and>
        (\<exists>e. Events (sh_audit srv') = Events (sh_audit srv) @ [e] \<and> ae_Type e = ''quote.issued'' \<and> ae_QuoteID e = i) \<and>
        (\<forall>t < ck 4 + cfg_RateLockTTL (srv_cfg srv). view (sh_locks srv') t (lockKey (dp_uuid E) i) \<noteq> None)
    | _ \<Rightarrow> sh_store srv' = sh_store srv \<and> sh_locks srv' = sh_locks srv \<and> sh_audit srv' = sh_audit srv)"
proof (cases rule: createQuote_cases [where E = E and ck = ck and req = req and srv = srv and i = i])
  case (issued res)
  let ?s = "snd (compute_price E ck req srv)"
  let ?ttl = "cfg_RateLockTTL (srv_cfg srv)"
  have nx: "fst (lb_SetNX (dp_locks E) (later 3 ck) (lockKey (dp_uuid E) i) v ?ttl (sh_locks srv))" for v
    using lock_backend.SetNX_sets [OF B inv, of "later 3 ck"] fresh by simp
  note view = lock_backend.SetNX_view [OF B inv nx]
  have l3: "later 1 (later 2 ck) = later 3 ck" by simp
  have ev: "ae_Type (stamp ck' (new_event ty i t v x)) = ty" "ae_QuoteID (stamp ck' (new_event ty i t v x)) = i" for ck' ty t v x
    by (simp_all add: stamp_def new_event_def)
  show ?thesis
    using out issued unfolding issued(2)
    by (auto simp: issue_quote_simps l3 view ev)
qed (use out in auto)

section \<open>Concrete instances\<close>

text \<open>A server started at instant 0 with the default configuration, and a BUY of 500 USD in BTC.\<close>

definition ex_ids :: id_source where "ex_ids k = word_of_nat (100 + k)"

definition ex_server :: "(dec10, LockStore) Server" where
  "ex_server = NewServer dec10_ops (ex_clock 0) ex_ids DefaultConfig newMetrics"

definition ex_request :: quoteRequest where
  "ex_request = \<lparr>req_From = ''USD'', req_To = ''BTC'', req_Amount = ''500'', req_UserTier = ''TIER_1'',
     req_Side = ''BUY''\<rparr>"

definition ex_post :: http_request where
  "ex_post = \<lparr>rq_Method = ''POST'', rq_Path = ''/v1/quotes'', rq_RequestID = ''r1'', rq_QueryID = [],
     rq_Upgrade = [], rq_WebSocketKey = [], rq_read_ok = True, rq_body = None, rq_first = None\<rparr>"

lemma ex_server_simps [simp]:
  "sh_locks ex_server = NewLockStore" "sh_audit ex_server = NewAuditLog" "srv_cfg ex_server = DefaultConfig"
  "GetQuote (sh_store ex_server) i = None"
  by (simp_all add: ex_server_def NewServer_def ReloadIndex_def seedFeeSchedules_def Let_def)

lemma ex_server_inv: "shared_inv lock_inv ex_server"
  by (simp add: shared_inv_def lock_inv_New NewAuditLog_def audit_inv_New)
    (simp add: ex_server_def NewServer_def ReloadIndex_def seedFeeSchedules_def Let_def
      store_inv_SetFeeSchedules store_inv_New spot_inv_New)

lemma ex_compute: "\<exists>res. fst (compute_price ex_deps (ex_clock 10) ex_request ex_server) = Some (Inr res)"
proof -
  have "case fst (compute_price ex_deps (ex_clock 10) ex_request ex_server) of
      Some (Inr res) \<Rightarrow> cr_SpreadBPS res = 80 | _ \<Rightarrow> False"
    by code_simp
  then show ?thesis by (auto split: option.splits sum.splits)
qed

lemma ex_created:
  "\<exists>q srv'. createQuote ex_deps (ex_clock 10) 7 ex_request ex_server = (Some (Inr q), srv')"
  using ex_compute
  by (cases rule: createQuote_cases [where E = ex_deps and ck = "ex_clock 10" and req = ex_request
        and srv = ex_server and i = 7]) auto

lemma view_New [simp]: "lock_view NewLockStore t k = None"
  by (simp add: lock_view_def NewLockStore_def)

theorem createQuote_issues_witness:
  "\<exists>q srv'. createQuote ex_deps (ex_clock 10) 7 ex_request ex_server = (Some (Inr q), srv') \<and>
     q_Status q = StatusOpen \<and> q_ExpiresAt q = 12 + 30 * second \<and> GetQuote (sh_store srv') 7 = Some q \<and>
     lock_view (sh_locks srv') second (lockKey uuid_hex 7) \<noteq> None"
proof -
  obtain q srv' where c: "createQuote ex_deps (ex_clock 10) 7 ex_request ex_server = (Some (Inr q), srv')"
    using ex_created by blast
  show ?thesis
    using createQuote_issues [OF ex_backend shared_invD(2) [OF ex_server_inv] _ c] c
    by (simp add: DefaultConfig_def ex_clock_def second_def)
qed

end
