(* ===== verification/Quote_Lifecycle.thy ===== *)
theory Quote_Lifecycle
  imports Server
begin

text \<open>
  The life of a quote across the operations of the server: the status changes each operation makes, the
  sweeper, the refresh, and the server as a step relation with the invariants of its reachable states.
\<close>

section \<open>Status changes\<close>

text \<open>The changes of a row: its status and claim fields move along the life cycle, its terms never change.\<close>

definition same_terms :: "'d Quote \<Rightarrow> 'd Quote \<Rightarrow> bool" where
  "same_terms q q' \<longleftrightarrow> q' = q\<lparr>q_Status := q_Status q', q_ClaimedAt := q_ClaimedAt q', q_ClaimedBy := q_ClaimedBy q'\<rparr>"

fun status_edge :: "QuoteStatus \<Rightarrow> QuoteStatus \<Rightarrow> bool" where
  "status_edge StatusOpen s = True"
| "status_edge StatusClaimed s = (s = StatusClaimed \<or> s = StatusCanceled)"
| "status_edge StatusExpired s = (s = StatusExpired \<or> s = StatusCanceled)"
| "status_edge StatusCanceled s = (s = StatusCanceled)"

definition row_step :: "'d Quote \<Rightarrow> 'd Quote \<Rightarrow> bool" where
  "row_step q q' \<longleftrightarrow> same_terms q q' \<and> status_edge (q_Status q) (q_Status q')"

lemma status_edge_refl [simp]: "status_edge s s"
  by (cases s) simp_all

lemma status_edge_trans: "status_edge a b \<Longrightarrow> status_edge b c \<Longrightarrow> status_edge a c"
  by (cases a; cases b) auto

lemma same_terms_refl [simp]: "same_terms q q"
  by (simp add: same_terms_def)

lemma same_terms_trans:
  assumes "same_terms a b" and "same_terms b c"
  shows "same_terms a c"
proof -
  have b: "b = a\<lparr>q_Status := q_Status b, q_ClaimedAt := q_ClaimedAt b, q_ClaimedBy := q_ClaimedBy b\<rparr>"
    and c: "c = b\<lparr>q_Status := q_Status c, q_ClaimedAt := q_ClaimedAt c, q_ClaimedBy := q_ClaimedBy c\<rparr>"
    using assms by (simp_all add: same_terms_def)
  have "c = (a\<lparr>q_Status := q_Status b, q_ClaimedAt := q_ClaimedAt b, q_ClaimedBy := q_ClaimedBy b\<rparr>)
      \<lparr>q_Status := q_Status c, q_ClaimedAt := q_ClaimedAt c, q_ClaimedBy := q_ClaimedBy c\<rparr>"
    using b c by metis
  then show ?thesis by (simp add: same_terms_def)
qed

lemma row_step_refl [simp]: "row_step q q"
  by (simp add: row_step_def)

lemma row_step_trans: "row_step a b \<Longrightarrow> row_step b c \<Longrightarrow> row_step a c"
  unfolding row_step_def by (blast intro: same_terms_trans status_edge_trans)

lemma row_step_set_status: "status_edge (q_Status q) st \<Longrightarrow> row_step q (set_status st q)"
  by (simp add: row_step_def same_terms_def set_status_def)

lemma row_step_claim: "q_Status q = StatusOpen \<Longrightarrow> row_step q (mark_claimed t by q)"
  by (simp add: row_step_def same_terms_def mark_claimed_def)

lemma claim_row_step_row: "claim_row_step by q q' \<Longrightarrow> row_step q q'"
  by (auto simp: claim_row_step_def row_step_set_status row_step_claim)

text \<open>From one store to another, every row makes such a change, and rows may be added.\<close>

definition rows_advance :: "'d Store \<Rightarrow> 'd Store \<Rightarrow> bool" where
  "rows_advance s s' \<longleftrightarrow>
     (\<forall>i q. GetQuote s i = Some q \<longrightarrow> (\<exists>q'. GetQuote s' i = Some q' \<and> row_step q q'))"

lemma rows_advance_refl [simp]: "rows_advance s s"
  by (simp add: rows_advance_def)

lemma rows_advance_trans: "rows_advance a b \<Longrightarrow> rows_advance b c \<Longrightarrow> rows_advance a c"
  unfolding rows_advance_def by (meson row_step_trans)

lemma rows_advance_same: "GetQuote s' = GetQuote s \<Longrightarrow> rows_advance s s'"
  by (simp add: rows_advance_def)

lemma rows_advance_Update:
  "(\<And>q. GetQuote s i = Some q \<Longrightarrow> row_step q (fn q)) \<Longrightarrow> rows_advance s (snd (UpdateQuote i fn s))"
  by (auto simp: rows_advance_def)

lemma rows_advance_Save: "GetQuote s (q_QuoteID q) = None \<Longrightarrow> rows_advance s (SaveQuote q s)"
  by (auto simp: rows_advance_def)

section \<open>The sweeper\<close>

definition overdue :: "time \<Rightarrow> 'd Quote \<Rightarrow> bool" where
  "overdue now q \<longleftrightarrow> q_Status q = StatusOpen \<and> q_ExpiresAt q < now"

lemma set_status_twice [simp]: "set_status st (set_status st' q) = set_status st q"
  by (simp add: set_status_def)

lemma sweep_loop_rows:
  "GetQuote (sh_store (sweep_loop now ck qs w)) i =
     (if \<exists>q \<in> set qs. overdue now q \<and> q_QuoteID q = i
      then map_option (set_status StatusExpired) (GetQuote (sh_store w) i)
      else GetQuote (sh_store w) i)"
  by (induction qs arbitrary: ck w) (auto simp: overdue_def option.map_comp comp_def)

lemma event_fields [simp]:
  "ae_Type (stamp ck (quote_event ty i q x)) = ty" "ae_QuoteID (stamp ck (quote_event ty i q x)) = i"
  by (simp_all add: stamp_def quote_event_def new_event_def)

definition event_kinds :: "AuditLog \<Rightarrow> (string \<times> uuid) list" where
  "event_kinds a = map (\<lambda>e. (ae_Type e, ae_QuoteID e)) (Events a)"

lemma event_kinds_Append [simp]:
  "event_kinds (Append ck (quote_event ty i q x) a) = event_kinds a @ [(ty, i)]"
  by (simp add: event_kinds_def)

lemma sweep_loop_events:
  "event_kinds (sh_audit (sweep_loop now ck qs w)) =
     event_kinds (sh_audit w) @ map (\<lambda>q. (''quote.expired'', q_QuoteID q)) (filter (overdue now) qs)"
  by (induction qs arbitrary: ck w) (auto simp: overdue_def)

lemma sweep_loop_frame:
  "sh_locks (sweep_loop now ck qs w) = sh_locks w" "sh_spot (sweep_loop now ck qs w) = sh_spot w"
  "sh_metrics (sweep_loop now ck qs w) = sh_metrics w"
  by (induction qs arbitrary: ck w) auto

lemma sweep_loop_inv: "shared_inv invar w \<Longrightarrow> shared_inv invar (sweep_loop now ck qs w)"
  by (induction qs arbitrary: ck w) (auto simp: shared_inv_update)

lemma store_inv_sweep: "store_inv (sh_store w) \<Longrightarrow> store_inv (sh_store (sweepExpired ck iter w))"
proof -
  have "store_inv (sh_store w) \<Longrightarrow> store_inv (sh_store (sweep_loop now ck qs w))" for now ck qs
    by (induction qs arbitrary: ck w) (auto simp: store_inv_Update)
  then show "store_inv (sh_store w) \<Longrightarrow> store_inv (sh_store (sweepExpired ck iter w))"
    by (simp add: sweepExpired_def)
qed

lemma sweepExpired_row:
  assumes "reorders iter" and "store_inv (sh_store w)"
  shows "GetQuote (sh_store (sweepExpired ck iter w)) i =
    map_option (\<lambda>q. if overdue (ck 0) q then set_status StatusExpired q else q) (GetQuote (sh_store w) i)"
proof (cases "GetQuote (sh_store w) i")
  case None
  then show ?thesis by (simp add: sweepExpired_def sweep_loop_rows)
next
  case (Some q)
  have mem: "r \<in> set (ListQuotes iter (sh_store w)) \<longleftrightarrow> GetQuote (sh_store w) (q_QuoteID r) = Some r" for r
    using set_ListQuotes [OF assms] by blast
  have "(\<exists>r \<in> set (ListQuotes iter (sh_store w)). overdue (ck 0) r \<and> q_QuoteID r = i) \<longleftrightarrow> overdue (ck 0) q"
    using mem Some store_invD [OF assms(2) Some] by (metis option.inject)
  with Some show ?thesis by (simp add: sweepExpired_def sweep_loop_rows)
qed

lemma ids_of_rows:
  assumes "reorders iter" and "store_inv s"
  shows "set (map q_QuoteID (filter P (ListQuotes iter s))) = {i. \<exists>q. GetQuote s i = Some q \<and> P q}"
proof (intro set_eqI iffI)
  fix i
  assume "i \<in> {i. \<exists>q. GetQuote s i = Some q \<and> P q}"
  then obtain q where q: "GetQuote s i = Some q" "P q" by blast
  then have "q_QuoteID q = i" using store_invD [OF assms(2)] by blast
  with q have "q \<in> set (filter P (ListQuotes iter s))" by (simp add: set_ListQuotes [OF assms])
  then show "i \<in> set (map q_QuoteID (filter P (ListQuotes iter s)))"
    using \<open>q_QuoteID q = i\<close> by (metis imageI list.set_map)
next
  fix i
  assume "i \<in> set (map q_QuoteID (filter P (ListQuotes iter s)))"
  then obtain q where "q_QuoteID q = i" "P q" "q \<in> set (ListQuotes iter s)" by auto
  then show "i \<in> {i. \<exists>q. GetQuote s i = Some q \<and> P q}"
    using set_ListQuotes [OF assms] by blast
qed

text \<open>
  (C19) A sweep expires exactly the open quotes whose expiry has passed, and appends one
  \<open>quote.expired\<close> event for each of them; every other row, the locks and the spot service stay as they
  were. A second sweep at the same instant changes no row and appends no event.
\<close>

theorem sweepExpired_exact:
  assumes iter: "reorders iter" "reorders iter'" and inv: "store_inv (sh_store w)" and now: "ck' 0 = ck 0"
  shows "(\<forall>i. GetQuote (sh_store (sweepExpired ck iter w)) i =
      map_option (\<lambda>q. if overdue (ck 0) q then set_status StatusExpired q else q) (GetQuote (sh_store w) i)) \<and>
    (\<exists>es. event_kinds (sh_audit (sweepExpired ck iter w)) =
        event_kinds (sh_audit w) @ map (Pair ''quote.expired'') es \<and> distinct es \<and>
        set es = {i. \<exists>q. GetQuote (sh_store w) i = Some q \<and> overdue (ck 0) q}) \<and>
    sh_locks (sweepExpired ck iter w) = sh_locks w \<and> sh_spot (sweepExpired ck iter w) = sh_spot w \<and>
    GetQuote (sh_store (sweepExpired ck' iter' (sweepExpired ck iter w))) =
      GetQuote (sh_store (sweepExpired ck iter w)) \<and>
    event_kinds (sh_audit (sweepExpired ck' iter' (sweepExpired ck iter w))) =
      event_kinds (sh_audit (sweepExpired ck iter w))"
proof (intro conjI allI)
  let ?w' = "sweepExpired ck iter w" and ?qs = "ListQuotes iter (sh_store w)"
  have row: "GetQuote (sh_store ?w') i =
      map_option (\<lambda>q. if overdue (ck 0) q then set_status StatusExpired q else q) (GetQuote (sh_store w) i)" for i
    by (rule sweepExpired_row [OF iter(1) inv])
  then show "GetQuote (sh_store ?w') i =
      map_option (\<lambda>q. if overdue (ck 0) q then set_status StatusExpired q else q) (GetQuote (sh_store w) i)" for i .
  show "sh_locks ?w' = sh_locks w" "sh_spot ?w' = sh_spot w" by (simp_all add: sweepExpired_def sweep_loop_frame)
  have "distinct (map q_QuoteID (filter (overdue (ck 0)) ?qs))"
    using distinct_ListQuotes_ids [OF iter(1) inv] by (rule distinct_map_filter)
  moreover have "set (map q_QuoteID (filter (overdue (ck 0)) ?qs)) =
      {i. \<exists>q. GetQuote (sh_store w) i = Some q \<and> overdue (ck 0) q}"
    by (rule ids_of_rows [OF iter(1) inv])
  ultimately show "\<exists>es. event_kinds (sh_audit ?w') =
        event_kinds (sh_audit w) @ map (Pair ''quote.expired'') es \<and> distinct es \<and>
        set es = {i. \<exists>q. GetQuote (sh_store w) i = Some q \<and> overdue (ck 0) q}"
    by (intro exI [of _ "map q_QuoteID (filter (overdue (ck 0)) ?qs)"])
      (simp add: sweepExpired_def sweep_loop_events)
  have inv': "store_inv (sh_store ?w')"
    using inv by (rule store_inv_sweep)
  have none: "\<not> overdue (ck' 0) q" if "GetQuote (sh_store ?w') i = Some q" for i q
  proof -
    from that obtain q0 where "q = (if overdue (ck 0) q0 then set_status StatusExpired q0 else q0)"
      unfolding row by blast
    then show ?thesis by (simp add: now overdue_def split: if_splits)
  qed
  have "GetQuote (sh_store (sweepExpired ck' iter' ?w')) i = GetQuote (sh_store ?w') i" for i
    using none [of i] by (cases "GetQuote (sh_store ?w') i") (simp_all add: sweepExpired_row [OF iter(2) inv'])
  then show "GetQuote (sh_store (sweepExpired ck' iter' ?w')) = GetQuote (sh_store ?w')" ..
  have "filter (overdue (ck' 0)) (ListQuotes iter' (sh_store ?w')) = []"
    unfolding filter_empty_conv set_ListQuotes [OF iter(2) inv'] using none by blast
  then show "event_kinds (sh_audit (sweepExpired ck' iter' ?w')) = event_kinds (sh_audit ?w')"
    unfolding sweepExpired_def [of ck'] sweep_loop_events by simp
qed

section \<open>The operations\<close>

lemma shared_inv_server [simp]:
  "shared_inv invar (srv\<lparr>srv_cfg := c\<rparr>) \<longleftrightarrow> shared_inv invar srv"
  "shared_inv invar (srv\<lparr>srv_pricer := p\<rparr>) \<longleftrightarrow> shared_inv invar srv"
  "shared_inv invar (srv\<lparr>srv_wsHub := h\<rparr>) \<longleftrightarrow> shared_inv invar srv"
  "shared_inv invar (srv\<lparr>sh_metrics := m\<rparr>) \<longleftrightarrow> shared_inv invar srv"
  by (simp_all add: shared_inv_def)

lemma spot_inv_Compute:
  assumes "spot_inv s" and "hook_ok hook"
  shows "spot_inv (fst (snd (Compute D ck hook p st from to amount tier side s m)))"
  using spot_inv_Get [OF assms, of D ck "from" to m]
  by (cases "Get D ck hook from to s m") (simp add: Compute_def split: sum.split)

lemma compute_price_inv:
  assumes "shared_inv invar srv" and "hook_ok (dp_poll E)"
  shows "shared_inv invar (snd (compute_price E ck req srv))"
  using assms spot_inv_Compute [OF shared_invD(3) [OF assms(1)] assms(2)]
  by (simp add: compute_price_def shared_inv_def split: prod.split) (metis fst_conv snd_conv)

lemma issue_quote_inv:
  assumes B: "lock_states (dp_locks E) tick invar" and "shared_inv invar srv" and "mono ck"
  shows "shared_inv invar (snd (issue_quote E ck i req res srv))"
  using assms lock_states.invar_SetNX [OF B shared_invD(2) [OF assms(2)] mono_later [OF assms(3)]]
  by (simp add: shared_inv_def issue_quote_simps store_inv_Save audit_inv_Append)

lemma createQuote_inv:
  assumes B: "lock_states (dp_locks E) tick invar" and inv: "shared_inv invar srv"
    and hook: "hook_ok (dp_poll E)" and ck: "mono ck"
  shows "shared_inv invar (snd (createQuote E ck i req srv))"
  using issue_quote_inv [OF B compute_price_inv [OF inv hook] mono_later [OF ck]] compute_price_inv [OF inv hook]
  by (cases rule: createQuote_cases [where E = E and ck = ck and req = req and srv = srv and i = i]) simp_all

lemma createQuote_rows:
  assumes "GetQuote (sh_store srv) i = None"
  shows "rows_advance (sh_store srv) (sh_store (snd (createQuote E ck i req srv)))"
  using assms
  by (cases rule: createQuote_cases [where E = E and ck = ck and req = req and srv = srv and i = i])
    (simp_all add: issue_quote_simps rows_advance_Save)

lemma getQuote_state:
  "snd (getQuote E ck rq i srv) = srv \<or>
   (\<exists>q. GetQuote (sh_store srv) i = Some q \<and> (q_Status q = StatusExpired \<or> overdue (ck 0) q) \<and>
     snd (getQuote E ck rq i srv) = snd (update_quote i (set_status StatusExpired) srv))"
  by (auto simp: getQuote_def overdue_def split: option.split)

lemma getQuote_inv: "shared_inv invar srv \<Longrightarrow> shared_inv invar (snd (getQuote E ck rq i srv))"
  using getQuote_state [of E ck rq i srv] by (auto simp: shared_inv_update)

lemma getQuote_rows: "rows_advance (sh_store srv) (sh_store (snd (getQuote E ck rq i srv)))"
proof -
  have "rows_advance (sh_store srv) (sh_store (snd (update_quote i (set_status StatusExpired) srv)))"
    if "GetQuote (sh_store srv) i = Some q" "q_Status q = StatusExpired \<or> overdue (ck 0) q" for q
    using that by (auto simp: overdue_def intro!: rows_advance_Update row_step_set_status)
  then show ?thesis using getQuote_state [of E ck rq i srv] by fastforce
qed

lemma cancel_for_refresh_simps:
  "sh_store (cancel_for_refresh E ck i old srv) = snd (UpdateQuote i (set_status StatusCanceled) (sh_store srv))"
  "sh_locks (cancel_for_refresh E ck i old srv) = snd (lb_Del (dp_locks E) (lockKey (dp_uuid E) i) (sh_locks srv))"
  "sh_spot (cancel_for_refresh E ck i old srv) = sh_spot srv"
  "sh_audit (cancel_for_refresh E ck i old srv) = Append ck (quote_event ''quote.refreshed'' i old []) (sh_audit srv)"
  "srv_cfg (cancel_for_refresh E ck i old srv) = srv_cfg srv"
  by (simp_all add: cancel_for_refresh_def Let_def)

lemma cancel_for_refresh_inv:
  assumes B: "lock_states (dp_locks E) tick invar" and inv: "shared_inv invar srv"
  shows "shared_inv invar (cancel_for_refresh E ck i old srv)"
  using inv lock_states.invar_Del [OF B shared_invD(2) [OF inv]]
  by (simp add: shared_inv_def cancel_for_refresh_simps store_inv_Update audit_inv_Append)

lemma refreshQuote_cases:
  obtains (missing) "GetQuote (sh_store srv) i = None"
      "refreshQuote E ck ids rq i srv = (Some (writeErrorApp rq errNotFound), srv)"
  | (failed) old srv1 r where "GetQuote (sh_store srv) i = Some old"
      "srv1 = snd (compute_price E (later 1 ck) (request_of_quote old) (cancel_for_refresh E ck i old srv))"
      "\<forall>res. fst (compute_price E (later 1 ck) (request_of_quote old) (cancel_for_refresh E ck i old srv)) \<noteq> Some (Inr res)"
      "refreshQuote E ck ids rq i srv = (r, srv1)"
      "r = None \<or> r = Some (writeErrorApp rq errSpotUnavailable)"
  | (issued) old srv1 res where "GetQuote (sh_store srv) i = Some old"
      "srv1 = snd (compute_price E (later 1 ck) (request_of_quote old) (cancel_for_refresh E ck i old srv))"
      "fst (compute_price E (later 1 ck) (request_of_quote old) (cancel_for_refresh E ck i old srv)) = Some (Inr res)"
      "refreshQuote E ck ids rq i srv =
         (Some (respond 201 (json_of_map (toResponse (dp_uuid E)
            (fst (issue_quote E (later 3 ck) (ids 0) (request_of_quote old) res srv1))))),
          snd (issue_quote E (later 3 ck) (ids 0) (request_of_quote old) res srv1))"
proof (cases "GetQuote (sh_store srv) i")
  case None
  then show ?thesis by (intro missing) (simp_all add: refreshQuote_def)
next
  case (Some old)
  let ?cp = "compute_price E (later 1 ck) (request_of_quote old) (cancel_for_refresh E ck i old srv)"
  show ?thesis
  proof (cases "\<exists>res. fst ?cp = Some (Inr res)")
    case True
    then obtain res where "fst ?cp = Some (Inr res)" ..
    with Some show ?thesis
      by (intro issued [of old "snd ?cp" res]) (auto simp: refreshQuote_def split: prod.split)
  next
    case False
    show ?thesis
    proof (cases "fst ?cp")
      case None
      with Some show ?thesis
        by (intro failed [of old "snd ?cp" None]) (auto simp: refreshQuote_def split: prod.split)
    next
      case (Some x)
      with False obtain err where "fst ?cp = Some (Inl err)" by (cases x) auto
      with \<open>GetQuote (sh_store srv) i = Some old\<close> show ?thesis
        by (intro failed [of old "snd ?cp" "Some (writeErrorApp rq errSpotUnavailable)"])
          (auto simp: refreshQuote_def split: prod.split)
    qed
  qed
qed

lemma event_kinds_issued [simp]:
  "event_kinds (Append ck (new_event ty i t v x) a) = event_kinds a @ [(ty, i)]"
  by (simp add: event_kinds_def stamp_def new_event_def)

text \<open>
  (C28) A refresh cancels the old quote whatever its status was, a claimed one too, and removes its lock.
  If a price can be computed a new open quote with the same terms of request takes its place, with a
  fresh expiry and its own lock, and the audit log gets both events; if not, the old quote stays
  canceled, no quote takes its place and no other row changes.
\<close>

theorem refreshQuote_effect:
  fixes srv
  assumes B: "lock_backend (dp_locks E) tick view invar" and U: "uuid_laws (dp_uuid E)"
    and inv: "invar (sh_locks srv)" and old: "GetQuote (sh_store srv) i = Some old" and new: "ids 0 \<noteq> i"
    and fresh: "view (sh_locks srv) (ck 4) (lockKey (dp_uuid E) (ids 0)) = None"
    and out: "refreshQuote E ck ids rq i srv = (r, srv')"
  defines "cp \<equiv> fst (compute_price E (later 1 ck) (request_of_quote old) (cancel_for_refresh E ck i old srv))"
  shows "GetQuote (sh_store srv') i = Some (set_status StatusCanceled old) \<and>
    (\<forall>t. view (sh_locks srv') t (lockKey (dp_uuid E) i) = None) \<and>
    (\<forall>j. j \<noteq> i \<and> j \<noteq> ids 0 \<longrightarrow> GetQuote (sh_store srv') j = GetQuote (sh_store srv) j) \<and>
    (if \<exists>res. cp = Some (Inr res)
     then (\<exists>nq. GetQuote (sh_store srv') (ids 0) = Some nq \<and> q_Status nq = StatusOpen \<and>
         request_of_quote nq = request_of_quote old \<and>
         q_ExpiresAt nq = ck 3 + cfg_RateLockTTL (srv_cfg srv)) \<and>
       (\<forall>t < ck 5 + cfg_RateLockTTL (srv_cfg srv). view (sh_locks srv') t (lockKey (dp_uuid E) (ids 0)) \<noteq> None) \<and>
       event_kinds (sh_audit srv') = event_kinds (sh_audit srv) @ [(''quote.refreshed'', i), (''quote.issued'', ids 0)]
     else GetQuote (sh_store srv') (ids 0) = GetQuote (sh_store srv) (ids 0) \<and>
       event_kinds (sh_audit srv') = event_kinds (sh_audit srv) @ [(''quote.refreshed'', i)])"
proof -
  let ?l = "snd (lb_Del (dp_locks E) (lockKey (dp_uuid E) i) (sh_locks srv))"
  have key: "lockKey (dp_uuid E) (ids 0) \<noteq> lockKey (dp_uuid E) i" using new by (simp add: lockKey_inj [OF U])
  have invl: "invar ?l" by (rule lock_states.invar_Del [OF lock_backend.axioms(1) [OF B] inv])
  note del = lock_backend.Del_view [OF B inv]
  have nx: "fst (lb_SetNX (dp_locks E) (later 4 ck) (lockKey (dp_uuid E) (ids 0)) v ttl ?l)" for v ttl
    using lock_backend.SetNX_sets [OF B invl, of "later 4 ck"] fresh key by (simp add: del)
  note set = lock_backend.SetNX_view [OF B invl nx]
  show ?thesis
  proof (cases rule: refreshQuote_cases [where E = E and ck = ck and srv = srv and i = i and ids = ids and rq = rq])
    case missing
    with old show ?thesis by simp
  next
    case (failed old' srv1 r')
    with old out have "srv' = srv1" "old' = old" by auto
    with failed new show ?thesis
      by (auto simp: cp_def cancel_for_refresh_simps del)
  next
    case (issued old' srv1 res)
    with old out have "old' = old" and srv': "srv' = snd (issue_quote E (later 3 ck) (ids 0) (request_of_quote old) res srv1)"
      by auto
    with issued new key show ?thesis
      by (auto simp: cp_def issue_quote_simps cancel_for_refresh_simps del set)
  qed
qed

lemma refreshQuote_inv:
  assumes B: "lock_states (dp_locks E) tick invar" and inv: "shared_inv invar srv"
    and hook: "hook_ok (dp_poll E)" and ck: "mono ck"
  shows "shared_inv invar (snd (refreshQuote E ck ids rq i srv))"
proof (cases rule: refreshQuote_cases [where E = E and ck = ck and srv = srv and i = i and ids = ids and rq = rq])
  case (failed old srv1 r)
  with compute_price_inv [OF cancel_for_refresh_inv [OF B inv] hook] show ?thesis by simp
next
  case (issued old srv1 res)
  with issue_quote_inv [OF B compute_price_inv [OF cancel_for_refresh_inv [OF B inv] hook] mono_later [OF ck]]
  show ?thesis by simp
qed (simp add: inv)

lemma refreshQuote_rows:
  assumes "GetQuote (sh_store srv) (ids 0) = None"
  shows "rows_advance (sh_store srv) (sh_store (snd (refreshQuote E ck ids rq i srv)))"
proof -
  have cancel: "rows_advance (sh_store srv) (snd (UpdateQuote i (set_status StatusCanceled) (sh_store srv)))"
  proof (intro rows_advance_Update row_step_set_status)
    show "status_edge (q_Status q) StatusCanceled" for q :: "'a Quote" by (cases "q_Status q") simp_all
  qed
  show ?thesis
  proof (cases rule: refreshQuote_cases [where E = E and ck = ck and srv = srv and i = i and ids = ids and rq = rq])
    case (failed old srv1 r)
    with cancel show ?thesis by (simp add: cancel_for_refresh_simps)
  next
    case (issued old srv1 res)
    have save: "rows_advance s (SaveQuote (new_quote D (ids 0) req res now e) s)"
      if "GetQuote s (ids 0) = None" for D req now e s
      using that by (simp add: rows_advance_Save)
    from issued show ?thesis
      using assms by (auto simp: issue_quote_simps cancel_for_refresh_simps intro!: rows_advance_trans [OF cancel] save)
  qed simp
qed

lemma count_claim_simps [simp]:
  "sh_store (count_claim r srv) = sh_store srv" "sh_locks (count_claim r srv) = sh_locks srv"
  "sh_spot (count_claim r srv) = sh_spot srv" "sh_audit (count_claim r srv) = sh_audit srv"
  by (simp_all add: count_claim_def)

lemma claimQuote_state:
  "snd (claimQuote E ck rq i by srv) = snd (Claim E ck (srv_claim srv) i by srv) \<or>
   (\<exists>r. snd (claimQuote E ck rq i by srv) = count_claim r (snd (Claim E ck (srv_claim srv) i by srv)))"
  by (auto simp: claimQuote_def claim_response_def split: prod.split option.split)

lemma claimQuote_inv:
  assumes "lock_states (dp_locks E) tick invar" and "shared_inv invar srv" and "hook_ok (dp_poll E)"
  shows "shared_inv invar (snd (claimQuote E ck rq i by srv))"
  using shared_inv_Claim [OF assms, of ck "srv_claim srv" i "by"] claimQuote_state [of E ck rq i "by" srv]
  by (auto simp: shared_inv_def)

lemma Claim_rows:
  "rows_advance (sh_store w) (sh_store (snd (Claim E ck c i by w)))"
  unfolding rows_advance_def
proof (intro allI impI)
  fix j q
  assume "GetQuote (sh_store w) j = Some q"
  with Claim_row_steps [of "by" w j E ck c i]
  show "\<exists>q'. GetQuote (sh_store (snd (Claim E ck c i by w))) j = Some q' \<and> row_step q q'"
    by (auto simp: option_rel_Some1 claim_row_step_row)
qed

section \<open>The server as a step relation\<close>

text \<open>
  A step is an operation of a request handler, a background task or a component's own goroutine, run to
  its end; \<open>ss_observe\<close> stands for what touches only subscribers and collectors. The identifiers of new
  quotes are fresh, the instants an operation reads never decrease, and the handlers only issue for valid
  requests and claim for a named claimant.
  The audit log of the server has no sink.
\<close>

inductive server_step ::
    "('d, 'l) deps \<Rightarrow> (time \<Rightarrow> 'l \<Rightarrow> 'l \<Rightarrow> bool) \<Rightarrow> ('d, 'l) Server \<Rightarrow> ('d, 'l) Server \<Rightarrow> bool"
  for E tick where
  ss_create: "GetQuote (sh_store srv) i = None \<Longrightarrow> mono ck \<Longrightarrow> validateRequest (dp_decimal E) req = None \<Longrightarrow>
    server_step E tick srv (snd (createQuote E ck i req srv))"
| ss_get: "server_step E tick srv (snd (getQuote E ck rq i srv))"
| ss_refresh: "GetQuote (sh_store srv) (ids 0) = None \<Longrightarrow> mono ck \<Longrightarrow>
    server_step E tick srv (snd (refreshQuote E ck ids rq i srv))"
| ss_claim: "TrimSpace by \<noteq> [] \<Longrightarrow> server_step E tick srv (snd (claimQuote E ck rq i by srv))"
| ss_sweep: "reorders iter \<Longrightarrow> server_step E tick srv (sweepExpired ck iter srv)"
| ss_reload: "server_step E tick srv (snd (feeSchedulesReload E ck ids rq srv))"
| ss_schedules: "server_step E tick srv (feeScheduleRefresh_tick E ck ids srv)"
| ss_lock_tick: "tick now (sh_locks srv) l \<Longrightarrow> server_step E tick srv (srv\<lparr>sh_locks := l\<rparr>)"
| ss_rate: "server_step E tick srv (srv\<lparr>sh_spot := fst (Update ck r (sh_spot srv))\<rparr>)"
| ss_dispatch: "dispatch None (sh_audit srv, ()) (a, \<sigma>) \<Longrightarrow> server_step E tick srv (srv\<lparr>sh_audit := a\<rparr>)"
| ss_observe: "server_step E tick srv (srv\<lparr>srv_wsHub := h, sh_metrics := m\<rparr>)"

lemma seed_store_inv: "store_inv st \<Longrightarrow> store_inv (seedFeeSchedules D ck ids st)"
  by (simp add: seedFeeSchedules_def Let_def store_inv_SetFeeSchedules)

lemma seed_rows [simp]: "GetQuote (seedFeeSchedules D ck ids st) = GetQuote st"
  by (simp add: seedFeeSchedules_def Let_def)

lemma feeSchedulesReload_inv:
  "shared_inv invar srv \<Longrightarrow> shared_inv invar (snd (feeSchedulesReload E ck ids rq srv))"
  by (simp add: feeSchedulesReload_def ReloadIndex_def Let_def shared_inv_def seed_store_inv)

lemma feeSchedulesReload_rows:
  "rows_advance (sh_store srv) (sh_store (snd (feeSchedulesReload E ck ids rq srv)))"
  by (simp add: feeSchedulesReload_def ReloadIndex_def Let_def rows_advance_same)

lemma server_step_inv:
  assumes "server_step E tick srv srv'" and B: "lock_states (dp_locks E) tick invar"
    and hook: "hook_ok (dp_poll E)" and inv: "shared_inv invar srv"
  shows "shared_inv invar srv'"
  using assms(1) inv
proof (induction rule: server_step.induct)
  case (ss_sweep iter srv ck)
  then show ?case by (simp add: sweepExpired_def sweep_loop_inv)
next
  case (ss_lock_tick now srv l)
  then show ?case using lock_states.invar_tick [OF B] by (auto simp: shared_inv_def)
next
  case (ss_dispatch srv a \<sigma>)
  then show ?case using dispatch_keeps [OF ss_dispatch(1)] by (simp add: shared_inv_def)
next
  case (ss_schedules srv ck ids)
  then show ?case by (simp add: feeScheduleRefresh_tick_def shared_inv_def seed_store_inv)
next
  case (ss_rate srv ck r)
  then show ?case by (simp add: shared_inv_def spot_inv_Update)
qed (simp_all add: createQuote_inv [OF B _ hook] getQuote_inv refreshQuote_inv [OF B _ hook]
    claimQuote_inv [OF B _ hook] feeSchedulesReload_inv)

lemma server_step_rows:
  assumes "server_step E tick srv srv'" and inv: "shared_inv invar srv"
  shows "rows_advance (sh_store srv) (sh_store srv')"
  using assms(1) inv
proof (induction rule: server_step.induct)
  case (ss_claim "by" srv ck rq i)
  then show ?case
    using Claim_rows [of srv E ck "srv_claim srv" i "by"] claimQuote_state [of E ck rq i "by" srv] by auto
next
  case (ss_sweep iter srv ck)
  have "row_step q (if overdue (ck 0) q then set_status StatusExpired q else q)" for q :: "'a Quote"
    by (simp add: row_step_set_status overdue_def)
  then show ?case
    using sweepExpired_row [OF ss_sweep.hyps shared_invD(1) [OF ss_sweep.prems]] by (simp add: rows_advance_def)
next
  case (ss_schedules srv ck ids)
  then show ?case by (simp add: feeScheduleRefresh_tick_def rows_advance_same)
qed (simp_all add: createQuote_rows getQuote_rows refreshQuote_rows feeSchedulesReload_rows)

lemma server_steps:
  assumes "(server_step E tick)\<^sup>*\<^sup>* srv srv'" and B: "lock_states (dp_locks E) tick invar"
    and hook: "hook_ok (dp_poll E)" and inv: "shared_inv invar srv"
  shows "shared_inv invar srv' \<and> rows_advance (sh_store srv) (sh_store srv')"
  using assms(1)
proof (induction rule: rtranclp_induct)
  case (step y z)
  then show ?case
    using server_step_inv [OF step(2) B hook] server_step_rows [OF step(2)]
    by (blast intro: rows_advance_trans)
qed (simp add: inv)


text \<open> A quote is claimed at most once: after a claim of it has succeeded, no claim of it succeeds in
  any state that the server reaches from there, whatever happens in between.
\<close>

lemma claimed_at_most_once:
  fixes srv :: "('d, 'l) Server"
  assumes B: "lock_states (dp_locks E) tick invar"
    and hook: "hook_ok (dp_poll E)" and inv: "shared_inv invar srv"
    and first: "Claim E ck c i by srv = (Some res, srv1)" "cl_Reason res = []"
    and run: "(server_step E tick)\<^sup>*\<^sup>* srv1 srv2"
    and second: "Claim E ck' c' i by' srv2 = (Some res', srv3)"
  shows "cl_Reason res' \<noteq> []"
proof -
  have inv1: "shared_inv invar srv1" using shared_inv_Claim [OF B inv hook, of ck c i "by"] first(1) by simp
  obtain q where "GetQuote (sh_store srv1) i = Some q" "q_Status q = StatusClaimed"
    using Claim_success_row [OF first] by auto
  then obtain q' where q': "GetQuote (sh_store srv2) i = Some q'" "q_Status q' \<noteq> StatusOpen"
    using server_steps [OF run B hook inv1] by (fastforce simp: rows_advance_def row_step_def)
  from Claim_row [OF q'(1), of E ck' c' by'] q'(2) second show ?thesis
    by (cases "q_Status q'") auto
qed

section \<open>Concrete instances\<close>

text \<open>The server with one open quote that expires at 30 seconds.\<close>

definition ex_one :: "(dec10, LockStore) Server" where
  "ex_one = ex_server\<lparr>sh_store := SaveQuote (ex_quote 7 0) (sh_store ex_server),
     sh_locks := sh_locks ex_shared\<rparr>"

lemma ex_one_inv: "shared_inv lock_inv ex_one"
  using ex_server_inv ex_shared_inv by (simp add: shared_inv_def ex_one_def store_inv_Save)

lemma ex_one_quote: "GetQuote (sh_store ex_one) i = (if i = 7 then Some (ex_quote 7 0) else None)"
  by (simp add: ex_one_def) (simp add: ex_quote_def)

lemma ex_quote_status: "q_Status (ex_quote i t) = StatusOpen" "q_ExpiresAt (ex_quote i t) = t + 30 * second"
  by (simp_all add: ex_quote_def)

theorem sweepExpired_exact_witness:
  "GetQuote (sh_store (sweepExpired (ex_clock (40 * second)) rev ex_one)) 7 =
     Some (set_status StatusExpired (ex_quote 7 0))"
  using sweepExpired_exact [OF reorders_rev reorders_id shared_invD(1) [OF ex_one_inv], of
      "ex_clock (40 * second)" "ex_clock (40 * second)"]
  by (simp add: ex_one_quote overdue_def ex_quote_status ex_clock_def second_def)

lemma ex_uuid: "uuid_laws (dp_uuid ex_deps)"
  by (simp add: uuid_hex.uuid_laws_axioms)

theorem refreshQuote_effect_witness:
  "GetQuote (sh_store (snd (refreshQuote ex_deps (ex_clock 10) ex_ids ex_post 7 ex_one))) 7 =
     Some (set_status StatusCanceled (ex_quote 7 0))"
proof -
  have "lock_view (sh_locks ex_one) (ex_clock 10 4) (lockKey (dp_uuid ex_deps) (ex_ids 0)) = None"
    by code_simp
  then show ?thesis
    using refreshQuote_effect [OF ex_backend ex_uuid shared_invD(2) [OF ex_one_inv], of 7 "ex_quote 7 0"
        ex_ids "ex_clock 10"] ex_one_quote [of 7]
    by (simp add: ex_ids_def) (metis prod.collapse)
qed



end
