(* ===== verification/Ws_Handshake.thy ===== *)
theory Ws_Handshake
  imports Web_Socket
begin

unbundle bit_operations_syntax

text \<open>
  The handshake of RFC 6455 as \<open>hijackAndUpgrade\<close> of \<open>internal/ws.go\<close> writes it, with what it uses of
  \<open>crypto/sha1\<close> and \<open>encoding/base64\<close>.
\<close>

section \<open>SHA-1\<close>

fun blocks :: "nat \<Rightarrow> 'a list \<Rightarrow> 'a list list" where
  "blocks n xs = (if n = 0 \<or> xs = [] then [] else take n xs # blocks n (drop n xs))"

declare blocks.simps [simp del]

definition be32 :: "32 word \<Rightarrow> byte list" where
  "be32 w = map (\<lambda>i. ucast (drop_bit i w)) [24, 16, 8, 0]"

definition be64 :: "64 word \<Rightarrow> byte list" where
  "be64 w = map (\<lambda>i. ucast (drop_bit i w)) [56, 48, 40, 32, 24, 16, 8, 0]"

definition be_word :: "byte list \<Rightarrow> 32 word" where
  "be_word bs = foldl (\<lambda>w b. push_bit 8 w OR ucast b) 0 bs"

text \<open>A message is padded to blocks of 64 bytes with a one bit, zeros and its length in bits.\<close>

definition sha1_pad :: "byte list \<Rightarrow> byte list" where
  "sha1_pad m =
     m @ 0x80 # replicate (nat ((55 - int (length m)) mod 64)) 0 @ be64 (word_of_nat (8 * length m))"

text \<open>The message schedule, its latest word first.\<close>

fun sha1_extend :: "nat \<Rightarrow> 32 word list \<Rightarrow> 32 word list" where
  "sha1_extend 0 ws = ws"
| "sha1_extend (Suc n) ws = sha1_extend n (word_rotl 1 (ws ! 2 XOR ws ! 7 XOR ws ! 13 XOR ws ! 15) # ws)"

type_synonym sha1_state = "32 word \<times> 32 word \<times> 32 word \<times> 32 word \<times> 32 word"

definition sha1_f :: "nat \<Rightarrow> 32 word \<Rightarrow> 32 word \<Rightarrow> 32 word \<Rightarrow> 32 word" where
  "sha1_f t b c d =
     (if t < 20 then (b AND c) OR (NOT b AND d) else if t < 40 then b XOR c XOR d
      else if t < 60 then (b AND c) OR (b AND d) OR (c AND d) else b XOR c XOR d)"

definition sha1_k :: "nat \<Rightarrow> 32 word" where
  "sha1_k t = (if t < 20 then 0x5A827999 else if t < 40 then 0x6ED9EBA1 else if t < 60 then 0x8F1BBCDC else 0xCA62C1D6)"

fun sha1_rounds :: "nat \<Rightarrow> 32 word list \<Rightarrow> sha1_state \<Rightarrow> sha1_state" where
  "sha1_rounds t [] s = s"
| "sha1_rounds t (w # ws) (a, b, c, d, e) =
     sha1_rounds (Suc t) ws (word_rotl 5 a + sha1_f t b c d + e + sha1_k t + w, a, word_rotl 30 b, c, d)"

definition sha1_block :: "byte list \<Rightarrow> sha1_state \<Rightarrow> sha1_state" where
  "sha1_block bs s =
     (case s of (a, b, c, d, e) \<Rightarrow>
        (case sha1_rounds 0 (rev (sha1_extend 64 (rev (map be_word (blocks 4 bs))))) s of
           (a', b', c', d', e') \<Rightarrow> (a + a', b + b', c + c', d + d', e + e')))"

definition sha1 :: "byte list \<Rightarrow> byte list" where
  "sha1 m =
     (case fold sha1_block (blocks 64 (sha1_pad m)) (0x67452301, 0xEFCDAB89, 0x98BADCFE, 0x10325476, 0xC3D2E1F0) of
        (a, b, c, d, e) \<Rightarrow> concat (map be32 [a, b, c, d, e]))"

text \<open>The padded message is a whole number of blocks, and a digest has 20 bytes.\<close>

lemma length_sha1_pad: "length (sha1_pad m) mod 64 = 0"
proof -
  let ?k = "nat ((55 - int (length m)) mod 64)"
  have "int (length (sha1_pad m)) = int (length m) + 9 + (55 - int (length m)) mod 64"
    by (simp add: sha1_pad_def be64_def)
  also have "\<dots> mod 64 = (int (length m) + 9 + (55 - int (length m))) mod 64" by (simp add: mod_add_right_eq)
  also have "\<dots> = 0" by simp
  finally have "int (length (sha1_pad m) mod 64) = 0" by (simp add: zmod_int)
  then show ?thesis by simp
qed

lemma length_sha1 [simp]: "length (sha1 m) = 20"
  by (simp add: sha1_def be32_def split: prod.split)

section \<open>Base64\<close>

definition base64_alphabet :: string where
  "base64_alphabet = ''ABCDEFGHIJKLMNOPQRSTUVWXYZabcdefghijklmnopqrstuvwxyz0123456789+/''"

definition base64_char :: "nat \<Rightarrow> char" where "base64_char n = base64_alphabet ! n"

fun base64 :: "byte list \<Rightarrow> string" where
  "base64 [] = []"
| "base64 [a] = [base64_char (unat a div 4), base64_char (unat a mod 4 * 16), CHR ''='', CHR ''='']"
| "base64 [a, b] =
     [base64_char (unat a div 4), base64_char (unat a mod 4 * 16 + unat b div 16),
      base64_char (unat b mod 16 * 4), CHR ''='']"
| "base64 (a # b # c # bs) =
     base64_char (unat a div 4) # base64_char (unat a mod 4 * 16 + unat b div 16) #
     base64_char (unat b mod 16 * 4 + unat c div 64) # base64_char (unat c mod 64) # base64 bs"

definition base64_value :: "char \<Rightarrow> nat option" where "base64_value c = IndexByte base64_alphabet c"

text \<open>A reader of it, for the round trip.\<close>

definition join_bytes :: "nat \<Rightarrow> nat \<Rightarrow> nat \<Rightarrow> nat \<Rightarrow> byte list" where
  "join_bytes w x y z = [word_of_nat (w * 4 + x div 16), word_of_nat (x mod 16 * 16 + y div 4), word_of_nat (y mod 4 * 64 + z)]"

fun unbase64 :: "string \<Rightarrow> byte list option" where
  "unbase64 [] = Some []"
| "unbase64 (p # q # r # t # s) =
     (case (base64_value p, base64_value q, base64_value r, base64_value t) of
        (Some w, Some x, Some y, Some z) \<Rightarrow> map_option (append (join_bytes w x y z)) (unbase64 s)
      | (Some w, Some x, Some y, None) \<Rightarrow> if s = [] then Some (take 2 (join_bytes w x y 0)) else None
      | (Some w, Some x, None, None) \<Rightarrow> if s = [] then Some (take 1 (join_bytes w x 0 0)) else None
      | _ \<Rightarrow> None)"
| "unbase64 _ = None"

lemma base64_value_char: "n < 64 \<Longrightarrow> base64_value (base64_char n) = Some n"
proof -
  have "list_all (\<lambda>n. base64_value (base64_char n) = Some n) [0..<64]" by code_simp
  then show "n < 64 \<Longrightarrow> base64_value (base64_char n) = Some n" by (simp add: list_all_iff)
qed

lemma base64_value_pad: "base64_value (CHR ''='') = None"
  by code_simp

lemma byte_less [simp]: "unat (a :: byte) < 256"
  using unsigned_less [of a] by simp

lemma sextets:
  "unat (a :: byte) div 4 < 64" "unat (a :: byte) mod 4 * 16 < 64" "unat (a :: byte) mod 4 * 16 + unat (b :: byte) div 16 < 64"
  "unat (b :: byte) mod 16 * 4 < 64" "unat (b :: byte) mod 16 * 4 + unat (c :: byte) div 64 < 64" "unat (c :: byte) mod 64 < 64"
proof -
  have "unat b div 16 < 16" "unat c div 64 < 4" "unat a div 4 < 64" by (simp_all add: div_less_iff_less_mult)
  moreover have "unat a mod 4 < 4" "unat b mod 16 < 16" by simp_all
  ultimately show "unat a div 4 < 64" "unat a mod 4 * 16 < 64" "unat a mod 4 * 16 + unat b div 16 < 64"
    "unat b mod 16 * 4 < 64" "unat b mod 16 * 4 + unat c div 64 < 64" "unat c mod 64 < 64"
    by linarith+
qed

lemma join_sextets:
  "join_bytes (unat a div 4) (unat a mod 4 * 16 + unat b div 16) (unat b mod 16 * 4 + unat c div 64) (unat c mod 64) = [a, b, c]"
proof -
  have "unat b div 16 < 16" "unat c div 64 < 4" by (simp_all add: div_less_iff_less_mult)
  then have "(unat a mod 4 * 16 + unat b div 16) div 16 = unat a mod 4" "(unat a mod 4 * 16 + unat b div 16) mod 16 = unat b div 16"
    "(unat b mod 16 * 4 + unat c div 64) div 4 = unat b mod 16" "(unat b mod 16 * 4 + unat c div 64) mod 4 = unat c div 64"
    by simp_all
  moreover have "unat a div 4 * 4 + unat a mod 4 = unat a" "unat b div 16 * 16 + unat b mod 16 = unat b"
    "unat c div 64 * 64 + unat c mod 64 = unat c"
    by simp_all
  ultimately show ?thesis by (simp add: join_bytes_def add.commute)
qed

text \<open>Encoded bytes are read back.\<close>

lemma unbase64_base64: "unbase64 (base64 bs) = Some bs"
proof (induction bs rule: base64.induct)
  case (2 a)
  then show ?case using join_sextets [of a 0 0] by (simp add: base64_value_char sextets base64_value_pad)
next
  case (3 a b)
  then show ?case using join_sextets [of a b 0] by (simp add: base64_value_char sextets base64_value_pad)
next
  case (4 a b c bs)
  then show ?case using join_sextets [of a b c] by (simp add: base64_value_char sextets)
qed simp

lemma length_base64: "length (base64 bs) = (length bs + 2) div 3 * 4"
  by (induction bs rule: base64.induct) (simp_all, presburger)

lemma base64_chars: "set (base64 bs) \<subseteq> insert (CHR ''='') (set base64_alphabet)"
proof -
  have "length base64_alphabet = 64" by code_simp
  then have "n < 64 \<Longrightarrow> base64_char n \<in> set base64_alphabet" for n by (simp add: base64_char_def)
  then show ?thesis using sextets by (induction bs rule: base64.induct) auto
qed

section \<open>The response\<close>

definition wsHandshakeGUID :: string where
  "wsHandshakeGUID = ''258EAFA5-E914-47DA-95CA-C5AB0DC85B11''"

definition accept_key :: "string \<Rightarrow> string" where
  "accept_key key = base64 (sha1 (string_bytes (key @ wsHandshakeGUID)))"

definition crlf :: string where "crlf = [CHR 0x0D, CHR 0x0A]"

definition handshake_response :: "string \<Rightarrow> string" where
  "handshake_response key =
     ''HTTP/1.1 101 Switching Protocols'' @ crlf @ ''Upgrade: websocket'' @ crlf @ ''Connection: Upgrade'' @ crlf @
     ''Sec-WebSocket-Accept: '' @ accept_key key @ crlf @ crlf"

text \<open>
  Whatever key the client sends, the accept value has 28 characters of the Base64 alphabet, so that no key can
  add a header line, and it reads back as the digest.
\<close>

lemma accept_key_safe:
  "length (accept_key key) = 28" "set (accept_key key) \<subseteq> insert (CHR ''='') (set base64_alphabet)"
  "unbase64 (accept_key key) = Some (sha1 (string_bytes (key @ wsHandshakeGUID)))"
  unfolding accept_key_def by (simp_all add: length_base64 base64_chars unbase64_base64)

end
