(* ===== verification/Server_Http.thy ===== *)
theory Server_Http
  imports Quote_Lifecycle Logger Ws_Handshake
begin

text \<open>
  The HTTP layer of \<open>internal/server.go\<close>, \<open>internal/ws.go\<close> and \<open>internal/metrics.go\<close>: the handlers that
  parse paths and dispatch on methods, the routes, and the middlewares around them.
\<close>

section \<open>Dispatch\<close>

definition quotesHandler ::
    "('d, 'l) deps \<Rightarrow> clock \<Rightarrow> id_source \<Rightarrow> ('d Quote list \<Rightarrow> 'd Quote list) \<Rightarrow> http_request \<Rightarrow>
     ('d, 'l) Server \<Rightarrow> http_response option \<times> ('d, 'l) Server" where
  "quotesHandler E ck ids iter rq srv =
     (if rq_Method rq = ''GET'' then (Some (listQuotes E iter srv), srv)
      else if rq_Method rq \<noteq> ''POST'' then (Some (method_not_allowed rq), srv)
      else if \<not> rq_read_ok rq then (Some (writeError rq 400 ''bad_request'' ''could not read body''), srv)
      else (case Option.bind (rq_body rq) (decode_items (\<lambda>j _. Some j) JNull) of
              Some (Some items) \<Rightarrow> bulkQuotes E ck ids rq srv
            | _ \<Rightarrow> singleQuote E ck ids rq srv))"

definition quoteByIDHandler ::
    "('d, 'l) deps \<Rightarrow> clock \<Rightarrow> id_source \<Rightarrow> http_request \<Rightarrow> ('d, 'l) Server \<Rightarrow>
     http_response option \<times> ('d, 'l) Server" where
  "quoteByIDHandler E ck ids rq srv =
     (let rest = TrimPrefix (rq_Path rq) ''/v1/quotes/''; parts = SplitN rest (CHR ''/'') 2 in
      if parts = [] \<or> parts ! 0 = [] then (Some (writeError rq 404 ''not_found'' ''quote id required''), srv)
      else case uParse (dp_uuid E) (parts ! 0) of
             None \<Rightarrow> (Some (writeError rq 404 ''not_found'' ''invalid quote id''), srv)
           | Some i \<Rightarrow>
               if length parts = 2 \<and> parts ! 1 = ''refresh''
               then (if rq_Method rq \<noteq> ''POST'' then (Some (method_not_allowed rq), srv)
                     else refreshQuote E ck ids rq i srv)
               else if rq_Method rq \<noteq> ''GET'' then (Some (method_not_allowed rq), srv)
               else (case getQuote E ck rq i srv of (rp, srv') \<Rightarrow> (Some rp, srv')))"

definition internalQuoteHandler ::
    "('d, 'l) deps \<Rightarrow> clock \<Rightarrow> http_request \<Rightarrow> ('d, 'l) Server \<Rightarrow>
     http_response option \<times> ('d, 'l) Server" where
  "internalQuoteHandler E ck rq srv =
     (let rest = TrimPrefix (rq_Path rq) ''/internal/v1/quotes/''; parts = SplitN rest (CHR ''/'') 2 in
      if parts = [] \<or> parts ! 0 = [] then (Some (writeError rq 404 ''not_found'' ''quote id required''), srv)
      else case uParse (dp_uuid E) (parts ! 0) of
             None \<Rightarrow> (Some (writeError rq 404 ''not_found'' ''invalid quote id''), srv)
           | Some i \<Rightarrow>
               if length parts \<noteq> 2 \<or> parts ! 1 \<noteq> ''claim''
               then (Some (writeError rq 404 ''not_found'' ''unknown route''), srv)
               else if rq_Method rq \<noteq> ''POST'' then (Some (method_not_allowed rq), srv)
               else (case Option.bind (rq_first rq) decode_claimedBy of
                       None \<Rightarrow> (Some (writeError rq 400 ''bad_request'' ''invalid JSON body''), srv)
                     | Some claimedBy \<Rightarrow>
                         if TrimSpace claimedBy = []
                         then (Some (writeError rq 400 ''bad_request'' ''claimed_by required''), srv)
                         else claimQuote E ck rq i claimedBy srv))"

text \<open>
  \<open>readBody\<close> on the results of the reader's calls: the bytes of each, and an error if there was one.
  \<open>None\<close> means that the reader has not come to an end yet.
\<close>

fun readBody :: "(string \<times> string option) list \<Rightarrow> string \<Rightarrow> (string + string) option" where
  "readBody [] buf = None"
| "readBody ((chunk, None) # reads) buf = readBody reads (buf @ chunk)"
| "readBody ((chunk, Some err) # reads) buf = Some (if err = ''EOF'' then Inr (buf @ chunk) else Inl err)"

lemma readBody_whole:
  "readBody (map (\<lambda>chunk. (chunk, None)) chunks @ [(chunk, Some err)]) buf =
     Some (if err = ''EOF'' then Inr (buf @ concat chunks @ chunk) else Inl err)"
  by (induction chunks arbitrary: buf) simp_all

section \<open>The WebSocket endpoint\<close>

text \<open>
  The writer a handler gets: the one of \<open>net/http\<close>, which can be hijacked, or a \<open>statusRecorder\<close> around
  a writer. The recorder embeds the interface \<open>http.ResponseWriter\<close>, so its method set has no \<open>Hijack\<close>.
\<close>

datatype response_writer = NetWriter | StatusRecorder response_writer

fun is_Hijacker :: "response_writer \<Rightarrow> bool" where
  "is_Hijacker NetWriter = True"
| "is_Hijacker (StatusRecorder w) = False"

text \<open>The handshake; \<open>hijack_ok\<close>, \<open>write_ok\<close> and \<open>buffered\<close> are what the connection does.\<close>

record ws_handshake =
  hs_hijack_ok :: bool
  hs_write_ok :: bool
  hs_buffered :: nat

text \<open>
  Not taken over, taken over and closed again, or taken over with the bytes of the handshake written.
\<close>

datatype hijack_result = NotHijacked | HijackClosed | Hijacked string

definition hijackAndUpgrade :: "response_writer \<Rightarrow> ws_handshake \<Rightarrow> http_request \<Rightarrow> hijack_result" where
  "hijackAndUpgrade w hs rq =
     (if \<not> is_Hijacker w then NotHijacked
      else if rq_WebSocketKey rq = [] then NotHijacked
      else if \<not> hs_hijack_ok hs then NotHijacked
      else let resp = handshake_response (rq_WebSocketKey rq) in
        if \<not> hs_write_ok hs then HijackClosed
        else if 0 < hs_buffered hs then HijackClosed
        else Hijacked resp)"

definition new_subscriber :: wsSubscriber where
  "new_subscriber = \<lparr>ws_conn = [], ws_pairs = [], ws_done = False, ws_closed = False\<rparr>"

text \<open>
  What becomes of a request: it is answered, its connection is taken over by the WebSocket handler, which
  has written the given bytes, or taken over and closed, or the handler panics and \<open>net/http\<close> closes it.
\<close>

datatype http_outcome = Answered http_response | Upgraded string | Closed | Aborted

definition outcome :: "http_response option \<times> 's \<Rightarrow> http_outcome \<times> 's" where
  "outcome r = (case r of (None, s) \<Rightarrow> (Aborted, s) | (Some rp, s) \<Rightarrow> (Answered rp, s))"

text \<open>
  The handler up to its read loop: a response, or a subscriber numbered \<open>p\<close> added to the hub. An upgrade
  that fails before the connection is taken over returns without a response, for which \<open>net/http\<close> sends
  an empty 200.
\<close>

definition empty_response :: http_response where
  "empty_response = \<lparr>rp_Status = 200, rp_Body = None\<rparr>"

definition ratesSubscribe ::
    "response_writer \<Rightarrow> ws_handshake \<Rightarrow> nat \<Rightarrow> http_request \<Rightarrow> ('d, 'l) Server \<Rightarrow>
     http_outcome \<times> ('d, 'l) Server" where
  "ratesSubscribe w hs p rq srv =
     (if rq_Method rq \<noteq> ''GET'' then (Answered (method_not_allowed rq), srv)
      else if ToLower (rq_Upgrade rq) \<noteq> ''websocket''
      then (Answered (writeError rq 400 ''bad_request'' ''Upgrade: websocket required''), srv)
      else (case hijackAndUpgrade w hs rq of
              NotHijacked \<Rightarrow> (Answered empty_response, srv)
            | HijackClosed \<Rightarrow> (Closed, srv)
            | Hijacked resp \<Rightarrow>
                (case hub_add p new_subscriber (srv_wsHub srv) (sh_metrics srv) of
                   (h, m) \<Rightarrow> (Upgraded resp, srv\<lparr>srv_wsHub := h, sh_metrics := m\<rparr>))))"

section \<open>Routes and middlewares\<close>

datatype endpoint = EpHealthz | EpReadyz | EpMetrics | EpQuotes | EpQuoteByID | EpSubscribe
  | EpInternalQuote | EpReload | EpFeeSchedules | EpRateSources | EpAuditEvents

definition routes :: "(string \<times> endpoint) list" where
  "routes =
     [(''/healthz'', EpHealthz), (''/readyz'', EpReadyz), (''/metrics'', EpMetrics),
      (''/v1/quotes'', EpQuotes), (''/v1/quotes/'', EpQuoteByID),
      (''/v1/rates/subscribe'', EpSubscribe), (''/internal/v1/quotes/'', EpInternalQuote),
      (''/internal/v1/fee-schedules/reload'', EpReload), (''/v1/fee-schedules'', EpFeeSchedules),
      (''/v1/rate-sources'', EpRateSources), (''/v1/audit-events'', EpAuditEvents)]"

text \<open>
  The choice of \<open>http.ServeMux\<close> for a clean path: an exact pattern, else the longest pattern ending in a
  slash that is a prefix of the path.
\<close>

definition subtree_patterns :: "string \<Rightarrow> (string \<times> endpoint) list" where
  "subtree_patterns path =
     filter (\<lambda>(pat, ep). last pat = CHR ''/'' \<and> HasPrefix path pat) routes"

definition mux_match :: "string \<Rightarrow> endpoint option" where
  "mux_match path =
     (case map_of routes path of
        Some ep \<Rightarrow> Some ep
      | None \<Rightarrow>
          (case sort_key (\<lambda>(pat, ep). - int (length pat)) (subtree_patterns path) of
             [] \<Rightarrow> None
           | (pat, ep) # _ \<Rightarrow> Some ep))"

text \<open>\<open>requestIDMiddleware\<close>: a generated identifier where the header is empty.\<close>

definition requestIDMiddleware :: "uuid_ops \<Rightarrow> uuid \<Rightarrow> http_request \<Rightarrow> http_request" where
  "requestIDMiddleware U fresh rq =
     (if rq_RequestID rq = [] then rq\<lparr>rq_RequestID := uString U fresh\<rparr> else rq)"


text \<open>
  What surrounds a request: the clock, the identifiers drawn, the order in which the store is ranged
  over, the behaviour of the connection on a hijack, the number of a new subscriber, and the identifier
  drawn for a request without one, and the time the request takes.
\<close>

record 'd request_env =
  en_clock :: clock
  en_ids :: id_source
  en_iter :: "'d Quote list \<Rightarrow> 'd Quote list"
  en_sources :: "RateSource list \<Rightarrow> RateSource list"
  en_handshake :: ws_handshake
  en_subscriber :: nat
  en_request :: uuid
  en_elapsed :: duration


fun serve_endpoint ::
    "('d, 'l) deps \<Rightarrow> 'd request_env \<Rightarrow> endpoint \<Rightarrow> response_writer \<Rightarrow> http_request \<Rightarrow> ('d, 'l) Server \<Rightarrow>
     http_outcome \<times> ('d, 'l) Server" where
  "serve_endpoint E en EpHealthz w rq srv = (Answered healthz, srv)"
| "serve_endpoint E en EpReadyz w rq srv = (Answered (readyz E rq srv), srv)"
| "serve_endpoint E en EpMetrics w rq srv = (Answered empty_response, srv)"
| "serve_endpoint E en EpQuotes w rq srv =
     outcome (quotesHandler E (en_clock en) (en_ids en) (en_iter en) rq srv)"
| "serve_endpoint E en EpQuoteByID w rq srv = outcome (quoteByIDHandler E (en_clock en) (en_ids en) rq srv)"
| "serve_endpoint E en EpSubscribe w rq srv = ratesSubscribe w (en_handshake en) (en_subscriber en) rq srv"
| "serve_endpoint E en EpInternalQuote w rq srv = outcome (internalQuoteHandler E (en_clock en) rq srv)"
| "serve_endpoint E en EpReload w rq srv =
     apfst Answered (feeSchedulesReload E (en_clock en) (en_ids en) rq srv)"
| "serve_endpoint E en EpFeeSchedules w rq srv = (Answered (feeSchedulesHandler E rq srv), srv)"
| "serve_endpoint E en EpRateSources w rq srv = (Answered (rateSourcesHandler (en_sources en) rq srv), srv)"
| "serve_endpoint E en EpAuditEvents w rq srv = (Answered (auditEventsHandler E rq srv), srv)"

text \<open>A path without a route gets the 404 of \<open>net/http\<close>. The text of \<open>/metrics\<close> is that of the Prometheus library.\<close>

definition serve_mux ::
    "('d, 'l) deps \<Rightarrow> 'd request_env \<Rightarrow> response_writer \<Rightarrow> http_request \<Rightarrow> ('d, 'l) Server \<Rightarrow>
     http_outcome \<times> ('d, 'l) Server" where
  "serve_mux E en w rq srv =
     (case mux_match (rq_Path rq) of
        None \<Rightarrow> (Answered \<lparr>rp_Status = 404, rp_Body = None\<rparr>, srv)
      | Some ep \<Rightarrow> serve_endpoint E en ep w rq srv)"

text \<open>
  The recorder starts at 200 and keeps the status that is written; a panic passes through the middleware.
\<close>

definition recorded_status :: "http_outcome \<Rightarrow> int" where
  "recorded_status out = (case out of Answered rp \<Rightarrow> rp_Status rp | _ \<Rightarrow> 200)"

definition inc_status :: "string \<Rightarrow> int \<Rightarrow> metrics \<Rightarrow> metrics" where
  "inc_status path status m =
     m\<lparr>m_quoteStatusTotal := vec_inc (path, case itoa status of None \<Rightarrow> [] | Some s \<Rightarrow> s) (m_quoteStatusTotal m)\<rparr>"

definition record_request :: "string \<Rightarrow> int \<Rightarrow> duration \<Rightarrow> metrics \<Rightarrow> metrics" where
  "record_request path status elapsed m = inc_status path status (observe_request path elapsed m)"

definition metricsMiddleware ::
    "duration \<Rightarrow> (response_writer \<Rightarrow> http_request \<Rightarrow> ('d, 'l) Server \<Rightarrow> http_outcome \<times> ('d, 'l) Server) \<Rightarrow>
     response_writer \<Rightarrow> http_request \<Rightarrow> ('d, 'l) Server \<Rightarrow> http_outcome \<times> ('d, 'l) Server" where
  "metricsMiddleware elapsed h w rq srv =
     (case h (StatusRecorder w) rq srv of
        (Aborted, srv') \<Rightarrow> (Aborted, srv')
      | (out, srv') \<Rightarrow>
          (out, srv'\<lparr>sh_metrics :=
             record_request (labeledPath (rq_Path rq)) (recorded_status out) elapsed (sh_metrics srv')\<rparr>))"

text \<open>
  The handler that \<open>RunWithConfigCtx\<close> serves. The tracing handler around it passes a writer on that can
  still be hijacked.
\<close>

definition serve_http ::
    "('d, 'l) deps \<Rightarrow> 'd request_env \<Rightarrow> http_request \<Rightarrow> ('d, 'l) Server \<Rightarrow> http_outcome \<times> ('d, 'l) Server" where
  "serve_http E en rq srv =
     metricsMiddleware (en_elapsed en) (\<lambda>w rq. serve_mux E en w (requestIDMiddleware (dp_uuid E) (en_request en) rq))
       NetWriter rq srv"

text \<open>Latencies and statuses are recorded together: a path has as many of the one as of the other.\<close>

lemma record_request_counts:
  "vec_total (m_quoteStatusTotal (record_request path status d m)) p -
      int (length (observed (m_quoteRequestSeconds (record_request path status d m)) p)) =
    vec_total (m_quoteStatusTotal m) p - int (length (observed (m_quoteRequestSeconds m) p))"
proof -
  have "m_quoteStatusTotal (observe_request path d m) = m_quoteStatusTotal m"
    and "m_quoteRequestSeconds (inc_status path status m') = m_quoteRequestSeconds m'" for m'
    by (simp_all add: observe_request_def inc_status_def)
  then show ?thesis
    by (simp add: record_request_def observed_request) (simp add: inc_status_def vec_total_inc observe_request_def)
qed

text \<open>
  \<open>run\<close> serves a server with the default configuration without the metrics middleware.
\<close>

definition newMux :: "'d decimal_ops \<Rightarrow> clock \<Rightarrow> id_source \<Rightarrow> metrics \<Rightarrow> ('d, LockStore) Server" where
  "newMux D ck ids m = NewServer D ck ids DefaultConfig m"

definition run_http ::
    "('d, 'l) deps \<Rightarrow> 'd request_env \<Rightarrow> http_request \<Rightarrow> ('d, 'l) Server \<Rightarrow> http_outcome \<times> ('d, 'l) Server" where
  "run_http E en rq = serve_mux E en NetWriter (requestIDMiddleware (dp_uuid E) (en_request en) rq)"

text \<open>Apart from the collectors and from WebSocket upgrades, both servers answer alike.\<close>

lemma serve_endpoint_writer: "ep \<noteq> EpSubscribe \<Longrightarrow> serve_endpoint E en ep w rq srv = serve_endpoint E en ep w' rq srv"
  by (cases ep) simp_all

lemma run_http_serve_http:
  assumes "mux_match (rq_Path rq) \<noteq> Some EpSubscribe"
  obtains m where "serve_http E en rq srv = (fst (run_http E en rq srv), snd (run_http E en rq srv)\<lparr>sh_metrics := m\<rparr>)"
proof -
  let ?rq = "requestIDMiddleware (dp_uuid E) (en_request en) rq"
  have "rq_Path ?rq = rq_Path rq" by (simp add: requestIDMiddleware_def)
  then have mux: "serve_mux E en (StatusRecorder NetWriter) ?rq srv = run_http E en rq srv"
    using assms serve_endpoint_writer [of _ E en "StatusRecorder NetWriter" ?rq srv NetWriter]
    by (auto simp: run_http_def serve_mux_def split: option.split)
  obtain out srv' where out: "run_http E en rq srv = (out, srv')" by fastforce
  have "serve_http E en rq srv =
      (out, srv'\<lparr>sh_metrics := (if out = Aborted then sh_metrics srv'
         else record_request (labeledPath (rq_Path rq)) (recorded_status out) (en_elapsed en) (sh_metrics srv'))\<rparr>)"
    using mux out by (simp add: serve_http_def metricsMiddleware_def split: http_outcome.split)
  with out that show ?thesis by simp
qed

section \<open>Requests as steps of the server\<close>

text \<open>
  A request draws at most one identifier, or one for each item of a bulk request. The identifiers drawn
  are distinct and not those of stored rows.
\<close>

definition request_draws :: "http_request \<Rightarrow> nat" where
  "request_draws rq =
     (case Option.bind (rq_body rq) decode_bulkRequest of
        None \<Rightarrow> 1 | Some req \<Rightarrow> max 1 (length (bulk_Items req)))"

definition fresh_ids :: "nat \<Rightarrow> ('d, 'l) Server \<Rightarrow> id_source \<Rightarrow> bool" where
  "fresh_ids n srv ids \<longleftrightarrow> inj_on ids {..<n} \<and> (\<forall>k<n. GetQuote (sh_store srv) (ids k) = None)"

lemma fresh_idsD: "fresh_ids n srv ids \<Longrightarrow> k < n \<Longrightarrow> GetQuote (sh_store srv) (ids k) = None"
  by (simp add: fresh_ids_def)

lemma fresh_ids_mono: "fresh_ids n srv ids \<Longrightarrow> m \<le> n \<Longrightarrow> fresh_ids m srv ids"
  by (auto simp: fresh_ids_def intro: inj_on_subset)

lemma request_draws_pos: "0 < request_draws rq"
  by (simp add: request_draws_def less_max_iff_disj split: option.split)

lemma later_ids_less: "later_ids 1 ids k = ids (Suc k)"
  by (simp add: later_ids_def)

lemma createQuote_other_rows:
  assumes "j \<noteq> i"
  shows "GetQuote (sh_store (snd (createQuote E ck i req srv))) j = GetQuote (sh_store srv) j"
  using assms
  by (cases rule: createQuote_cases [where E = E and ck = ck and req = req and srv = srv and i = i])
    (simp_all add: issue_quote_simps)

lemma createQuote_failed_rows:
  "createQuote E ck i req srv = (Some (Inl e), srv1) \<Longrightarrow> sh_store srv1 = sh_store srv \<and> e = errSpotUnavailable"
  by (cases rule: createQuote_cases [where E = E and ck = ck and req = req and srv = srv and i = i]) auto

lemma fresh_ids_later:
  assumes "fresh_ids (Suc n) srv ids"
  shows "fresh_ids n (snd (createQuote E ck (ids 0) req srv)) (later_ids 1 ids)"
proof -
  have "ids (Suc k) \<noteq> ids 0" if "k < n" for k
    using assms that inj_on_eq_iff [of ids "{..<Suc n}" "Suc k" 0] by (simp add: fresh_ids_def)
  moreover have "inj_on (\<lambda>k. ids (Suc k)) {..<n}"
    using assms by (auto simp: fresh_ids_def inj_on_def)
  ultimately show ?thesis
    using assms by (simp add: fresh_ids_def later_ids_def createQuote_other_rows)
qed

lemma bulk_items_steps:
  assumes "fresh_ids (length its) srv ids" and "mono ck"
  shows "(server_step E tick)\<^sup>*\<^sup>* srv (snd (bulk_items E ck ids its srv))"
  using assms
proof (induction its arbitrary: ck ids srv)
  case (Cons it its)
  show ?case
  proof (cases "validateRequest (dp_decimal E) it")
    case (Some e)
    have "fresh_ids (length its) srv ids" using Cons.prems(1) by (rule fresh_ids_mono) simp
    from Cons.IH [OF this Cons.prems(2)] Some show ?thesis by (simp add: split_def)
  next
    case None
    obtain r srv1 where c: "createQuote E ck (ids 0) it srv = (r, srv1)" by fastforce
    have step: "server_step E tick srv srv1"
      using ss_create [OF fresh_idsD [OF Cons.prems(1), of 0] Cons.prems(2) None, of tick] by (simp add: c)
    have fail: "fresh_ids (length its) srv1 ids" if "r = Some (Inl e)" for e
      using createQuote_failed_rows [of E ck "ids 0" it srv e srv1] c that
        fresh_ids_mono [OF Cons.prems(1), of "length its"] by (simp add: fresh_ids_def)
    have ok: "fresh_ids (length its) srv1 (later_ids 1 ids)"
      using fresh_ids_later [of "length its" srv ids E ck it] Cons.prems(1) by (simp add: c)
    show ?thesis
    proof (cases r)
      case None
      with \<open>validateRequest _ it = None\<close> c step show ?thesis by auto
    next
      case (Some x)
      have "(server_step E tick)\<^sup>*\<^sup>* srv (snd (bulk_items E (later 7 ck) ids' its srv1))" if "fresh_ids (length its) srv1 ids'" for ids'
        using step Cons.IH [OF that mono_later [OF Cons.prems(2)]] by (rule converse_rtranclp_into_rtranclp)
      with \<open>validateRequest _ it = None\<close> c fail ok Some show ?thesis
        by (cases x) (simp_all add: split_def)
    qed
  qed
qed simp


lemma singleQuote_steps:
  assumes "fresh_ids n srv ids" and "0 < n" and "mono ck"
  shows "(server_step E tick)\<^sup>*\<^sup>* srv (snd (singleQuote E ck ids rq srv))"
proof -
  have "server_step E tick srv (snd (createQuote E ck (ids 0) req srv))"
    if "validateRequest (dp_decimal E) req = None" for req
    using ss_create [OF fresh_idsD [OF assms(1,2)] assms(3) that] .
  then show ?thesis
    by (auto simp: singleQuote_def split: option.split prod.split sum.split)
      (metis snd_conv r_into_rtranclp)+
qed

lemma bulkQuotes_steps:
  assumes "fresh_ids (request_draws rq) srv ids" and "mono ck"
  shows "(server_step E tick)\<^sup>*\<^sup>* srv (snd (bulkQuotes E ck ids rq srv))"
proof (cases "Option.bind (rq_body rq) decode_bulkRequest")
  case (Some req)
  have "fresh_ids (length (bulk_Items req)) srv ids"
    by (rule fresh_ids_mono [OF assms(1)]) (simp add: request_draws_def Some)
  from bulk_items_steps [OF this assms(2)] Some show ?thesis
    by (simp add: bulkQuotes_def split_def)
qed (simp add: bulkQuotes_def)

lemma snd_outcome [simp]: "snd (outcome r) = snd r"
  by (simp add: outcome_def split: prod.split option.split)

lemma outcome_pair [simp]: "outcome (Some rp, s) = (Answered rp, s)" "outcome (None, s) = (Aborted, s)"
  by (simp_all add: outcome_def)

lemma quotesHandler_steps:
  assumes "fresh_ids (request_draws rq) srv ids" and "mono ck"
  shows "(server_step E tick)\<^sup>*\<^sup>* srv (snd (quotesHandler E ck ids iter rq srv))"
  using singleQuote_steps [OF assms(1) request_draws_pos assms(2)] bulkQuotes_steps [OF assms]
  by (simp add: quotesHandler_def split: option.split)

lemma quoteByIDHandler_steps:
  assumes "fresh_ids (request_draws rq) srv ids" and "mono ck"
  shows "(server_step E tick)\<^sup>*\<^sup>* srv (snd (quoteByIDHandler E ck ids rq srv))"
  using r_into_rtranclp [of "server_step E tick", OF ss_refresh [of srv ids, OF fresh_idsD [OF assms(1) request_draws_pos] assms(2)]]
    r_into_rtranclp [of "server_step E tick", OF ss_get]
  by (simp add: quoteByIDHandler_def Let_def split_def split: option.split)

lemma internalQuoteHandler_steps:
  "(server_step E tick)\<^sup>*\<^sup>* srv (snd (internalQuoteHandler E ck rq srv))"
  using r_into_rtranclp [of "server_step E tick", OF ss_claim]
  by (simp add: internalQuoteHandler_def Let_def split: option.split)

lemma serve_endpoint_steps:
  assumes "fresh_ids (request_draws rq) srv (en_ids en)" and "mono (en_clock en)"
  shows "(server_step E tick)\<^sup>*\<^sup>* srv (snd (serve_endpoint E en ep w rq srv))"
proof (cases ep)
  case EpSubscribe
  then show ?thesis
    using r_into_rtranclp [of "server_step E tick", OF ss_observe]
    by (simp add: ratesSubscribe_def split: prod.split hijack_result.split)
next
  case EpReload
  then show ?thesis using r_into_rtranclp [of "server_step E tick", OF ss_reload] by simp
qed (use quotesHandler_steps [OF assms] quoteByIDHandler_steps [OF assms] internalQuoteHandler_steps in simp_all)

lemma serve_mux_steps:
  assumes "fresh_ids (request_draws rq) srv (en_ids en)" and "mono (en_clock en)"
  shows "(server_step E tick)\<^sup>*\<^sup>* srv (snd (serve_mux E en w rq srv))"
  using serve_endpoint_steps [OF assms] by (simp add: serve_mux_def split: option.split)

lemma request_draws_middleware [simp]: "request_draws (requestIDMiddleware U fresh rq) = request_draws rq"
  by (simp add: request_draws_def requestIDMiddleware_def)

lemma serve_http_state:
  "snd (serve_http E en rq srv) = (let srv' = snd (serve_mux E en (StatusRecorder NetWriter)
      (requestIDMiddleware (dp_uuid E) (en_request en) rq) srv) in
    srv'\<lparr>sh_metrics := sh_metrics (snd (serve_http E en rq srv))\<rparr>)"
  by (simp add: serve_http_def metricsMiddleware_def Let_def split: prod.split http_outcome.split)

lemma serve_http_steps:
  assumes "fresh_ids (request_draws rq) srv (en_ids en)" and "mono (en_clock en)"
  shows "(server_step E tick)\<^sup>*\<^sup>* srv (snd (serve_http E en rq srv))"
proof -
  let ?srv = "snd (serve_mux E en (StatusRecorder NetWriter) (requestIDMiddleware (dp_uuid E) (en_request en) rq) srv)"
  have "server_step E tick ?srv (?srv\<lparr>srv_wsHub := srv_wsHub ?srv, sh_metrics := m\<rparr>)" for m
    by (rule ss_observe)
  then have "server_step E tick ?srv (snd (serve_http E en rq srv))"
    by (subst serve_http_state) (simp add: Let_def)
  with serve_mux_steps [OF assms [folded request_draws_middleware [of "dp_uuid E" "en_request en" rq]]]
  show ?thesis by (rule rtranclp.rtrancl_into_rtrancl)
qed


section \<open>Paths\<close>

lemma mux_quote: "mux_match (''/v1/quotes/'' @ s) = Some EpQuoteByID"
  by (cases s) (simp_all add: mux_match_def routes_def subtree_patterns_def HasPrefix_def)

lemma mux_internal: "mux_match (''/internal/v1/quotes/'' @ s) = Some EpInternalQuote"
  by (cases s) (simp_all add: mux_match_def routes_def subtree_patterns_def HasPrefix_def)

lemma mux_subscribe: "mux_match ''/v1/rates/subscribe'' = Some EpSubscribe"
  by (simp add: mux_match_def routes_def)

lemma TrimPrefix_append: "TrimPrefix (p @ s) p = s"
  by (simp add: TrimPrefix_def HasPrefix_def)

lemmas trimmed_paths [simp] =
  TrimPrefix_append [of "''/v1/quotes/''", simplified append.simps]
  TrimPrefix_append [of "''/internal/v1/quotes/''", simplified append.simps]

text \<open>A claim request for a quote: any spelling of its identifier that the parser accepts.\<close>

definition claim_request :: "uuid_ops \<Rightarrow> uuid \<Rightarrow> http_request \<Rightarrow> bool" where
  "claim_request U i rq \<longleftrightarrow> rq_Method rq = ''POST'' \<and>
     (\<exists>s. rq_Path rq = ''/internal/v1/quotes/'' @ s @ ''/claim'' \<and> s \<noteq> [] \<and> CHR ''/'' \<notin> set s \<and> uParse U s = Some i)"

definition quote_path :: "uuid_ops \<Rightarrow> uuid \<Rightarrow> string" where
  "quote_path U i = ''/v1/quotes/'' @ uString U i"

lemma requestID_simps [simp]:
  "rq_Method (requestIDMiddleware U fresh rq) = rq_Method rq" "rq_Path (requestIDMiddleware U fresh rq) = rq_Path rq"
  "rq_first (requestIDMiddleware U fresh rq) = rq_first rq" "rq_Upgrade (requestIDMiddleware U fresh rq) = rq_Upgrade rq"
  by (simp_all add: requestIDMiddleware_def)

lemma status_writeError [simp]:
  "rp_Status (writeError rq st code msg) = st" "rp_Status (respond st body) = st"
  by (simp_all add: writeError_def respond_def)

lemma split_claim_path:
  assumes "CHR ''/'' \<notin> set s"
  shows "SplitN (s @ ''/claim'') (CHR ''/'') 2 = [s, ''claim'']"
  using SplitN_two_free [OF assms, of "''claim''"] by simp

lemma internal_claim:
  assumes "claim_request (dp_uuid E) i rq"
  shows "internalQuoteHandler E ck rq srv =
    (case Option.bind (rq_first rq) decode_claimedBy of
       None \<Rightarrow> (Some (writeError rq 400 ''bad_request'' ''invalid JSON body''), srv)
     | Some claimedBy \<Rightarrow>
         if TrimSpace claimedBy = []
         then (Some (writeError rq 400 ''bad_request'' ''claimed_by required''), srv)
         else claimQuote E ck rq i claimedBy srv)"
  using assms by (auto simp: claim_request_def internalQuoteHandler_def split_claim_path Let_def)

lemma claimQuote_ok:
  assumes "claimQuote E ck rq i by srv = (Some rp, srv')" and "rp_Status rp = 200"
  obtains res srv1 where "Claim E ck (srv_claim srv) i by srv = (Some res, srv1)" "cl_Reason res = []"
    "srv' = count_claim ''ok'' srv1"
proof (cases "Claim E ck (srv_claim srv) i by srv")
  case (Pair r srv1)
  with assms that show ?thesis
    by (cases r) (auto simp: claimQuote_def claim_response_def split: if_splits)
qed

lemma serve_claim_ok:
  assumes rq: "claim_request (dp_uuid E) i rq"
    and out: "serve_http E en rq srv = (Answered rp, srv')" "rp_Status rp = 200"
  obtains "by" res srv1 where "Claim E (en_clock en) (srv_claim srv) i by srv = (Some res, srv1)"
    "cl_Reason res = []" "\<exists>m. srv' = srv1\<lparr>sh_metrics := m\<rparr>"
proof -
  let ?rq = "requestIDMiddleware (dp_uuid E) (en_request en) rq"
  have rq': "claim_request (dp_uuid E) i ?rq" using rq by (simp add: claim_request_def)
  obtain s where path: "rq_Path ?rq = ''/internal/v1/quotes/'' @ s"
    using rq by (auto simp: claim_request_def)
  have mux: "serve_mux E en w ?rq srv = outcome (internalQuoteHandler E (en_clock en) ?rq srv)" for w
    unfolding serve_mux_def path mux_internal by simp
  obtain r s1 where h: "internalQuoteHandler E (en_clock en) ?rq srv = (r, s1)" by fastforce
  with out(1) have r: "r = Some rp" and s1: "\<exists>m. srv' = s1\<lparr>sh_metrics := m\<rparr>"
    by (cases r; auto simp: serve_http_def metricsMiddleware_def mux)+
  with h out(2) obtain "by" where "claimQuote E (en_clock en) ?rq i by srv = (Some rp, s1)"
    by (auto simp: internal_claim [OF rq'] split: option.splits if_splits)
  from claimQuote_ok [OF this out(2)] obtain res srv1
    where "Claim E (en_clock en) (srv_claim srv) i by srv = (Some res, srv1)" "cl_Reason res = []"
      "s1 = count_claim ''ok'' srv1" by metis
  with s1 that show ?thesis by (auto simp: count_claim_def)
qed

section \<open>Properties\<close>

text \<open>
  (C3) A quote is claimed at most once over HTTP: after a claim request for it has been answered with
  200, no claim request for it is answered with 200 in any state that the server reaches from there,
  whatever requests and background work come in between.
\<close>

theorem http_claimed_at_most_once:
  assumes B: "lock_states (dp_locks E) tick invar" and hook: "hook_ok (dp_poll E)"
    and inv: "shared_inv invar srv"
    and rq: "claim_request (dp_uuid E) i rq" "claim_request (dp_uuid E) i rq'"
    and first: "serve_http E en rq srv = (Answered rp, srv1)" "rp_Status rp = 200"
    and run: "(server_step E tick)\<^sup>*\<^sup>* srv1 srv2"
    and second: "serve_http E en' rq' srv2 = (Answered rp', srv3)"
  shows "rp_Status rp' \<noteq> 200"
proof
  assume ok: "rp_Status rp' = 200"
  obtain "by" res s1 m where c1: "Claim E (en_clock en) (srv_claim srv) i by srv = (Some res, s1)" "cl_Reason res = []"
    and s1: "srv1 = s1\<lparr>sh_metrics := m\<rparr>"
    using serve_claim_ok [OF rq(1) first] by metis
  obtain by' res' s3 where c2: "Claim E (en_clock en') (srv_claim srv2) i by' srv2 = (Some res', s3)" "cl_Reason res' = []"
    using serve_claim_ok [OF rq(2) second ok] by metis
  have "server_step E tick s1 srv1"
    using ss_observe [where E = E and tick = tick and srv = s1 and h = "srv_wsHub s1" and m = m] by (simp add: s1)
  then have "(server_step E tick)\<^sup>*\<^sup>* s1 srv2" using run by (rule converse_rtranclp_into_rtranclp)
  from claimed_at_most_once [OF B hook inv c1 this c2(1)] c2(2) show False by simp
qed


text \<open>
  (C21) Behind the metrics middleware, as \<open>RunWithConfigCtx\<close> installs it, a WebSocket subscription never
  succeeds: a well-formed upgrade request is answered with an empty 200, counted as such, and no
  subscriber joins the hub, although the same handler does upgrade a connection that can be hijacked, with
  the handshake of RFC 6455 for the client's key.
\<close>

theorem subscribe_never_upgrades:
  assumes "rq_Path rq = ''/v1/rates/subscribe''" and "rq_Method rq = ''GET''"
    and "ToLower (rq_Upgrade rq) = ''websocket''"
  shows "serve_http E en rq srv =
      (Answered empty_response, srv\<lparr>sh_metrics := record_request ''/v1/rates/subscribe'' 200 (en_elapsed en) (sh_metrics srv)\<rparr>) \<and>
    (hijackAndUpgrade NetWriter (en_handshake en) rq = Hijacked resp \<longrightarrow>
       fst (serve_mux E en NetWriter rq srv) = Upgraded resp \<and> resp = handshake_response (rq_WebSocketKey rq))"
proof -
  have "labeledPath ''/v1/rates/subscribe'' = ''/v1/rates/subscribe''"
    by (simp add: labeledPath_def HasPrefix_def)
  with assms show ?thesis
    by (auto simp: serve_http_def metricsMiddleware_def serve_mux_def mux_subscribe ratesSubscribe_def
        hijackAndUpgrade_def recorded_status_def empty_response_def split: prod.split)
qed

text \<open>
  The printed identifier of a quote leads back to it: its path reaches the lookup, with
  \<open>/refresh\<close> the refresh, and the internal path with \<open>/claim\<close> the claim by the caller the body names.
\<close>

lemma quote_paths_lead_back:
  assumes U: "uuid_laws (dp_uuid E)"
  shows "(rq_Path rq = quote_path (dp_uuid E) i \<and> rq_Method rq = ''GET'' \<longrightarrow>
      serve_mux E en w rq srv = apfst Answered (getQuote E (en_clock en) rq i srv)) \<and>
    (rq_Path rq = quote_path (dp_uuid E) i @ ''/refresh'' \<and> rq_Method rq = ''POST'' \<longrightarrow>
      serve_mux E en w rq srv = outcome (refreshQuote E (en_clock en) (en_ids en) rq i srv)) \<and>
    (rq_Path rq = ''/internal/v1/quotes/'' @ uString (dp_uuid E) i @ ''/claim'' \<and> rq_Method rq = ''POST'' \<and>
      Option.bind (rq_first rq) decode_claimedBy = Some claimedBy \<and> TrimSpace claimedBy \<noteq> [] \<longrightarrow>
      serve_mux E en w rq srv = outcome (claimQuote E (en_clock en) rq i claimedBy srv))"
proof -
  let ?i = "uString (dp_uuid E) i"
  have i: "CHR ''/'' \<notin> set ?i" "?i \<noteq> []" "uParse (dp_uuid E) ?i = Some i"
    using uuid_laws.String_chars [OF U, of i] uuid_laws.String_length [OF U, of i] uuid_laws.Parse_String [OF U]
    by auto
  have get: "SplitN ?i (CHR ''/'') 2 = [?i]" and refresh: "SplitN (?i @ ''/refresh'') (CHR ''/'') 2 = [?i, ''refresh'']"
    using SplitN_two_none [OF i(1)] SplitN_two_free [OF i(1), of "''refresh''"] by simp_all
  have claim: "claim_request (dp_uuid E) i rq"
    if "rq_Path rq = ''/internal/v1/quotes/'' @ ?i @ ''/claim''" "rq_Method rq = ''POST''"
    using that i unfolding claim_request_def by blast
  have "serve_mux E en w rq srv = apfst Answered (getQuote E (en_clock en) rq i srv)"
    if "rq_Path rq = quote_path (dp_uuid E) i" "rq_Method rq = ''GET''"
    unfolding serve_mux_def that(1) quote_path_def mux_quote option.case serve_endpoint.simps
    by (simp add: quoteByIDHandler_def that quote_path_def get i Let_def outcome_def split: prod.split)
  moreover have "serve_mux E en w rq srv = outcome (refreshQuote E (en_clock en) (en_ids en) rq i srv)"
    if "rq_Path rq = quote_path (dp_uuid E) i @ ''/refresh''" "rq_Method rq = ''POST''"
    unfolding serve_mux_def that(1) quote_path_def append_assoc mux_quote option.case serve_endpoint.simps
    by (simp add: quoteByIDHandler_def that quote_path_def refresh i Let_def)
  moreover have "serve_mux E en w rq srv = outcome (claimQuote E (en_clock en) rq i claimedBy srv)"
    if "rq_Path rq = ''/internal/v1/quotes/'' @ ?i @ ''/claim''" "rq_Method rq = ''POST''"
      "Option.bind (rq_first rq) decode_claimedBy = Some claimedBy" "TrimSpace claimedBy \<noteq> []"
    unfolding serve_mux_def that(1) mux_internal option.case serve_endpoint.simps
    using that(3,4) by (simp add: internal_claim [OF claim [OF that(1,2)]])
  ultimately show ?thesis by blast
qed


section \<open>Bulk requests\<close>

text \<open>What the result of an item says of the item and of the rows before and after the request.\<close>

fun item_result ::
    "'d decimal_ops \<Rightarrow> 'd Store \<Rightarrow> 'd Store \<Rightarrow> quoteRequest \<Rightarrow> (string + 'd Quote) \<Rightarrow> bool" where
  "item_result D st st' it (Inl code) =
     (code = (case validateRequest D it of Some e \<Rightarrow> ae_Code e | None \<Rightarrow> ae_Code errSpotUnavailable))"
| "item_result D st st' it (Inr q) =
     (validateRequest D it = None \<and> request_of_quote q = it \<and> q_Status q = StatusOpen \<and>
      GetQuote st (q_QuoteID q) = None \<and> GetQuote st' (q_QuoteID q) = Some q)"

fun issued_ids :: "(string + 'd Quote) list \<Rightarrow> uuid list" where
  "issued_ids [] = []"
| "issued_ids (Inl code # rs) = issued_ids rs"
| "issued_ids (Inr q # rs) = q_QuoteID q # issued_ids rs"

lemma createQuote_ok:
  assumes "createQuote E ck i req srv = (Some (Inr q), srv1)"
  shows "q_QuoteID q = i \<and> request_of_quote q = req \<and> q_Status q = StatusOpen \<and>
    GetQuote (sh_store srv1) i = Some q"
  using assms
  by (cases rule: createQuote_cases [where E = E and ck = ck and req = req and srv = srv and i = i])
    (auto simp: issue_quote_simps)

lemma item_result_earlier:
  assumes "item_result D st1 st' it r" and "\<And>j. GetQuote st1 j = None \<Longrightarrow> GetQuote st j = None"
  shows "item_result D st st' it r"
  using assms by (cases r) auto

definition bulk_effect ::
    "'d decimal_ops \<Rightarrow> id_source \<Rightarrow> 'd Store \<Rightarrow> 'd Store \<Rightarrow> quoteRequest list \<Rightarrow> (string + 'd Quote) list \<Rightarrow> bool" where
  "bulk_effect D ids st st' its rs \<longleftrightarrow>
     list_all2 (item_result D st st') its rs \<and> distinct (issued_ids rs) \<and> set (issued_ids rs) \<subseteq> ids ` {..<length its} \<and>
     (\<forall>j. GetQuote st' j = GetQuote st j \<or> (GetQuote st j = None \<and> j \<in> set (issued_ids rs)))"

lemma bulk_effect_issued:
  assumes eff: "bulk_effect D (later_ids 1 ids) st1 st' its rs" and inj: "inj_on ids {..<Suc (length its)}"
    and q: "q_QuoteID q = ids 0" "request_of_quote q = it" "q_Status q = StatusOpen" "validateRequest D it = None"
    and none: "GetQuote st (ids 0) = None" and some: "GetQuote st1 (ids 0) = Some q"
    and other: "\<And>j. j \<noteq> ids 0 \<Longrightarrow> GetQuote st1 j = GetQuote st j"
  shows "bulk_effect D ids st st' (it # its) (Inr q # rs)"
proof -
  have "later_ids 1 ids k \<noteq> ids 0" if "k < length its" for k
    using inj_on_eq_iff [OF inj, of "Suc k" 0] that by (simp add: later_ids_def)
  then have "later_ids 1 ids ` {..<length its} \<subseteq> ids ` {..<length (it # its)} - {ids 0}"
    by (force simp: later_ids_def)
  with eff have new: "ids 0 \<notin> set (issued_ids rs)" and sub: "set (issued_ids rs) \<subseteq> ids ` {..<length (it # its)}"
    unfolding bulk_effect_def by blast+
  have rows: "GetQuote st' j = GetQuote st1 j \<or> (GetQuote st1 j = None \<and> j \<in> set (issued_ids rs))" for j
    using eff by (simp add: bulk_effect_def)
  have kept: "GetQuote st' (ids 0) = Some q" using rows [of "ids 0"] new some by simp
  have "GetQuote st j = None" if "GetQuote st1 j = None" for j
    using other [of j] some that by (cases "j = ids 0") simp_all
  then have "list_all2 (item_result D st st') its rs"
    using eff unfolding bulk_effect_def by (blast intro: list_all2_mono item_result_earlier)
  moreover have "GetQuote st' j = GetQuote st j \<or> (GetQuote st j = None \<and> j \<in> set (issued_ids (Inr q # rs)))" for j
    using rows [of j] other [of j] none q(1) by (cases "j = ids 0") auto
  ultimately show ?thesis
    using eff new sub q none kept by (auto simp: bulk_effect_def)
qed

lemma bulk_effect_refused:
  "bulk_effect D ids st st' its rs \<Longrightarrow> item_result D st st' it (Inl code) \<Longrightarrow> bulk_effect D ids st st' (it # its) (Inl code # rs)"
  by (auto simp: bulk_effect_def)

lemma bulk_items_effect:
  assumes "fresh_ids (length its) srv ids" and "bulk_items E ck ids its srv = (Some rs, srv')"
  shows "bulk_effect (dp_decimal E) ids (sh_store srv) (sh_store srv') its rs"
  using assms
proof (induction its arbitrary: ck ids srv rs)
  case Nil
  then show ?case by (simp add: bulk_effect_def)
next
  case (Cons it its)
  note fresh = Cons.prems(1)
  have fewer: "fresh_ids (length its) srv ids" by (rule fresh_ids_mono [OF fresh]) simp
  obtain r srv1 where c: "createQuote E ck (ids 0) it srv = (r, srv1)" by fastforce
  consider (invalid) e where "validateRequest (dp_decimal E) it = Some e"
    | (panic) "validateRequest (dp_decimal E) it = None" "r = None"
    | (spot) e where "validateRequest (dp_decimal E) it = None" "r = Some (Inl e)"
    | (issued) q where "validateRequest (dp_decimal E) it = None" "r = Some (Inr q)"
    by (cases "validateRequest (dp_decimal E) it"; cases r) (auto, metis sum.exhaust)
  then show ?case
  proof cases
    case invalid
    with Cons.prems(2) Cons.IH [OF fewer] show ?thesis by (auto intro!: bulk_effect_refused split: prod.splits)
  next
    case panic
    with Cons.prems(2) c show ?thesis by simp
  next
    case spot
    with c have st: "sh_store srv1 = sh_store srv" "e = errSpotUnavailable"
      using createQuote_failed_rows by blast+
    moreover from this fewer have "fresh_ids (length its) srv1 ids" by (simp add: fresh_ids_def)
    ultimately show ?thesis
      using Cons.prems(2) Cons.IH [of srv1 ids] c spot by (auto intro!: bulk_effect_refused split: prod.splits)
  next
    case issued
    have "fresh_ids (length its) srv1 (later_ids 1 ids)"
      using fresh_ids_later [of "length its" srv ids E ck it] fresh by (simp add: c)
    with Cons.prems(2) c issued obtain rs'
      where "bulk_effect (dp_decimal E) (later_ids 1 ids) (sh_store srv1) (sh_store srv') its rs'" "rs = Inr q # rs'"
      using Cons.IH by (fastforce split: prod.splits)
    with createQuote_ok [of E ck "ids 0" it srv q srv1] createQuote_other_rows [of _ "ids 0" E ck it srv]
      c issued fresh show ?thesis
      by (auto intro!: bulk_effect_issued simp: fresh_ids_def)
  qed
qed

text \<open>
  (C14) A bulk request treats its items one by one: the results stand in the order of the items, each is
  the error code of the item or a new open quote with the item's terms that is stored as it is
  returned, the new quotes have distinct identifiers, and no other row changes.
\<close>

theorem bulk_isolates_items:
  assumes "fresh_ids (length its) srv ids" and "bulk_items E ck ids its srv = (Some rs, srv')"
  shows "list_all2 (item_result (dp_decimal E) (sh_store srv) (sh_store srv')) its rs \<and>
    distinct (issued_ids rs) \<and>
    (\<forall>j. GetQuote (sh_store srv') j = GetQuote (sh_store srv) j \<or>
       (GetQuote (sh_store srv) j = None \<and> j \<in> set (issued_ids rs)))"
  using bulk_items_effect [OF assms] by (simp add: bulk_effect_def)


section \<open>Concrete instances\<close>

definition ex_env :: "time \<Rightarrow> dec10 request_env" where
  "ex_env t = \<lparr>en_clock = ex_clock t, en_ids = ex_ids, en_iter = rev, en_sources = rev,
     en_handshake = \<lparr>hs_hijack_ok = True, hs_write_ok = True, hs_buffered = 0\<rparr>, en_subscriber = 1, en_request = 5, en_elapsed = 5\<rparr>"

definition ex_claim_rq :: http_request where
  "ex_claim_rq = ex_post\<lparr>rq_Path := ''/internal/v1/quotes/'' @ uString uuid_hex 7 @ ''/claim'',
     rq_first := Some (JObj [(''claimed_by'', JStr ''svc'')])\<rparr>"

definition ex_subscribe_rq :: http_request where
  "ex_subscribe_rq = ex_post\<lparr>rq_Method := ''GET'', rq_Path := ''/v1/rates/subscribe'', rq_Upgrade := ''WebSocket'',
     rq_WebSocketKey := ''dGhlIHNhbXBsZSBub25jZQ==''\<rparr>"

lemma ex_fresh:
  assumes "n < 100" and "\<And>i. GetQuote (sh_store srv) i \<noteq> None \<Longrightarrow> i = 7"
  shows "fresh_ids n srv ex_ids"
proof -
  have small: "unat (word_of_nat m :: uuid) = m" if "m < 200" for m
    using that by (simp add: unsigned_of_nat take_bit_nat_eq_self)
  then have un: "unat (ex_ids k) = 100 + k" if "k < n" for k
    using that assms(1) small [of "100 + k"] by (simp only: ex_ids_def)
  have "inj_on ex_ids {..<n}"
  proof (rule inj_onI)
    fix j k
    assume "j \<in> {..<n}" "k \<in> {..<n}" "ex_ids j = ex_ids k"
    with un [of j] un [of k] have "100 + j = 100 + k" by (metis lessThan_iff)
    then show "j = k" by simp
  qed
  moreover have "ex_ids k \<noteq> 7" if "k < n" for k
  proof
    assume "ex_ids k = 7"
    with un [OF that] have "unat (7 :: uuid) = 100 + k" by (simp only:)
    then show False by simp
  qed
  ultimately show ?thesis using assms(2) unfolding fresh_ids_def by blast
qed

lemma serve_claim_answered:
  assumes rq: "claim_request (dp_uuid E) i rq" and body: "Option.bind (rq_first rq) decode_claimedBy = Some by" "TrimSpace by \<noteq> []"
    and c: "Claim E (en_clock en) (srv_claim srv) i by srv = (Some res, srv1)" "cl_Reason res = [] \<Longrightarrow> cl_Quote res \<noteq> None"
  shows "\<exists>rp m. serve_http E en rq srv = (Answered rp, srv1\<lparr>sh_metrics := m\<rparr>) \<and> (cl_Reason res = [] \<longrightarrow> rp_Status rp = 200)"
proof -
  let ?rq = "requestIDMiddleware (dp_uuid E) (en_request en) rq"
  have rq': "claim_request (dp_uuid E) i ?rq" using rq by (simp add: claim_request_def)
  obtain s where path: "rq_Path ?rq = ''/internal/v1/quotes/'' @ s"
    using rq by (auto simp: claim_request_def)
  have "serve_mux E en w ?rq srv = outcome (claimQuote E (en_clock en) ?rq i by srv)" for w
    unfolding serve_mux_def path mux_internal using body by (simp add: internal_claim [OF rq'])
  moreover obtain rp r where "claimQuote E (en_clock en) ?rq i by srv = (Some rp, count_claim r srv1)"
    and "cl_Reason res = [] \<longrightarrow> rp_Status rp = 200"
    using c by (cases "cl_Reason res = []") (auto simp: claimQuote_def claim_response_def)
  ultimately show ?thesis
    by (simp add: serve_http_def metricsMiddleware_def count_claim_def) blast
qed

lemma ex_claim_request: "claim_request (dp_uuid ex_deps) 7 ex_claim_rq"
  using uuid_laws.String_chars [OF ex_uuid, of 7] uuid_laws.String_length [OF ex_uuid, of 7]
    uuid_laws.Parse_String [OF ex_uuid, of 7]
  unfolding claim_request_def ex_claim_rq_def by (intro conjI exI [of _ "uString uuid_hex 7"]) (auto simp: ex_post_def)

lemma ex_claim_body: "Option.bind (rq_first ex_claim_rq) decode_claimedBy = Some ''svc''" "TrimSpace ''svc'' \<noteq> []"
proof -
  have "rq_first ex_claim_rq = Some (JObj [(''claimed_by'', JStr ''svc'')])" by (simp add: ex_claim_rq_def)
  moreover have "decode_claimedBy (JObj [(''claimed_by'', JStr ''svc'')]) = Some ''svc''" by code_simp
  ultimately show "Option.bind (rq_first ex_claim_rq) decode_claimedBy = Some ''svc''" by simp
  have "graph_ascii ''svc''" by code_simp
  then show "TrimSpace ''svc'' \<noteq> []" by (simp add: TrimSpace_graph)
qed

theorem http_claimed_at_most_once_witness:
  "\<exists>rp srv1 rp'. serve_http ex_deps (ex_env 100) ex_claim_rq ex_one = (Answered rp, srv1) \<and> rp_Status rp = 200 \<and>
     fst (serve_http ex_deps (ex_env 200) ex_claim_rq srv1) = Answered rp' \<and> rp_Status rp' \<noteq> 200"
proof -
  have ck: "en_clock (ex_env t) = ex_clock t" for t by (simp add: ex_env_def)
  have svc: "srv_claim ex_one = NewClaimService 150"
    by (simp add: ex_one_def ex_server_def NewServer_def DefaultConfig_def Let_def split: prod.split)
  have D: "decimal_laws (dp_decimal ex_deps) dec10_val" by (simp add: dec10.decimal_laws_axioms)
  have "map_option cl_Reason (fst (Claim ex_deps (ex_clock 100) (NewClaimService 150) 7 ''svc'' ex_one)) = Some []"
    by code_simp
  then obtain res s1 where c: "Claim ex_deps (ex_clock 100) (srv_claim ex_one) 7 ''svc'' ex_one = (Some res, s1)"
    and reason: "cl_Reason res = []"
    by (cases "Claim ex_deps (ex_clock 100) (NewClaimService 150) 7 ''svc'' ex_one") (auto simp: svc)
  with Claim_outcome [OF D ex_backend shared_invD(2) [OF ex_one_inv], of "ex_clock 100" "srv_claim ex_one" 7 "''svc''"]
  have res: "cl_Reason res = []" "cl_Quote res \<noteq> None"
    by (auto simp: ex_one_quote)
  obtain rp m where first: "serve_http ex_deps (ex_env 100) ex_claim_rq ex_one = (Answered rp, s1\<lparr>sh_metrics := m\<rparr>)"
      "rp_Status rp = 200"
    using serve_claim_answered [OF ex_claim_request ex_claim_body, of "ex_env 100" ex_one] c res by (auto simp: ck)
  let ?srv1 = "s1\<lparr>sh_metrics := m\<rparr>"
  obtain q where "GetQuote (sh_store ?srv1) 7 = Some q" "q_Status q = StatusClaimed"
    using Claim_success_row [OF c res(1)] by auto
  then have "Claim ex_deps (en_clock (ex_env 200)) (srv_claim ?srv1) 7 ''svc'' ?srv1 =
      (Some (claim_rejected ''already_claimed'' (Some q)), ?srv1)"
    using Claim_row [of ?srv1 7 q ex_deps "en_clock (ex_env 200)"] by simp
  from serve_claim_answered [OF ex_claim_request ex_claim_body this] obtain rp' srv3
    where second: "serve_http ex_deps (ex_env 200) ex_claim_rq ?srv1 = (Answered rp', srv3)" by auto
  have "hook_ok (dp_poll ex_deps)" by simp
  from http_claimed_at_most_once [OF ex_states this ex_one_inv ex_claim_request ex_claim_request first
      rtranclp.rtrancl_refl second] first second
  show ?thesis by auto
qed


lemma ex_elapsed: "en_elapsed (ex_env t) = 5"
  by (simp add: ex_env_def)

theorem subscribe_never_upgrades_witness:
  "snd (serve_http ex_deps (ex_env 0) ex_subscribe_rq ex_one) =
     ex_one\<lparr>sh_metrics := record_request ''/v1/rates/subscribe'' 200 5 (sh_metrics ex_one)\<rparr> \<and>
   fst (serve_mux ex_deps (ex_env 0) NetWriter ex_subscribe_rq ex_one) =
     Upgraded (handshake_response ''dGhlIHNhbXBsZSBub25jZQ=='')"
proof -
  have rq: "rq_Path ex_subscribe_rq = ''/v1/rates/subscribe''" "rq_Method ex_subscribe_rq = ''GET''"
    "ToLower (rq_Upgrade ex_subscribe_rq) = ''websocket''"
    by (code_simp; simp)+
  have key: "rq_WebSocketKey ex_subscribe_rq = ''dGhlIHNhbXBsZSBub25jZQ==''" by (simp add: ex_subscribe_rq_def)
  have "hijackAndUpgrade NetWriter (en_handshake (ex_env 0)) ex_subscribe_rq =
      Hijacked (handshake_response ''dGhlIHNhbXBsZSBub25jZQ=='')"
    by (simp add: hijackAndUpgrade_def key ex_env_def Let_def)
  with subscribe_never_upgrades [OF rq, of ex_deps "ex_env 0" ex_one] show ?thesis by (simp add: ex_elapsed)
qed


theorem bulk_isolates_items_witness:
  "\<exists>rs srv'. bulk_items ex_deps (ex_clock 10) ex_ids [ex_request, ex_request\<lparr>req_Side := ''HOLD''\<rparr>] ex_server =
       (Some rs, srv') \<and> length rs = 2 \<and> length (issued_ids rs) = 1 \<and> distinct (issued_ids rs)"
proof -
  let ?its = "[ex_request, ex_request\<lparr>req_Side := ''HOLD''\<rparr>]"
  have v: "validateRequest (dp_decimal ex_deps) ex_request = None"
    "validateRequest (dp_decimal ex_deps) (ex_request\<lparr>req_Side := ''HOLD''\<rparr>) \<noteq> None"
    by code_simp+
  obtain res where "fst (compute_price ex_deps (ex_clock 10) ex_request ex_server) = Some (Inr res)"
    using ex_compute by blast
  then obtain q srv1 where c: "createQuote ex_deps (ex_clock 10) (ex_ids 0) ex_request ex_server = (Some (Inr q), srv1)"
    by (cases rule: createQuote_cases [where E = ex_deps and ck = "ex_clock 10" and req = ex_request
          and srv = ex_server and i = "ex_ids 0"]) auto
  with v obtain code where b: "bulk_items ex_deps (ex_clock 10) ex_ids ?its ex_server = (Some [Inr q, Inl code], srv1)"
    by auto
  have "fresh_ids (length ?its) ex_server ex_ids" by (rule ex_fresh) simp_all
  from bulk_isolates_items [OF this b] b show ?thesis by auto
qed

end
