(* ===== verification/Wire.thy ===== *)
theory Wire
  imports Server_Http Json_Text
begin

text \<open>
  The server on text: requests as the HTTP library hands them over, with their bodies as the bytes that are
  read, and responses as the bytes that are written. What the other theories say of JSON values is carried
  over to the texts that stand for them.
\<close>

section \<open>Requests and responses as text\<close>

text \<open>
  A request with its header fields and query parameters by name (the empty string where there is none), the
  bytes of the calls that read its body, and the error that ends it.
\<close>

record raw_request =
  rw_Method :: string
  rw_Path :: string
  rw_Header :: "string \<Rightarrow> string"
  rw_Query :: "string \<Rightarrow> string"
  rw_chunks :: "string list"
  rw_end :: string

definition body_reads :: "raw_request \<Rightarrow> (string \<times> string option) list" where
  "body_reads raw = map (\<lambda>chunk. (chunk, None)) (rw_chunks raw) @ [([], Some (rw_end raw))]"

definition request_of_raw :: "raw_request \<Rightarrow> http_request" where
  "request_of_raw raw =
     \<lparr>rq_Method = rw_Method raw, rq_Path = rw_Path raw,
      rq_RequestID = rw_Header raw ''X-Request-ID'', rq_QueryID = rw_Query raw ''request_id'',
      rq_Upgrade = rw_Header raw ''Upgrade'', rq_WebSocketKey = rw_Header raw ''Sec-WebSocket-Key'',
      rq_read_ok = (case readBody (body_reads raw) [] of Some (Inr b) \<Rightarrow> True | _ \<Rightarrow> False),
      rq_body = (case readBody (body_reads raw) [] of Some (Inr b) \<Rightarrow> json_document b | _ \<Rightarrow> None),
      rq_first = decoder_first (concat (rw_chunks raw)) (rw_end raw)\<rparr>"

text \<open>An \<open>Encoder\<close> ends its text with a newline.\<close>

definition response_text :: "(rat \<Rightarrow> string) \<Rightarrow> http_outcome \<Rightarrow> string option" where
  "response_text fl out =
     (case out of Answered rp \<Rightarrow> map_option (\<lambda>j. json_text fl j @ [CHR 0x0A]) (rp_Body rp) | _ \<Rightarrow> None)"

definition serve_wire ::
    "(rat \<Rightarrow> string) \<Rightarrow> ('d, 'l) deps \<Rightarrow> 'd request_env \<Rightarrow> raw_request \<Rightarrow> ('d, 'l) Server \<Rightarrow>
     (http_outcome \<times> string option) \<times> ('d, 'l) Server" where
  "serve_wire fl E en raw srv =
     (case serve_http E en (request_of_raw raw) srv of (out, srv') \<Rightarrow> ((out, response_text fl out), srv'))"

section \<open>Every response reads back\<close>

definition shallow :: "http_response \<Rightarrow> bool" where
  "shallow rp \<longleftrightarrow> (\<forall>j. rp_Body rp = Some j \<longrightarrow> json_within 4 j)"

definition shallow_outcome :: "http_outcome \<Rightarrow> bool" where
  "shallow_outcome out \<longleftrightarrow> (\<forall>rp. out = Answered rp \<longrightarrow> shallow rp)"

lemma json_within_map: "json_within m (json_of_map kvs) \<longleftrightarrow> 0 < m \<and> (\<forall>(k, j) \<in> set kvs. json_within (m - 1) j)"
  by (simp add: json_of_map_def list_all_iff)

lemma json_within_toResponse: "(k, j) \<in> set (toResponse U q) \<Longrightarrow> json_within m j"
  by (auto simp: toResponse_def split: option.splits if_splits)

lemma shallow_respond [simp]: "shallow (respond status j) \<longleftrightarrow> json_within 4 j"
  by (simp add: shallow_def respond_def)

lemma shallow_error [simp]: "shallow (writeError rq status code message)" "shallow (writeErrorApp rq e)"
  "shallow (method_not_allowed rq)"
  by (simp_all add: method_not_allowed_def writeErrorApp_def writeError_def json_within_map)

lemma shallow_quote [simp]: "json_within 4 (json_of_map (toResponse U q))"
  using json_within_toResponse by (fastforce simp: json_within_map)

lemma shallow_empty: "shallow empty_response"
  by (simp add: shallow_def empty_response_def)

lemma shallow_outcome_simps [simp]:
  "shallow_outcome (Answered rp) \<longleftrightarrow> shallow rp" "shallow_outcome (Upgraded resp)"
  "shallow_outcome Closed" "shallow_outcome Aborted"
  by (simp_all add: shallow_outcome_def)

definition shallow_result :: "http_response option \<times> 's \<Rightarrow> bool" where
  "shallow_result r \<longleftrightarrow> (\<forall>rp. fst r = Some rp \<longrightarrow> shallow rp)"

lemma shallow_result_simps [simp]: "shallow_result (None, s)" "shallow_result (Some rp, s) \<longleftrightarrow> shallow rp"
  by (simp_all add: shallow_result_def)

lemma shallow_outcome_result: "shallow_outcome (fst (outcome r)) \<longleftrightarrow> shallow_result r"
  by (auto simp: outcome_def shallow_result_def split: prod.split option.split)

lemma item_json_within: "json_within 2 (item_json U r)"
  using json_within_toResponse by (fastforce simp: item_json_def quote_json_def list_all_iff split: sum.split)

lemma shallow_create: "shallow_result (singleQuote E ck ids rq srv)" "shallow_result (bulkQuotes E ck ids rq srv)"
proof -
  show "shallow_result (singleQuote E ck ids rq srv)"
    by (simp add: singleQuote_def split: option.split prod.split sum.split)
  have "shallow (respond 201 (json_of_map [(''items'', JArr (map (item_json (dp_uuid E)) rs))]))" for rs
    by (simp add: json_within_map list_all_iff item_json_within)
  then show "shallow_result (bulkQuotes E ck ids rq srv)"
    by (auto simp: bulkQuotes_def shallow_result_def split: option.split prod.split)
qed

lemma shallow_lists: "shallow (listQuotes E iter srv)" "shallow (auditEventsHandler E rq srv)"
  "shallow (feeSchedulesHandler E rq srv)" "shallow (rateSourcesHandler it rq srv)"
proof -
  show "shallow (listQuotes E iter srv)"
    using json_within_toResponse by (fastforce simp: listQuotes_def json_within_map list_all_iff)
  show "shallow (auditEventsHandler E rq srv)"
    by (simp add: auditEventsHandler_def event_json_def json_within_map list_all_iff)
  show "shallow (feeSchedulesHandler E rq srv)"
    by (simp add: feeSchedulesHandler_def json_within_map list_all_iff)
  show "shallow (rateSourcesHandler it rq srv)"
    by (simp add: rateSourcesHandler_def json_within_map list_all_iff)
qed

lemma shallow_by_id: "shallow_result (refreshQuote E ck ids rq i srv)" "shallow (fst (getQuote E ck rq i srv))"
  "shallow_result (claimQuote E ck rq i u srv)"
proof -
  show "shallow_result (refreshQuote E ck ids rq i srv)"
    by (simp add: refreshQuote_def split: option.split prod.split sum.split)
  show "shallow (fst (getQuote E ck rq i srv))"
    by (simp add: getQuote_def split: option.split)
  show "shallow_result (claimQuote E ck rq i u srv)"
    by (auto simp: claimQuote_def claim_response_def shallow_result_def split: option.split prod.split)
qed

lemma shallow_endpoint: "shallow_outcome (fst (serve_endpoint E en ep w rq srv))"
proof (cases ep)
  case EpQuotes
  then show ?thesis
    using shallow_create shallow_lists by (auto simp: shallow_outcome_result quotesHandler_def split: option.split)
next
  case EpQuoteByID
  then show ?thesis
    by (simp add: shallow_outcome_result quoteByIDHandler_def Let_def split_def shallow_by_id split: option.split)
next
  case EpInternalQuote
  then show ?thesis
    using shallow_by_id by (auto simp: shallow_outcome_result internalQuoteHandler_def Let_def split: option.split)
next
  case EpSubscribe
  then show ?thesis by (simp add: ratesSubscribe_def shallow_empty split: prod.split hijack_result.split)
next
  case EpReload
  then show ?thesis by (auto simp: feeSchedulesReload_def json_within_map Let_def split: prod.split)
next
  case EpReadyz
  then show ?thesis by (simp add: readyz_def json_within_map)
qed (simp_all add: healthz_def json_within_map shallow_lists shallow_empty)

lemma shallow_serve: "shallow_outcome (fst (serve_http E en rq srv))"
proof -
  have "shallow_outcome (fst (serve_mux E en w rq srv))" for w rq
    using shallow_endpoint by (auto simp: serve_mux_def shallow_def split: option.split)
  from this [of "StatusRecorder NetWriter" "requestIDMiddleware (dp_uuid E) (en_request en) rq"] show ?thesis
    by (auto simp: serve_http_def metricsMiddleware_def split: prod.split http_outcome.split)
qed

lemma response_reads_back:
  assumes "serve_wire fl E en raw srv = ((Answered rp, txt), srv')"
  shows "txt = map_option (\<lambda>j. json_text fl j @ [CHR 0x0A]) (rp_Body rp)"
    and "Option.bind txt json_document = map_option sanitize_json (rp_Body rp)"
proof -
  from assms have "serve_http E en (request_of_raw raw) srv = (Answered rp, srv')"
    and t: "txt = map_option (\<lambda>j. json_text fl j @ [CHR 0x0A]) (rp_Body rp)"
    by (auto simp: serve_wire_def response_text_def split: prod.splits)
  then have "shallow rp" using shallow_serve [of E en "request_of_raw raw" srv] by simp
  then have "json_within max_depth j" if "rp_Body rp = Some j" for j
    using that json_within_mono [of 4 j max_depth] by (simp add: shallow_def max_depth_def)
  with t show "Option.bind txt json_document = map_option sanitize_json (rp_Body rp)"
    using json_document_text(2) by (cases "rp_Body rp") auto
  show "txt = map_option (\<lambda>j. json_text fl j @ [CHR 0x0A]) (rp_Body rp)" by (rule t)
qed


section \<open>A quote on the wire\<close>

text \<open>What a client marshals: a \<open>quoteRequest\<close> and a \<open>ClaimRequest\<close>.\<close>

definition request_json :: "quoteRequest \<Rightarrow> json" where
  "request_json req =
     JObj [(''from'', JStr (req_From req)), (''to'', JStr (req_To req)), (''amount'', JStr (req_Amount req)),
           (''user_tier'', JStr (req_UserTier req)), (''side'', JStr (req_Side req))]"

definition claim_json :: "string \<Rightarrow> json" where
  "claim_json claimedBy = JObj [(''claimed_by'', JStr claimedBy)]"

definition sanitize_request :: "quoteRequest \<Rightarrow> quoteRequest" where
  "sanitize_request req =
     \<lparr>req_From = sanitize (req_From req), req_To = sanitize (req_To req), req_Amount = sanitize (req_Amount req),
      req_UserTier = sanitize (req_UserTier req), req_Side = sanitize (req_Side req)\<rparr>"

definition has_body :: "raw_request \<Rightarrow> string \<Rightarrow> bool" where
  "has_body raw b \<longleftrightarrow> concat (rw_chunks raw) = b \<and> rw_end raw = ''EOF''"

lemma request_of_text:
  assumes "has_body raw (json_text fl j)" and "json_within max_depth j"
  shows "rq_read_ok (request_of_raw raw)" and "rq_body (request_of_raw raw) = Some (sanitize_json j)"
    and "rq_first (request_of_raw raw) = Some (sanitize_json j)"
  using assms json_document_text [OF assms(2), of fl]
  by (simp_all add: request_of_raw_def body_reads_def readBody_whole has_body_def)

lemma request_of_raw_simps [simp]:
  "rq_Method (request_of_raw raw) = rw_Method raw" "rq_Path (request_of_raw raw) = rw_Path raw"
  by (simp_all add: request_of_raw_def)

lemma plain_keys: "plain_key ''from''" "plain_key ''to''" "plain_key ''amount''" "plain_key ''user_tier''" "plain_key ''side''"
  "plain_key ''claimed_by''"
  by code_simp+

lemmas request_fields = plain_keys [THEN is_field_plain]
lemmas sanitize_names = plain_keys [THEN sanitize_plain]

lemma decode_request: "decode_quoteRequest (sanitize_json (request_json req)) = Some (sanitize_request req)"
  by (simp add: request_json_def sanitize_names decode_quoteRequest_def decode_struct_def quoteRequest_field_def request_fields
      decode_string_def empty_request_def sanitize_request_def)

lemma decode_items_request: "decode_items f z (sanitize_json (request_json req)) = Some None"
  by (simp add: request_json_def sanitize_names decode_items_def decode_struct_def request_fields)

lemma decode_claim: "decode_claimedBy (sanitize_json (claim_json u)) = Some (sanitize u)"
  by (simp add: claim_json_def sanitize_names decode_claimedBy_def decode_struct_def decode_string_def request_fields)

lemma request_json_within: "json_within max_depth (request_json req)" "json_within max_depth (claim_json u)"
  by (simp_all add: request_json_def claim_json_def max_depth_def)

lemma validateRequest_status: "validateRequest D req = Some e \<Longrightarrow> ae_Status e = 400"
proof -
  have loop: "validateCurrency_loop s = Some e \<Longrightarrow> ae_Status e = 400" for s e
    by (induction s) (auto simp: errBadCurrency_def split: if_splits)
  have "validateCurrency s = Some e \<Longrightarrow> ae_Status e = 400" for s e
    using loop by (auto simp: validateCurrency_def errBadCurrency_def split: if_splits)
  then show "validateRequest D req = Some e \<Longrightarrow> ae_Status e = 400"
    by (auto simp: validateRequest_def parseAmount_def validateTier_def validateSide_def errBadAmount_def errBadTier_def
        errBadSide_def split: option.splits if_splits)
qed

text \<open>A single quote that is answered with 201 is a stored one.\<close>

lemma singleQuote_201:
  assumes "Option.bind (rq_body rq) decode_quoteRequest = Some req"
    and "singleQuote E ck ids rq srv = (Some rp, srv')" and "rp_Status rp = 201"
  obtains q where "rp = respond 201 (json_of_map (toResponse (dp_uuid E) q))" "GetQuote (sh_store srv') (ids 0) = Some q"
    "q_QuoteID q = ids 0" "request_of_quote q = req" "q_Status q = StatusOpen"
proof -
  have v: "validateRequest (dp_decimal E) req = None"
    using assms validateRequest_status [of "dp_decimal E" req]
    by (auto simp: singleQuote_def writeErrorApp_def writeError_def respond_def split: option.splits)
  obtain r srv1 where c: "createQuote E ck (ids 0) req srv = (r, srv1)" by fastforce
  with assms v obtain q where "r = Some (Inr q)" "rp = respond 201 (json_of_map (toResponse (dp_uuid E) q))" "srv' = srv1"
    by (auto simp: singleQuote_def writeErrorApp_def writeError_def respond_def errSpotUnavailable_def
        dest!: createQuote_failed_rows split: option.splits sum.splits)
  with that createQuote_ok [of E ck "ids 0" req srv q srv1] c show thesis by simp
qed

lemma serve_http_mux:
  "\<exists>m. serve_http E en rq srv =
     (fst (serve_mux E en (StatusRecorder NetWriter) (requestIDMiddleware (dp_uuid E) (en_request en) rq) srv),
      snd (serve_mux E en (StatusRecorder NetWriter) (requestIDMiddleware (dp_uuid E) (en_request en) rq) srv)
        \<lparr>sh_metrics := m\<rparr>)"
proof -
  let ?mux = "serve_mux E en (StatusRecorder NetWriter) (requestIDMiddleware (dp_uuid E) (en_request en) rq) srv"
  obtain out s where mux: "?mux = (out, s)" by fastforce
  have "\<exists>m. s = s\<lparr>sh_metrics := m\<rparr>" by (rule exI [of _ "sh_metrics s"]) simp
  then show ?thesis unfolding mux fst_conv snd_conv
    by (cases out) (auto simp: serve_http_def metricsMiddleware_def mux)
qed

lemma mux_quotes: "mux_match ''/v1/quotes'' = Some EpQuotes"
  by (simp add: mux_match_def routes_def)

lemma post_quote_mux:
  assumes "rq_Method rq = ''POST''" and "rq_Path rq = ''/v1/quotes''" and "rq_read_ok rq" and "rq_body rq = Some j"
    and "decode_items (\<lambda>j _. Some j) JNull j = Some None"
  shows "serve_mux E en w rq srv = outcome (singleQuote E (en_clock en) (en_ids en) rq srv)"
  unfolding serve_mux_def assms(2) mux_quotes option.case serve_endpoint.simps quotesHandler_def
  using assms by simp

lemma requestID_keeps [simp]:
  "rq_read_ok (requestIDMiddleware U fresh rq) = rq_read_ok rq" "rq_body (requestIDMiddleware U fresh rq) = rq_body rq"
  by (simp_all add: requestIDMiddleware_def)

lemma post_quote_201:
  assumes rq: "rq_Method rq = ''POST''" "rq_Path rq = ''/v1/quotes''" "rq_read_ok rq" "rq_body rq = Some j"
    and j: "decode_items (\<lambda>j _. Some j) JNull j = Some None" "decode_quoteRequest j = Some req"
    and out: "serve_http E en rq srv = (Answered rp, srv')" "rp_Status rp = 201"
  obtains q where "rp = respond 201 (json_of_map (toResponse (dp_uuid E) q))"
    "GetQuote (sh_store srv') (en_ids en 0) = Some q" "q_QuoteID q = en_ids en 0" "request_of_quote q = req"
    "q_Status q = StatusOpen"
proof -
  let ?rq = "requestIDMiddleware (dp_uuid E) (en_request en) rq"
  obtain r srv1 where single: "singleQuote E (en_clock en) (en_ids en) ?rq srv = (r, srv1)" by fastforce
  obtain m where "r = Some rp" "srv' = srv1\<lparr>sh_metrics := m\<rparr>"
    using serve_http_mux [of E en rq srv] out(1) post_quote_mux [of ?rq j E en "StatusRecorder NetWriter" srv] rq j(1)
    by (cases r) (auto simp: single)
  with singleQuote_201 [of ?rq req E "en_clock en" "en_ids en" srv rp srv1] single out(2) j(2) rq(4) that show thesis by auto
qed

lemma post_quote_answered:
  assumes rq: "rq_Method rq = ''POST''" "rq_Path rq = ''/v1/quotes''" "rq_read_ok rq" "rq_body rq = Some j"
    and j: "decode_items (\<lambda>j _. Some j) JNull j = Some None" "decode_quoteRequest j = Some req"
    and ok: "validateRequest (dp_decimal E) req = None" "createQuote E (en_clock en) (en_ids en 0) req srv = (Some (Inr q), srv1)"
  shows "\<exists>m. serve_http E en rq srv = (Answered (respond 201 (json_of_map (toResponse (dp_uuid E) q))), srv1\<lparr>sh_metrics := m\<rparr>)"
proof -
  let ?rq = "requestIDMiddleware (dp_uuid E) (en_request en) rq"
  have "singleQuote E (en_clock en) (en_ids en) ?rq srv =
      (Some (respond 201 (json_of_map (toResponse (dp_uuid E) q))), srv1)"
    using ok rq j(2) by (simp add: singleQuote_def)
  then show ?thesis
    using serve_http_mux [of E en rq srv] post_quote_mux [of ?rq j E en "StatusRecorder NetWriter" srv] rq j(1) by simp
qed

text \<open>
  A body that breaks off with an error, or is no JSON text, is answered with 400, and nothing but the collectors
  changes.
\<close>

lemma unreadable_body_rejected:
  assumes raw: "rw_Method raw = ''POST''" "rw_Path raw = ''/v1/quotes''"
    and bad: "rw_end raw \<noteq> ''EOF'' \<or> json_document (concat (rw_chunks raw)) = None"
  shows "\<exists>rp m. serve_http E en (request_of_raw raw) srv = (Answered rp, srv\<lparr>sh_metrics := m\<rparr>) \<and> rp_Status rp = 400"
proof -
  let ?rq = "requestIDMiddleware (dp_uuid E) (en_request en) (request_of_raw raw)"
  have "\<not> rq_read_ok (request_of_raw raw) \<or> rq_body (request_of_raw raw) = None"
    using bad by (auto simp: request_of_raw_def body_reads_def readBody_whole)
  moreover have "rq_Path ?rq = ''/v1/quotes''" "rq_Method ?rq = ''POST''" using raw by simp_all
  ultimately have "serve_mux E en w ?rq srv = outcome (quotesHandler E (en_clock en) (en_ids en) (en_iter en) ?rq srv)"
    and "\<exists>rp. quotesHandler E (en_clock en) (en_ids en) (en_iter en) ?rq srv = (Some rp, srv) \<and> rp_Status rp = 400" for w
    unfolding serve_mux_def \<open>rq_Path ?rq = ''/v1/quotes''\<close> mux_quotes option.case serve_endpoint.simps
    by (auto simp: quotesHandler_def singleQuote_def writeError_def respond_def)
  then show ?thesis using serve_http_mux [of E en "request_of_raw raw" srv] by auto
qed

lemma response_keys: "distinct (map fst (toResponse U q))" "\<forall>k \<in> fst ` set (toResponse U q). sanitize k = k"
proof -
  have names: "list_all plain_key [''quote_id'', ''from'', ''to'', ''amount'', ''rate'', ''spread_bps'', ''fee'',
      ''fee_currency'', ''total'', ''crypto_amount'', ''user_tier'', ''side'', ''status'', ''source_venue'', ''created_at'',
      ''expires_at'', ''claimed_at'', ''claimed_by'']"
    by code_simp
  then show "\<forall>k \<in> fst ` set (toResponse U q). sanitize k = k"
    by (auto simp: toResponse_def sanitize_plain split: option.splits if_splits)
  show "distinct (map fst (toResponse U q))"
    by (simp add: toResponse_def split: option.split)
qed

lemma uuid_sanitize: "uuid_laws U \<Longrightarrow> sanitize (uString U i) = uString U i"
proof (rule sanitize_ascii)
  assume U: "uuid_laws U"
  have "\<forall>c \<in> set ''0123456789abcdef-''. byte_at c < 128" by code_simp
  with uuid_laws.String_chars [OF U, of i] show "\<forall>c \<in> set (uString U i). byte_at c < 128" by blast
qed

text \<open>Lookup of an open quote before its expiry.\<close>

lemma get_open_quote:
  assumes U: "uuid_laws (dp_uuid E)" and q: "GetQuote (sh_store srv) i = Some q" "q_Status q = StatusOpen" "en_clock en 0 \<le> q_ExpiresAt q"
    and rq: "rq_Method rq = ''GET''" "rq_Path rq = quote_path (dp_uuid E) i"
  shows "fst (serve_http E en rq srv) = Answered (respond 200 (json_of_map (toResponse (dp_uuid E) q)))"
    and "sh_store (snd (serve_http E en rq srv)) = sh_store srv"
proof -
  let ?rq = "requestIDMiddleware (dp_uuid E) (en_request en) rq"
  have "rq_Path ?rq = quote_path (dp_uuid E) i" "rq_Method ?rq = ''GET''" using rq by simp_all
  then have "serve_mux E en (StatusRecorder NetWriter) ?rq srv = apfst Answered (getQuote E (en_clock en) ?rq i srv)"
    using quote_paths_lead_back [OF U, of ?rq i en "StatusRecorder NetWriter" srv] by blast
  moreover have "getQuote E (en_clock en) ?rq i srv = (respond 200 (json_of_map (toResponse (dp_uuid E) q)), srv)"
    using q by (simp add: getQuote_def)
  ultimately show "fst (serve_http E en rq srv) = Answered (respond 200 (json_of_map (toResponse (dp_uuid E) q)))"
    and "sh_store (snd (serve_http E en rq srv)) = sh_store srv"
    using serve_http_mux [of E en rq srv] by auto
qed

text \<open>A claim request with the JSON text of its caller's name is a claim by that caller.\<close>

lemma claim_by_text:
  assumes U: "uuid_laws (dp_uuid E)" and rw: "rw_Method raw = ''POST''"
      "rw_Path raw = ''/internal/v1/quotes/'' @ uString (dp_uuid E) i @ ''/claim''"
    and body: "has_body raw (json_text fl (claim_json u))" and u: "TrimSpace (sanitize u) \<noteq> []"
  shows "fst (serve_http E en (request_of_raw raw) srv) =
    fst (outcome (claimQuote E (en_clock en) (requestIDMiddleware (dp_uuid E) (en_request en) (request_of_raw raw)) i (sanitize u) srv))"
proof -
  let ?rq = "requestIDMiddleware (dp_uuid E) (en_request en) (request_of_raw raw)"
  have "rq_Path ?rq = ''/internal/v1/quotes/'' @ uString (dp_uuid E) i @ ''/claim''" "rq_Method ?rq = ''POST''"
    "Option.bind (rq_first ?rq) decode_claimedBy = Some (sanitize u)"
    using rw request_of_text(3) [OF body request_json_within(2)] decode_claim by simp_all
  then have "serve_mux E en (StatusRecorder NetWriter) ?rq srv = outcome (claimQuote E (en_clock en) ?rq i (sanitize u) srv)"
    using quote_paths_lead_back [OF U, of ?rq i en "StatusRecorder NetWriter" srv "sanitize u"] u by blast
  then show ?thesis using serve_http_mux [of E en "request_of_raw raw" srv] by auto
qed

text \<open>
  (C25) A quote survives the wire: whatever the chunks in which the JSON text of a request arrives, a response
  of 201 is a text that reads back as an object whose members are those of a stored open quote with the
  request's terms, as UTF-8. The \<open>quote_id\<close> read from it leads back: until the quote expires, a \<open>GET\<close> of its
  path is answered with 200 and the same text, and the internal path with a caller's name as JSON is that
  caller's claim of this quote.
\<close>

theorem quote_survives_the_wire:
  assumes U: "uuid_laws (dp_uuid E)"
    and post: "rw_Method raw = ''POST''" "rw_Path raw = ''/v1/quotes''"
    and body: "has_body raw (json_text fl (request_json req))"
    and answer: "serve_wire fl E en raw srv = ((Answered rp, Some txt), srv')" "rp_Status rp = 201"
  shows "\<exists>q kvs s. GetQuote (sh_store srv') (en_ids en 0) = Some q \<and>
    request_of_quote q = sanitize_request req \<and> q_Status q = StatusOpen \<and>
    json_document txt = Some (JObj kvs) \<and>
    (\<forall>k. map_of kvs k = map_option sanitize_json (map_of (toResponse (dp_uuid E) q) k)) \<and>
    map_of kvs ''quote_id'' = Some (JStr s) \<and>
    (\<forall>raw' en'. rw_Method raw' = ''GET'' \<and> rw_Path raw' = ''/v1/quotes/'' @ s \<and> en_clock en' 0 \<le> q_ExpiresAt q \<longrightarrow>
       (\<exists>rp'. fst (serve_wire fl E en' raw' srv') = (Answered rp', Some txt) \<and> rp_Status rp' = 200)) \<and>
    (\<forall>raw' en' u srv''. rw_Method raw' = ''POST'' \<and> rw_Path raw' = ''/internal/v1/quotes/'' @ s @ ''/claim'' \<and>
       has_body raw' (json_text fl (claim_json u)) \<and> TrimSpace (sanitize u) \<noteq> [] \<longrightarrow>
       fst (fst (serve_wire fl E en' raw' srv'')) =
         fst (outcome (claimQuote E (en_clock en') (requestIDMiddleware (dp_uuid E) (en_request en') (request_of_raw raw'))
           (en_ids en 0) (sanitize u) srv'')))"
proof -
  let ?i = "en_ids en 0" and ?U = "dp_uuid E"
  have answered: "serve_http E en (request_of_raw raw) srv = (Answered rp, srv')" and written: "Some txt = response_text fl (Answered rp)"
    using answer(1) by (auto simp: serve_wire_def split: prod.splits)
  obtain q where rp: "rp = respond 201 (json_of_map (toResponse ?U q))" and q: "GetQuote (sh_store srv') ?i = Some q"
    "q_QuoteID q = ?i" "request_of_quote q = sanitize_request req" "q_Status q = StatusOpen"
    by (rule post_quote_201 [OF _ _ request_of_text(1,2) [OF body request_json_within(1)] decode_items_request decode_request answered answer(2)])
      (simp_all add: post)
  obtain kvs where kvs: "sanitize_json (json_of_map (toResponse ?U q)) = JObj kvs"
    "\<And>k. map_of kvs k = map_option sanitize_json (map_of (toResponse ?U q) k)"
    by (rule map_reads_back [OF response_keys]) blast
  have "json_document txt = Some (JObj kvs)"
    using response_reads_back(2) [OF answer(1)] kvs(1) rp by (simp add: respond_def)
  moreover have "map_of kvs ''quote_id'' = Some (JStr (uString ?U ?i))"
    using kvs(2) [of "''quote_id''"] uuid_sanitize [OF U] q(2) by (simp add: toResponse_def)
  moreover have "\<exists>rp'. fst (serve_wire fl E en' raw' srv') = (Answered rp', Some txt) \<and> rp_Status rp' = 200"
    if "rw_Method raw' = ''GET''" "rw_Path raw' = ''/v1/quotes/'' @ uString ?U ?i" "en_clock en' 0 \<le> q_ExpiresAt q" for raw' en'
  proof -
    have "fst (serve_http E en' (request_of_raw raw') srv') = Answered (respond 200 (json_of_map (toResponse ?U q)))"
      using that q by (intro get_open_quote(1) [OF U q(1)]) (simp_all add: quote_path_def)
    then show ?thesis using written by (auto simp: serve_wire_def response_text_def rp respond_def split: prod.split)
  qed
  moreover have "fst (fst (serve_wire fl E en' raw' srv'')) =
      fst (outcome (claimQuote E (en_clock en') (requestIDMiddleware ?U (en_request en') (request_of_raw raw')) ?i (sanitize u) srv''))"
    if "rw_Method raw' = ''POST''" "rw_Path raw' = ''/internal/v1/quotes/'' @ uString ?U ?i @ ''/claim''"
      "has_body raw' (json_text fl (claim_json u))" "TrimSpace (sanitize u) \<noteq> []" for raw' en' u srv''
    using claim_by_text [OF U that, of en' srv''] by (simp add: serve_wire_def split_def)
  ultimately show ?thesis using q kvs(2) by blast
qed

section \<open>A concrete instance\<close>

text \<open>The text of \<open>ex_request\<close>, in two chunks.\<close>

definition ex_raw :: raw_request where
  "ex_raw = \<lparr>rw_Method = ''POST'', rw_Path = ''/v1/quotes'', rw_Header = (\<lambda>_. []), rw_Query = (\<lambda>_. []),
     rw_chunks = (let t = json_text (\<lambda>_. []) (request_json ex_request) in [take 7 t, drop 7 t]), rw_end = ''EOF''\<rparr>"

theorem quote_survives_the_wire_witness:
  "\<exists>rp body srv' q kvs. serve_wire (\<lambda>_. []) ex_deps (ex_env 10) ex_raw ex_server = ((Answered rp, Some body), srv') \<and>
     rp_Status rp = 201 \<and> GetQuote (sh_store srv') (ex_ids 0) = Some q \<and> request_of_quote q = sanitize_request ex_request \<and>
     json_document body = Some (JObj kvs) \<and>
     map_of kvs ''quote_id'' = map_option sanitize_json (map_of (toResponse uuid_hex q) ''quote_id'')"
proof -
  have raw: "has_body ex_raw (json_text (\<lambda>_. []) (request_json ex_request))" "rw_Method ex_raw = ''POST''"
    "rw_Path ex_raw = ''/v1/quotes''"
    by (simp_all add: has_body_def ex_raw_def Let_def)
  note doc = request_of_text [OF raw(1) request_json_within(1)]
  have v: "validateRequest (dp_decimal ex_deps) ex_request = None" and san: "sanitize_request ex_request = ex_request"
    by code_simp+
  have env: "en_clock (ex_env 10) = ex_clock 10" "en_ids (ex_env 10) = ex_ids" by (simp_all add: ex_env_def)
  obtain q srv1 where c: "createQuote ex_deps (ex_clock 10) (ex_ids 0) ex_request ex_server = (Some (Inr q), srv1)"
    using ex_compute
    by (cases rule: createQuote_cases [where E = ex_deps and ck = "ex_clock 10" and req = ex_request
          and srv = ex_server and i = "ex_ids 0"]) auto
  have d: "decode_quoteRequest (sanitize_json (request_json ex_request)) = Some ex_request"
    by (simp add: decode_request san)
  from c v have "\<exists>m. serve_http ex_deps (ex_env 10) (request_of_raw ex_raw) ex_server =
      (Answered (respond 201 (json_of_map (toResponse (dp_uuid ex_deps) q))), srv1\<lparr>sh_metrics := m\<rparr>)"
    by (intro post_quote_answered [OF _ _ doc(1,2) decode_items_request d]) (simp_all add: raw env)
  then obtain rp body srv' where w: "serve_wire (\<lambda>_. []) ex_deps (ex_env 10) ex_raw ex_server = ((Answered rp, Some body), srv')"
    "rp_Status rp = 201"
    by (auto simp: serve_wire_def response_text_def respond_def)
  from quote_survives_the_wire [OF ex_uuid raw(2,3,1) w] w show ?thesis by (auto simp: env)
qed

end
