(* ===== verification/Ws_Session.thy ===== *)
theory Ws_Session
  imports Server_Http
begin

text \<open>
  The life of a WebSocket subscriber in \<open>ratesSubscribeHandler\<close> of \<open>internal/ws.go\<close>: it joins the hub, its
  read loop handles the frames of the client, and it is removed when the loop ends, also by a panic. The
  bytes the client sends are a list; \<open>parse\<close> gives the JSON value of a payload.
\<close>

section \<open>The read loop\<close>

datatype session_end = End_done | End_read frame_error | End_panic

definition session_iteration ::
    "(byte list \<Rightarrow> json option) \<Rightarrow> (nat \<Rightarrow> bool) \<Rightarrow> byte list \<Rightarrow> wsSubscriber \<Rightarrow> metrics \<Rightarrow>
     (session_end + byte list) \<times> wsSubscriber \<times> metrics" where
  "session_iteration parse wr input sub m =
     (if ws_done sub then (Inl End_done, sub, m)
      else case readWSFrame input of
             FramePanic \<Rightarrow> (Inl End_panic, sub, m)
           | FrameError e \<Rightarrow> (Inl (End_read e), sub, m)
           | Frame payload rest \<Rightarrow>
               if payload = [] then (Inr rest, sub, m)
               else (case handle_command wr (parse payload) sub m of (sub', m') \<Rightarrow> (Inr rest, sub', m')))"

text \<open>Every frame that is read takes at least its two header bytes from the input.\<close>

lemma ReadFull_shorter: "ReadFull n r = Some (xs, r') \<Longrightarrow> length r' + n = length r"
  by (auto simp: ReadFull_def split: if_splits)

lemma read_length_shorter: "read_length b r = Some (n, r') \<Longrightarrow> length r' \<le> length r"
  by (auto simp: read_length_def Let_def split: if_splits dest!: ReadFull_shorter)

lemma read_payload_shorter: "read_payload opc mk n r = Frame p r' \<Longrightarrow> length r' \<le> length r"
  by (auto simp: read_payload_def Let_def split: if_splits option.splits prod.splits dest!: ReadFull_shorter)

lemma readWSFrame_shorter: "readWSFrame r = Frame p r' \<Longrightarrow> length r' < length r"
  by (auto simp: readWSFrame_def Let_def split: if_splits option.splits prod.splits
      dest!: ReadFull_shorter read_length_shorter read_payload_shorter)

lemma session_iteration_shorter:
  "session_iteration parse wr input sub m = (Inr rest, sub', m') \<Longrightarrow> length rest < length input"
  by (auto simp: session_iteration_def readWSFrame_shorter split: if_splits frame_result.splits prod.splits)

function session_loop ::
    "(byte list \<Rightarrow> json option) \<Rightarrow> (nat \<Rightarrow> nat \<Rightarrow> bool) \<Rightarrow> nat \<Rightarrow> byte list \<Rightarrow> wsSubscriber \<Rightarrow> metrics \<Rightarrow>
     session_end \<times> wsSubscriber \<times> metrics" where
  "session_loop parse wr k input sub m =
     (case session_iteration parse (wr k) input sub m of
        (Inl e, sub', m') \<Rightarrow> (e, sub', m')
      | (Inr rest, sub', m') \<Rightarrow> session_loop parse wr (Suc k) rest sub' m')"
  by pat_completeness auto

termination
  by (relation "measure (\<lambda>(parse, wr, k, input, sub, m). length input)")
    (auto dest!: session_iteration_shorter [OF sym])

declare session_loop.simps [simp del]

definition serve_session ::
    "(byte list \<Rightarrow> json option) \<Rightarrow> (nat \<Rightarrow> nat \<Rightarrow> bool) \<Rightarrow> byte list \<Rightarrow> nat \<Rightarrow> wsHub \<Rightarrow> metrics \<Rightarrow>
     session_end \<times> wsSubscriber \<times> wsHub \<times> metrics" where
  "serve_session parse wr input p h m =
     (case hub_add p new_subscriber h m of
        (h1, m1) \<Rightarrow>
          (case session_loop parse wr 0 input new_subscriber m1 of
             (e, sub, m2) \<Rightarrow> (e, hub_remove p sub h1 m2)))"

section \<open>Lemmas\<close>

lemma handle_command_frame:
  assumes "handle_command wr payload sub m = (sub', m')"
  shows "ws_done sub' = ws_done sub" and "m_wsActiveConnections m' = m_wsActiveConnections m"
  using assms
  by (auto simp: handle_command_def sendFrame_def Let_def split: option.splits if_splits)

lemma session_loop_frame:
  assumes "session_loop parse wr k input sub m = (e, sub', m')"
  shows "ws_done sub' = ws_done sub \<and> m_wsActiveConnections m' = m_wsActiveConnections m \<and>
    (e = End_done \<longleftrightarrow> ws_done sub)"
  using assms
proof (induction parse wr k input sub m rule: session_loop.induct)
  case (1 parse wr k input sub m)
  obtain r sub1 m1 where it: "session_iteration parse (wr k) input sub m = (r, sub1, m1)"
    by (cases "session_iteration parse (wr k) input sub m") auto
  have frame: "ws_done sub1 = ws_done sub" "m_wsActiveConnections m1 = m_wsActiveConnections m"
    "r = Inl End_done \<longleftrightarrow> ws_done sub"
    using it handle_command_frame
    by (auto simp: session_iteration_def split: if_splits frame_result.splits prod.splits)
  show ?case
  proof (cases r)
    case (Inl e')
    with 1(2) it frame show ?thesis by (simp add: session_loop.simps [of parse wr k])
  next
    case (Inr rest)
    with 1(2) it have "session_loop parse wr (Suc k) rest sub1 m1 = (e, sub', m')"
      by (simp add: session_loop.simps [of parse wr k])
    with 1(1) [OF it [symmetric] Inr refl] frame Inr show ?thesis by auto
  qed
qed

text \<open>
  A session ends, whatever the client sends, and leaves no trace in the hub: the subscriber is closed and
  gone, the others are as before, and the gauge of connections is back at its value.
\<close>

lemma session_leaves_no_trace:
  assumes "map_of (hub_subscribers h) p = None"
    and "serve_session parse wr input p h m = (e, sub, h', m')"
  shows "map_of (hub_subscribers h') = map_of (hub_subscribers h) \<and> ws_done sub \<and>
    m_wsActiveConnections m' = m_wsActiveConnections m \<and> e \<noteq> End_done"
proof -
  let ?h = "h\<lparr>hub_subscribers := AList.update p new_subscriber (hub_subscribers h)\<rparr>"
  let ?m = "m\<lparr>m_wsActiveConnections := m_wsActiveConnections m + 1\<rparr>"
  obtain e1 sub1 m1 where l: "session_loop parse wr 0 input new_subscriber ?m = (e1, sub1, m1)"
    by (cases "session_loop parse wr 0 input new_subscriber ?m") auto
  have f: "m_wsActiveConnections m1 = m_wsActiveConnections m + 1" "e1 \<noteq> End_done"
    using session_loop_frame [OF l] by (simp_all add: new_subscriber_def)
  have "(map_of (hub_subscribers h))(p := None) = map_of (hub_subscribers h)"
    using assms(1) by (simp add: fun_upd_idem)
  with assms l f show ?thesis
    by (auto simp: serve_session_def hub_add_def hub_remove_def wsSubscriber_close_def
        AList.update_conv' AList.delete_conv' split: if_splits)
qed

section \<open>Sessions and fan-outs side by side\<close>

text \<open>
  The handler goroutines of the clients and the calls of \<open>fanout\<close> run concurrently. Their atomic actions are
  the critical sections of the hub's mutex (joining, leaving, the snapshot of a fan-out) and of a
  subscriber's \<open>write\<close> mutex (one command of the client, the look-up of a pair, one frame). A subscriber that
  left the hub is still pointed to by the snapshots taken before; a write to its closed connection fails.
\<close>

datatype fan_thread = Fan (fan_pair: string) (fan_frame: "byte list") (fan_todo: "nat list") (fan_wants: bool)

record ws_world =
  ww_hub :: wsHub
  ww_gone :: "(nat, wsSubscriber) gomap"
  ww_inputs :: "(nat, byte list) gomap"
  ww_fans :: "fan_thread list"
  ww_metrics :: metrics

definition ws_object :: "ws_world \<Rightarrow> nat \<Rightarrow> wsSubscriber option" where
  "ws_object w p =
     (case map_of (hub_subscribers (ww_hub w)) p of None \<Rightarrow> map_of (ww_gone w) p | Some sub \<Rightarrow> Some sub)"

definition ws_put :: "nat \<Rightarrow> wsSubscriber \<Rightarrow> ws_world \<Rightarrow> ws_world" where
  "ws_put p sub w =
     (if map_of (hub_subscribers (ww_hub w)) p = None then w\<lparr>ww_gone := AList.update p sub (ww_gone w)\<rparr>
      else w\<lparr>ww_hub := ww_hub w\<lparr>hub_subscribers := AList.update p sub (hub_subscribers (ww_hub w))\<rparr>\<rparr>)"

text \<open>A client connects; its session serves the next frame or ends.\<close>

definition ws_connect :: "nat \<Rightarrow> byte list \<Rightarrow> ws_world \<Rightarrow> ws_world" where
  "ws_connect p input w =
     (case hub_add p new_subscriber (ww_hub w) (ww_metrics w) of
        (h, m) \<Rightarrow> w\<lparr>ww_hub := h, ww_metrics := m, ww_inputs := AList.update p input (ww_inputs w)\<rparr>)"

definition ws_serve ::
    "(byte list \<Rightarrow> json option) \<Rightarrow> (nat \<Rightarrow> bool) \<Rightarrow> nat \<Rightarrow> byte list \<Rightarrow> wsSubscriber \<Rightarrow> ws_world \<Rightarrow> ws_world" where
  "ws_serve parse wr p input sub w =
     (case session_iteration parse wr input sub (ww_metrics w) of
        (Inr rest, sub', m) \<Rightarrow>
          ws_put p sub' (w\<lparr>ww_metrics := m, ww_inputs := AList.update p rest (ww_inputs w)\<rparr>)
      | (Inl e, sub', m) \<Rightarrow>
          (case hub_remove p sub' (ww_hub w) m of
             (sub'', h, m') \<Rightarrow>
               w\<lparr>ww_hub := h, ww_metrics := m', ww_gone := AList.update p sub'' (ww_gone w),
                 ww_inputs := AList.delete p (ww_inputs w)\<rparr>))"

text \<open>A fan-out takes its snapshot, looks a pair up and writes a frame.\<close>

definition fan_start ::
    "'d decimal_ops \<Rightarrow> (nat list \<Rightarrow> nat list) \<Rightarrow> string \<Rightarrow> 'd Rate \<Rightarrow> ws_world \<Rightarrow> ws_world" where
  "fan_start D iter pair r w =
     w\<lparr>ww_fans := ww_fans w @ [Fan pair (rate_frame D pair r) (iter (map fst (hub_subscribers (ww_hub w)))) False]\<rparr>"

definition fan_look :: "ws_world \<Rightarrow> nat \<Rightarrow> string \<Rightarrow> byte list \<Rightarrow> nat \<Rightarrow> nat list \<Rightarrow> ws_world" where
  "fan_look w i pair frame p ps =
     w\<lparr>ww_fans := (ww_fans w)[i :=
         (case Option.bind (ws_object w p) (\<lambda>sub. map_of (ws_pairs sub) pair) of
            None \<Rightarrow> Fan pair frame ps False
          | Some u \<Rightarrow> Fan pair frame (p # ps) True)]\<rparr>"

definition conn_writes :: "wsSubscriber \<Rightarrow> (nat \<Rightarrow> bool) \<Rightarrow> nat \<Rightarrow> bool" where
  "conn_writes sub wr = (if ws_closed sub then (\<lambda>k. False) else wr)"

definition fan_send ::
    "(nat \<Rightarrow> bool) \<Rightarrow> ws_world \<Rightarrow> nat \<Rightarrow> string \<Rightarrow> byte list \<Rightarrow> nat \<Rightarrow> nat list \<Rightarrow> wsSubscriber \<Rightarrow> ws_world" where
  "fan_send wr w i pair frame p ps sub =
     (case sendFrame (conn_writes sub wr) frame sub (ww_metrics w) of
        (ok, sub', m) \<Rightarrow> ws_put p sub' (w\<lparr>ww_metrics := m, ww_fans := (ww_fans w)[i := Fan pair frame ps False]\<rparr>))"

text \<open>
  A step of the hub. \<open>net\<close> says which outcomes the writes of one frame can have.
\<close>

inductive ws_step ::
    "'d decimal_ops \<Rightarrow> (byte list \<Rightarrow> json option) \<Rightarrow> ((nat \<Rightarrow> bool) \<Rightarrow> bool) \<Rightarrow> ws_world \<Rightarrow> ws_world \<Rightarrow> bool"
  for D :: "'d decimal_ops" and parse :: "byte list \<Rightarrow> json option" and net :: "(nat \<Rightarrow> bool) \<Rightarrow> bool" where
  connect: "ws_object w p = None \<Longrightarrow> ws_step D parse net w (ws_connect p input w)"
| serve: "\<lbrakk>map_of (ww_inputs w) p = Some input; ws_object w p = Some sub; net wr\<rbrakk> \<Longrightarrow>
    ws_step D parse net w (ws_serve parse wr p input sub w)"
| start: "reorders iter \<Longrightarrow> ws_step D parse net w (fan_start D iter pair r w)"
| look: "\<lbrakk>i < length (ww_fans w); ww_fans w ! i = Fan pair frame (p # ps) False\<rbrakk> \<Longrightarrow>
    ws_step D parse net w (fan_look w i pair frame p ps)"
| send: "\<lbrakk>i < length (ww_fans w); ww_fans w ! i = Fan pair frame (p # ps) True; ws_object w p = Some sub; net wr\<rbrakk> \<Longrightarrow>
    ws_step D parse net w (fan_send wr w i pair frame p ps sub)"

definition ws_start :: "metrics \<Rightarrow> ws_world" where
  "ws_start m = \<lparr>ww_hub = newWSHub, ww_gone = [], ww_inputs = [], ww_fans = [], ww_metrics = m\<rparr>"

section \<open>Invariants of the hub\<close>

definition subscriber_open :: "wsSubscriber \<Rightarrow> bool" where
  "subscriber_open sub \<longleftrightarrow> \<not> ws_done sub \<and> \<not> ws_closed sub"

definition subscriber_gone :: "wsSubscriber \<Rightarrow> bool" where
  "subscriber_gone sub \<longleftrightarrow> ws_done sub \<and> ws_closed sub"

definition ws_inv :: "int \<Rightarrow> ws_world \<Rightarrow> bool" where
  "ws_inv n w \<longleftrightarrow>
     wf_map (hub_subscribers (ww_hub w)) \<and>
     m_wsActiveConnections (ww_metrics w) = n + int (length (hub_subscribers (ww_hub w))) \<and>
     (\<forall>p. map_of (ww_inputs w) p = None \<longleftrightarrow> map_of (hub_subscribers (ww_hub w)) p = None) \<and>
     (\<forall>p. map_of (hub_subscribers (ww_hub w)) p = None \<or> map_of (ww_gone w) p = None) \<and>
     (\<forall>p sub. map_of (hub_subscribers (ww_hub w)) p = Some sub \<longrightarrow> subscriber_open sub) \<and>
     (\<forall>p sub. map_of (ww_gone w) p = Some sub \<longrightarrow> subscriber_gone sub)"

lemma ws_invD:
  assumes "ws_inv n w"
  shows "wf_map (hub_subscribers (ww_hub w))"
    and "m_wsActiveConnections (ww_metrics w) = n + int (length (hub_subscribers (ww_hub w)))"
    and "map_of (ww_inputs w) p = None \<longleftrightarrow> map_of (hub_subscribers (ww_hub w)) p = None"
    and "map_of (hub_subscribers (ww_hub w)) p = Some sub \<Longrightarrow> map_of (ww_gone w) p = None"
    and "map_of (hub_subscribers (ww_hub w)) p = Some sub \<Longrightarrow> subscriber_open sub"
    and "map_of (ww_gone w) p = Some sub \<Longrightarrow> subscriber_gone sub"
  using assms unfolding ws_inv_def by (simp_all, metis option.distinct(1))

lemma ws_inv_start: "ws_inv (m_wsActiveConnections m) (ws_start m)"
  by (simp add: ws_inv_def ws_start_def newWSHub_def)

text \<open>What one frame of a client does to its subscriber.\<close>

lemma sendFrame_frame:
  assumes "sendFrame wr payload sub m = (ok, sub', m')"
  shows "ws_done sub' = ws_done sub" and "ws_closed sub' = ws_closed sub"
    and "m_wsActiveConnections m' = m_wsActiveConnections m" and "ws_pairs sub' = ws_pairs sub"
    and "ws_conn sub' = ws_conn sub @ frame_written wr payload"
    and "\<not> wr 0 \<Longrightarrow> sub' = sub"
  using assms by (auto simp: sendFrame_def frame_written_def Let_def split: if_splits)

lemma handle_command_conn:
  assumes "handle_command wr payload sub m = (sub', m')"
  shows "ws_closed sub' = ws_closed sub"
    and "ws_conn sub' = ws_conn sub \<or> ws_conn sub' = ws_conn sub @ frame_written wr pong"
  using assms
  by (auto simp: handle_command_def sendFrame_def frame_written_def Let_def split: option.splits if_splits)

lemma session_iteration_frame:
  assumes "session_iteration parse wr input sub m = (r, sub', m')"
  shows "ws_done sub' = ws_done sub" and "ws_closed sub' = ws_closed sub"
    and "m_wsActiveConnections m' = m_wsActiveConnections m"
    and "ws_conn sub' = ws_conn sub \<or> ws_conn sub' = ws_conn sub @ frame_written wr pong"
  using assms
  by (auto simp: session_iteration_def split: if_splits frame_result.splits prod.splits
      dest: handle_command_frame handle_command_conn)

lemma session_iteration_end:
  "session_iteration parse wr input sub m = (Inl e, sub', m') \<Longrightarrow> sub' = sub \<and> m' = m"
  by (auto simp: session_iteration_def split: if_splits frame_result.splits prod.splits)

lemma length_delete_old:
  "wf_map m \<Longrightarrow> map_of m k = Some v \<Longrightarrow> int (length (AList.delete k m)) = int (length m) - 1"
  by (induction m) (auto simp: wf_map_def)

lemma ws_inv_put_hub:
  assumes "ws_inv n w" and "map_of (hub_subscribers (ww_hub w)) p = Some sub" and "subscriber_open sub'"
  shows "ws_inv n (ws_put p sub' w)"
  using assms ws_invD(4) [OF assms(1, 2)]
  by (auto simp: ws_inv_def ws_put_def length_update_old split: if_splits)

lemma ws_inv_put_gone:
  assumes "ws_inv n w" and "map_of (ww_gone w) p = Some sub" and "subscriber_gone sub'"
  shows "ws_inv n (ws_put p sub' w)"
  using assms
  by (auto simp: ws_inv_def ws_put_def length_update_old split: if_splits)

lemma ws_inv_cong:
  assumes "ws_inv n w" and "ww_hub w' = ww_hub w" and "ww_gone w' = ww_gone w"
    and "\<And>p. map_of (ww_inputs w') p = None \<longleftrightarrow> map_of (ww_inputs w) p = None"
    and "m_wsActiveConnections (ww_metrics w') = m_wsActiveConnections (ww_metrics w)"
  shows "ws_inv n w'"
  using assms by (simp add: ws_inv_def)

lemma ws_inv_connect:
  assumes "ws_inv n w" and "ws_object w p = None"
  shows "ws_inv n (ws_connect p input w)"
  using assms
  by (auto simp: ws_inv_def ws_connect_def hub_add_def ws_object_def subscriber_open_def new_subscriber_def
      length_update_new split: option.splits if_splits)

lemma ws_inv_serve:
  assumes inv: "ws_inv n w" and p: "map_of (ww_inputs w) p = Some input" and "ws_object w p = Some sub"
  shows "ws_inv n (ws_serve parse wr p input sub w)"
proof -
  have hub: "map_of (hub_subscribers (ww_hub w)) p = Some sub"
    using p assms(3) ws_invD(3) [OF inv, of p] by (auto simp: ws_object_def split: option.splits)
  obtain r sub' m' where it: "session_iteration parse wr input sub (ww_metrics w) = (r, sub', m')"
    by (cases "session_iteration parse wr input sub (ww_metrics w)") auto
  have op: "subscriber_open sub'"
    using ws_invD(5) [OF inv hub] session_iteration_frame [OF it] by (simp add: subscriber_open_def)
  show ?thesis
  proof (cases r)
    case (Inr rest)
    let ?w = "w\<lparr>ww_metrics := m', ww_inputs := AList.update p rest (ww_inputs w)\<rparr>"
    have "ws_inv n ?w"
      by (rule ws_inv_cong [OF inv]) (simp_all add: p session_iteration_frame(3) [OF it])
    with ws_inv_put_hub [of n ?w p sub sub'] hub op show ?thesis
      by (simp add: ws_serve_def it Inr)
  next
    case (Inl e)
    have s: "sub' = sub" "m' = ww_metrics w" using session_iteration_end it Inl by blast+
    have c: "subscriber_gone (wsSubscriber_close sub)"
      using op s by (simp add: subscriber_open_def subscriber_gone_def wsSubscriber_close_def)
    show ?thesis
      using inv hub c length_delete_old [OF ws_invD(1) [OF inv] hub]
      by (auto simp: ws_inv_def ws_serve_def it Inl s hub_remove_def go_alist split: if_splits)
  qed
qed

lemma fan_send_put:
  "\<exists>sub' m. fan_send wr w i pair frame p ps sub =
     ws_put p sub' (w\<lparr>ww_metrics := m, ww_fans := (ww_fans w)[i := Fan pair frame ps False]\<rparr>) \<and>
     m_wsActiveConnections m = m_wsActiveConnections (ww_metrics w) \<and>
     ws_done sub' = ws_done sub \<and> ws_closed sub' = ws_closed sub \<and>
     ws_conn sub' = ws_conn sub @ frame_written (conn_writes sub wr) frame \<and>
     (ws_closed sub \<longrightarrow> sub' = sub)"
proof -
  obtain ok sub' m where s: "sendFrame (conn_writes sub wr) frame sub (ww_metrics w) = (ok, sub', m)"
    by (cases "sendFrame (conn_writes sub wr) frame sub (ww_metrics w)") auto
  have "ws_closed sub \<longrightarrow> sub' = sub"
    using sendFrame_frame(6) [OF s] by (simp add: conn_writes_def)
  with sendFrame_frame(1-5) [OF s] show ?thesis
    by (intro exI [of _ sub'] exI [of _ m]) (simp add: fan_send_def s)
qed

lemma ws_object_split:
  assumes "ws_inv n w" and "ws_object w p = Some sub"
  shows "(map_of (hub_subscribers (ww_hub w)) p = Some sub \<and> subscriber_open sub) \<or>
    (map_of (ww_gone w) p = Some sub \<and> subscriber_gone sub)"
  using assms ws_invD(5, 6) [OF assms(1)] by (auto simp: ws_object_def split: option.splits)

lemma ws_inv_send:
  assumes inv: "ws_inv n w" and obj: "ws_object w p = Some sub"
  shows "ws_inv n (fan_send wr w i pair frame p ps sub)"
proof -
  obtain sub' m where s: "fan_send wr w i pair frame p ps sub =
      ws_put p sub' (w\<lparr>ww_metrics := m, ww_fans := (ww_fans w)[i := Fan pair frame ps False]\<rparr>)" (is "_ = ws_put p sub' ?w")
    and m: "m_wsActiveConnections m = m_wsActiveConnections (ww_metrics w)"
    and f: "ws_done sub' = ws_done sub" "ws_closed sub' = ws_closed sub"
    using fan_send_put [of wr w i pair frame p ps sub] by blast
  have "ws_inv n ?w" by (rule ws_inv_cong [OF inv]) (simp_all add: m)
  with ws_object_split [OF inv obj] ws_inv_put_hub [of n ?w p sub sub'] ws_inv_put_gone [of n ?w p sub sub'] f
  show ?thesis unfolding s by (auto simp: subscriber_open_def subscriber_gone_def)
qed

lemma ws_inv_step: "ws_step D parse net w w' \<Longrightarrow> ws_inv n w \<Longrightarrow> ws_inv n w'"
proof (induction rule: ws_step.induct)
  case start
  then show ?case by (auto intro: ws_inv_cong simp: fan_start_def)
next
  case look
  then show ?case by (auto intro: ws_inv_cong simp: fan_look_def)
qed (auto intro: ws_inv_connect ws_inv_serve ws_inv_send)

lemma ws_inv_steps: "(ws_step D parse net)\<^sup>*\<^sup>* w w' \<Longrightarrow> ws_inv n w \<Longrightarrow> ws_inv n w'"
  by (induction rule: rtranclp_induct) (auto intro: ws_inv_step)

text \<open>A subscriber that left is never written to again.\<close>

lemma ws_gone_step:
  assumes "ws_step D parse net w w'" and "ws_inv n w" and "map_of (ww_gone w) q = Some s"
  shows "map_of (ww_gone w') q = Some s"
  using assms
proof (induction rule: ws_step.induct)
  case (connect w p input)
  then show ?case by (simp add: ws_connect_def hub_add_def)
next
  case (serve w p input sub wr)
  then have "map_of (hub_subscribers (ww_hub w)) p \<noteq> None" using ws_invD(3) [of n w p] by simp
  moreover from this have "p \<noteq> q" using serve.prems ws_invD(4) [of n w q] by auto
  ultimately show ?case
    using serve.prems by (auto simp: ws_serve_def ws_put_def split: prod.splits sum.splits)
next
  case (start iter w pair r)
  then show ?case by (simp add: fan_start_def)
next
  case (look i w pair frame p ps)
  then show ?case by (simp add: fan_look_def)
next
  case (send i w pair frame p ps sub wr)
  obtain sub' m where s: "fan_send wr w i pair frame p ps sub =
      ws_put p sub' (w\<lparr>ww_metrics := m, ww_fans := (ww_fans w)[i := Fan pair frame ps False]\<rparr>)"
    and c: "ws_closed sub \<longrightarrow> sub' = sub"
    using fan_send_put [of wr w i pair frame p ps sub] by blast
  show ?case
  proof (cases "map_of (hub_subscribers (ww_hub w)) p")
    case None
    with ws_object_split [OF send.prems(1) send.hyps(3)] c have "sub' = sub" "map_of (ww_gone w) p = Some sub"
      by (auto simp: subscriber_gone_def)
    with None send.prems(2) show ?thesis by (auto simp: s ws_put_def)
  next
    case (Some x)
    with send.prems(2) show ?thesis by (simp add: s ws_put_def)
  qed
qed

lemma ws_gone_steps:
  assumes "(ws_step D parse net)\<^sup>*\<^sup>* w w'" and "ws_inv n w" and "map_of (ww_gone w) q = Some s"
  shows "map_of (ww_gone w') q = Some s"
  using assms(1)
proof (induction rule: rtranclp_induct)
  case (step y z)
  then show ?case using ws_gone_step ws_inv_steps [OF step.hyps(1) assms(2)] by blast
qed (simp add: assms(3))

section \<open>Whole frames\<close>

text \<open>
  If a write that fails has no effect, a client reads whole frames only, each a rate frame or a pong: frames
  of concurrent fan-outs and of its own session are never mixed.
\<close>

definition clean_writes :: "(nat \<Rightarrow> bool) \<Rightarrow> bool" where
  "clean_writes wr \<longleftrightarrow> (wr 0 \<longrightarrow> wr 1)"

definition hub_message :: "'d decimal_ops \<Rightarrow> byte list \<Rightarrow> bool" where
  "hub_message D msg \<longleftrightarrow> msg = pong \<or> (\<exists>pair r. msg = rate_frame D pair r)"

inductive whole_frames :: "'d decimal_ops \<Rightarrow> byte list \<Rightarrow> bool" for D :: "'d decimal_ops" where
  none: "whole_frames D []"
| frame: "whole_frames D bs \<Longrightarrow> hub_message D msg \<Longrightarrow> whole_frames D (bs @ frame_header (length msg) @ msg)"

lemma whole_frames_written:
  "whole_frames D bs \<Longrightarrow> clean_writes wr \<Longrightarrow> hub_message D msg \<Longrightarrow> whole_frames D (bs @ frame_written wr msg)"
  using whole_frames.frame by (auto simp: frame_written_def clean_writes_def)

definition ws_framed :: "'d decimal_ops \<Rightarrow> ws_world \<Rightarrow> bool" where
  "ws_framed D w \<longleftrightarrow>
     (\<forall>p sub. ws_object w p = Some sub \<longrightarrow> whole_frames D (ws_conn sub)) \<and>
     (\<forall>f \<in> set (ww_fans w). hub_message D (fan_frame f))"

lemma ws_object_put [simp]: "ws_object (ws_put p sub w) q = (if q = p then Some sub else ws_object w q)"
  by (auto simp: ws_object_def ws_put_def split: option.splits)

lemma ww_fans_put [simp]: "ww_fans (ws_put p sub w) = ww_fans w"
  by (simp add: ws_put_def)

lemma ws_object_update [simp]:
  "ws_object (w\<lparr>ww_fans := fs\<rparr>) = ws_object w" "ws_object (w\<lparr>ww_metrics := m\<rparr>) = ws_object w"
  "ws_object (w\<lparr>ww_inputs := i\<rparr>) = ws_object w"
  by (simp_all add: ws_object_def fun_eq_iff split: option.split)

lemma ws_object_connect:
  "ws_object w p = None \<Longrightarrow>
   ws_object (ws_connect p input w) q = (if q = p then Some new_subscriber else ws_object w q)"
  by (auto simp: ws_object_def ws_connect_def hub_add_def split: option.splits)

lemma ww_fans_connect [simp]: "ww_fans (ws_connect p input w) = ww_fans w"
  by (simp add: ws_connect_def hub_add_def)

lemma ws_serve_conn:
  assumes "ws_object w p = Some sub" and "map_of (hub_subscribers (ww_hub w)) p \<noteq> None"
  obtains sub' where "ws_object (ws_serve parse wr p input sub w) q = (if q = p then Some sub' else ws_object w q)"
    and "ws_conn sub' = ws_conn sub \<or> ws_conn sub' = ws_conn sub @ frame_written wr pong"
proof -
  obtain r sub1 m where it: "session_iteration parse wr input sub (ww_metrics w) = (r, sub1, m)"
    by (cases "session_iteration parse wr input sub (ww_metrics w)") auto
  have c: "ws_conn sub1 = ws_conn sub \<or> ws_conn sub1 = ws_conn sub @ frame_written wr pong"
    by (rule session_iteration_frame(4) [OF it])
  show ?thesis
  proof (cases r)
    case (Inl e)
    show ?thesis
      by (rule that [of "wsSubscriber_close sub1"])
        (use assms c in \<open>auto simp: ws_serve_def it Inl hub_remove_def ws_object_def go_alist wsSubscriber_close_def
          split: option.splits\<close>)
  next
    case (Inr rest)
    show ?thesis by (rule that [of sub1]) (use c in \<open>auto simp: ws_serve_def it Inr\<close>)
  qed
qed

lemma ww_fans_serve [simp]: "ww_fans (ws_serve parse wr p input sub w) = ww_fans w"
  by (simp add: ws_serve_def ws_put_def split: prod.split sum.split)

lemma ws_framed_step:
  assumes "ws_step D parse net w w'" and "ws_inv n w" and "ws_framed D w" and "\<And>wr. net wr \<Longrightarrow> clean_writes wr"
  shows "ws_framed D w'"
  using assms
proof (induction rule: ws_step.induct)
  case (connect w p input)
  then show ?case
    by (auto simp: ws_framed_def ws_object_connect new_subscriber_def whole_frames.none split: if_splits)
next
  case (serve w p input sub wr)
  have "map_of (hub_subscribers (ww_hub w)) p \<noteq> None" using serve ws_invD(3) [of n w p] by simp
  with serve.hyps(2) obtain sub' where
    o: "\<And>q. ws_object (ws_serve parse wr p input sub w) q = (if q = p then Some sub' else ws_object w q)"
    and c: "ws_conn sub' = ws_conn sub \<or> ws_conn sub' = ws_conn sub @ frame_written wr pong"
    using ws_serve_conn [of w p sub parse wr input] by (metis option.inject)
  have "whole_frames D (ws_conn sub')"
    using c serve whole_frames_written [of D "ws_conn sub" wr pong]
    by (auto simp: ws_framed_def hub_message_def)
  with serve.prems(2) show ?case by (auto simp: ws_framed_def o split: if_splits)
next
  case (start iter w pair r)
  then show ?case by (auto simp: ws_framed_def fan_start_def hub_message_def)
next
  case (look i w pair frame p ps)
  then have "hub_message D frame" unfolding ws_framed_def by (metis fan_thread.sel(2) nth_mem)
  with look.prems(2) show ?case
    by (auto simp: ws_framed_def fan_look_def split: option.split dest: set_update_subset_insert [THEN subsetD])
next
  case (send i w pair frame p ps sub wr)
  obtain sub' m where s: "fan_send wr w i pair frame p ps sub =
      ws_put p sub' (w\<lparr>ww_metrics := m, ww_fans := (ww_fans w)[i := Fan pair frame ps False]\<rparr>)"
    and c: "ws_conn sub' = ws_conn sub @ frame_written (conn_writes sub wr) frame"
    using fan_send_put [of wr w i pair frame p ps sub] by blast
  have f: "hub_message D frame"
    using send.hyps(1, 2) send.prems(2) unfolding ws_framed_def by (metis fan_thread.sel(2) nth_mem)
  have "clean_writes (conn_writes sub wr)"
    using send.hyps(4) send.prems(3) by (auto simp: conn_writes_def clean_writes_def)
  with f send have "whole_frames D (ws_conn sub')" by (simp add: c ws_framed_def whole_frames_written)
  with f send.prems(2) show ?case
    by (auto simp: ws_framed_def s split: if_splits dest: set_update_subset_insert [THEN subsetD])
qed

lemma ws_framed_steps:
  assumes "(ws_step D parse net)\<^sup>*\<^sup>* (ws_start m) w" and "\<And>wr. net wr \<Longrightarrow> clean_writes wr"
  shows "ws_framed D w"
  using assms(1)
proof (induction rule: rtranclp_induct)
  case base
  show ?case by (simp add: ws_framed_def ws_start_def ws_object_def newWSHub_def)
next
  case (step y z)
  show ?case
    by (rule ws_framed_step [OF step.hyps(2) ws_inv_steps [OF step.hyps(1) ws_inv_start] step.IH assms(2)])
qed

section \<open>Sessions and fan-outs on their own\<close>

text \<open>One subscriber of a snapshot, looked at and written to without interruption.\<close>

lemma fan_one:
  assumes i: "i < length (ww_fans w)" "ww_fans w ! i = Fan pair frame (p # ps) False"
    and sub: "map_of (hub_subscribers (ww_hub w)) p = Some sub" "subscriber_open sub" and net: "net (wr p)"
    and s: "sendFrame (wr p) frame sub (ww_metrics w) = (ok, sub', m1)"
  shows "(ws_step D parse net)\<^sup>*\<^sup>* w
    (if map_of (ws_pairs sub) pair = None then w\<lparr>ww_fans := (ww_fans w)[i := Fan pair frame ps False]\<rparr>
     else w\<lparr>ww_hub := ww_hub w\<lparr>hub_subscribers := AList.update p sub' (hub_subscribers (ww_hub w))\<rparr>,
       ww_metrics := m1, ww_fans := (ww_fans w)[i := Fan pair frame ps False]\<rparr>)"
proof -
  have obj: "ws_object w p = Some sub" using sub(1) by (simp add: ws_object_def)
  have look: "ws_step D parse net w (fan_look w i pair frame p ps)"
    by (rule ws_step.look [OF i])
  show ?thesis
  proof (cases "map_of (ws_pairs sub) pair")
    case None
    then have "fan_look w i pair frame p ps = w\<lparr>ww_fans := (ww_fans w)[i := Fan pair frame ps False]\<rparr>"
      using obj by (simp add: fan_look_def)
    with look None show ?thesis by (simp add: r_into_rtranclp)
  next
    case (Some u)
    let ?v = "w\<lparr>ww_fans := (ww_fans w)[i := Fan pair frame (p # ps) True]\<rparr>"
    have v: "fan_look w i pair frame p ps = ?v" using Some obj by (simp add: fan_look_def)
    have cw: "conn_writes sub (wr p) = wr p" using sub(2) by (simp add: conn_writes_def subscriber_open_def)
    have "ws_step D parse net ?v (fan_send (wr p) ?v i pair frame p ps sub)"
      by (rule ws_step.send) (use i net obj in simp_all)
    with look v have "(ws_step D parse net)\<^sup>*\<^sup>* w (fan_send (wr p) ?v i pair frame p ps sub)"
      by (metis converse_rtranclp_into_rtranclp r_into_rtranclp)
    moreover have "fan_send (wr p) ?v i pair frame p ps sub =
        w\<lparr>ww_hub := ww_hub w\<lparr>hub_subscribers := AList.update p sub' (hub_subscribers (ww_hub w))\<rparr>,
          ww_metrics := m1, ww_fans := (ww_fans w)[i := Fan pair frame ps False]\<rparr>"
      using sub(1) by (simp add: fan_send_def cw s ws_put_def)
    ultimately show ?thesis using Some by simp
  qed
qed

text \<open>A fan-out whose actions are not interrupted is \<open>fanout\<close>.\<close>

lemma fan_alone:
  assumes "i < length (ww_fans w)" and "ww_fans w ! i = Fan pair frame ps False"
    and "\<And>p. p \<in> set ps \<Longrightarrow> map_of (hub_subscribers (ww_hub w)) p \<noteq> None"
    and "\<And>p sub. map_of (hub_subscribers (ww_hub w)) p = Some sub \<Longrightarrow> subscriber_open sub"
    and "\<And>p. net (wr p)" and "fanout_loop wr pair frame ps (ww_hub w) (ww_metrics w) = (h, m)"
  shows "(ws_step D parse net)\<^sup>*\<^sup>* w
    (w\<lparr>ww_hub := h, ww_metrics := m, ww_fans := (ww_fans w)[i := Fan pair frame [] False]\<rparr>)"
  using assms
proof (induction ps arbitrary: w)
  case Nil
  then have "w\<lparr>ww_hub := h, ww_metrics := m, ww_fans := (ww_fans w)[i := Fan pair frame [] False]\<rparr> = w"
    by (metis (no_types, lifting) fanout_loop.simps(1) list_update_id prod.inject ws_world.surjective
        ws_world.update_convs(1,4,5))
  then show ?case by simp
next
  case (Cons p ps)
  obtain sub where sub: "map_of (hub_subscribers (ww_hub w)) p = Some sub" using Cons.prems(3) by fastforce
  then have op: "subscriber_open sub" using Cons.prems(4) by simp
  obtain ok sub' m1 where s: "sendFrame (wr p) frame sub (ww_metrics w) = (ok, sub', m1)"
    by (cases "sendFrame (wr p) frame sub (ww_metrics w)") auto
  have op': "subscriber_open sub'" using sendFrame_frame(1, 2) [OF s] op by (simp add: subscriber_open_def)
  let ?w = "if map_of (ws_pairs sub) pair = None then w\<lparr>ww_fans := (ww_fans w)[i := Fan pair frame ps False]\<rparr>
     else w\<lparr>ww_hub := ww_hub w\<lparr>hub_subscribers := AList.update p sub' (hub_subscribers (ww_hub w))\<rparr>,
       ww_metrics := m1, ww_fans := (ww_fans w)[i := Fan pair frame ps False]\<rparr>"
  have "(ws_step D parse net)\<^sup>*\<^sup>* w ?w"
    by (rule fan_one [where net = net and wr = wr, OF Cons.prems(1,2) sub op Cons.prems(5) s])
  moreover have "(ws_step D parse net)\<^sup>*\<^sup>* ?w
      (?w\<lparr>ww_hub := h, ww_metrics := m, ww_fans := (ww_fans ?w)[i := Fan pair frame [] False]\<rparr>)"
  proof (rule Cons.IH)
    show "fanout_loop wr pair frame ps (ww_hub ?w) (ww_metrics ?w) = (h, m)"
      using Cons.prems(6) sub s by (auto split: if_splits)
  qed (use Cons.prems op' in \<open>auto split: if_splits\<close>)
  ultimately show ?case by (auto intro: rtranclp_trans)
qed

text \<open>A session whose frames are served without interruption is its read loop.\<close>

lemma session_alone:
  assumes "session_loop parse wr k input sub m = (e, sub', m')"
    and "map_of (ww_inputs w) p = Some input" and "map_of (hub_subscribers (ww_hub w)) p = Some sub"
    and "ww_metrics w = m" and "\<And>k. net (wr k)"
  shows "(ws_step D parse net)\<^sup>*\<^sup>* w
    (w\<lparr>ww_hub := ww_hub w\<lparr>hub_subscribers := AList.delete p (hub_subscribers (ww_hub w))\<rparr>,
       ww_metrics := m'\<lparr>m_wsActiveConnections := m_wsActiveConnections m' - 1\<rparr>,
       ww_gone := AList.update p (wsSubscriber_close sub') (ww_gone w),
       ww_inputs := AList.delete p (ww_inputs w)\<rparr>)"
  using assms
proof (induction parse wr k input sub m arbitrary: w rule: session_loop.induct)
  case (1 parse wr k input sub m)
  obtain r sub1 m1 where it: "session_iteration parse (wr k) input sub m = (r, sub1, m1)"
    by (cases "session_iteration parse (wr k) input sub m") auto
  have step: "ws_step D parse net w (ws_serve parse (wr k) p input sub w)"
    by (rule ws_step.serve) (use "1.prems" in \<open>simp_all add: ws_object_def\<close>)
  show ?case
  proof (cases r)
    case (Inl e')
    with it "1.prems"(1) have "e' = e \<and> sub1 = sub' \<and> m1 = m'" by (simp add: session_loop.simps [of parse wr k])
    with step it Inl "1.prems"(3, 4) show ?thesis by (simp add: ws_serve_def hub_remove_def)
  next
    case (Inr rest)
    let ?w = "w\<lparr>ww_hub := ww_hub w\<lparr>hub_subscribers := AList.update p sub1 (hub_subscribers (ww_hub w))\<rparr>,
      ww_metrics := m1, ww_inputs := AList.update p rest (ww_inputs w)\<rparr>"
    have "session_loop parse wr (Suc k) rest sub1 m1 = (e, sub', m')"
      using it Inr "1.prems"(1) by (simp add: session_loop.simps [of parse wr k])
    with "1.IH" [OF it [symmetric] Inr refl, of ?w] "1.prems"(5)
    have "(ws_step D parse net)\<^sup>*\<^sup>* ?w
      (?w\<lparr>ww_hub := ww_hub ?w\<lparr>hub_subscribers := AList.delete p (hub_subscribers (ww_hub ?w))\<rparr>,
       ww_metrics := m'\<lparr>m_wsActiveConnections := m_wsActiveConnections m' - 1\<rparr>,
       ww_gone := AList.update p (wsSubscriber_close sub') (ww_gone ?w),
       ww_inputs := AList.delete p (ww_inputs ?w)\<rparr>)"
      by simp
    moreover have "ws_serve parse (wr k) p input sub w = ?w"
      using it Inr "1.prems"(3, 4) by (simp add: ws_serve_def ws_put_def)
    ultimately show ?thesis using step by (simp add: converse_rtranclp_into_rtranclp delete_update_same)
  qed
qed

section \<open>The hub in every interleaving\<close>


text \<open>
  A run: a client subscribes and unsubscribes while a fan-out is under way, and gets the frame of a pair
  that it no longer subscribes to.
\<close>

definition ex_ws_parse :: "byte list \<Rightarrow> json option" where
  "ex_ws_parse payload =
     (if payload = [7] then Some (JObj [(''action'', JStr ''subscribe''), (''pairs'', JArr [JStr ''USD-BTC''])])
      else if payload = [8] then Some (JObj [(''action'', JStr ''unsubscribe''), (''pairs'', JArr [JStr ''USD-BTC''])])
      else None)"

definition ex_ws_frame :: "byte list" where
  "ex_ws_frame = rate_frame dec10_ops (normalizePair ''USD-BTC'') (ex_rate ''BTC'' 70000 5)"

definition ex_ws_world :: "byte list \<Rightarrow> byte list \<Rightarrow> (string, unit) gomap \<Rightarrow> fan_thread list \<Rightarrow> int \<Rightarrow> ws_world" where
  "ex_ws_world input conn pairs fans sent =
     \<lparr>ww_hub = \<lparr>hub_subscribers = [(0, \<lparr>ws_conn = conn, ws_pairs = pairs, ws_done = False, ws_closed = False\<rparr>)]\<rparr>,
      ww_gone = [], ww_inputs = [(0, input)], ww_fans = fans,
      ww_metrics = newMetrics\<lparr>m_wsActiveConnections := 1, m_wsMessagesSent := sent\<rparr>\<rparr>"

lemma ex_ws_read:
  "readWSFrame [0x81, 1, 7, 0x81, 1, 8] = Frame [7] [0x81, 1, 8]" "readWSFrame [0x81, 1, 8] = Frame [8] []"
  by code_simp+

lemma ex_ws_commands:
  "Option.bind (ex_ws_parse [7]) decode_command = Some \<lparr>cmd_Action = ''subscribe'', cmd_Pairs = [''USD-BTC'']\<rparr>"
  "Option.bind (ex_ws_parse [8]) decode_command = Some \<lparr>cmd_Action = ''unsubscribe'', cmd_Pairs = [''USD-BTC'']\<rparr>"
  by code_simp+

lemma ex_ws_lower: "ToLower ''subscribe'' = ''subscribe''" "ToLower ''unsubscribe'' = ''unsubscribe''"
  by code_simp+

lemma ex_late_frame:
  "(ws_step dec10_ops ex_ws_parse clean_writes)\<^sup>*\<^sup>* (ws_start newMetrics)
     (ex_ws_world [] [] [] [Fan (normalizePair ''USD-BTC'') ex_ws_frame [0] True] 0)"
  "ws_step dec10_ops ex_ws_parse clean_writes
     (ex_ws_world [] [] [] [Fan (normalizePair ''USD-BTC'') ex_ws_frame [0] True] 0)
     (ex_ws_world [] (frame_header (length ex_ws_frame) @ ex_ws_frame) []
        [Fan (normalizePair ''USD-BTC'') ex_ws_frame [] False] 1)"
proof -
  let ?S = "ws_step dec10_ops ex_ws_parse clean_writes"
  let ?pair = "normalizePair ''USD-BTC''"
  let ?in = "[0x81, 1, 7, 0x81, 1, 8] :: byte list"
  have c: "clean_writes (\<lambda>_. True)" by (simp add: clean_writes_def)
  let ?look = "Fan ?pair ex_ws_frame [0]"
  have 1: "?S (ws_start newMetrics) (ex_ws_world ?in [] [] [] 0)"
    using ws_step.connect [of "ws_start newMetrics" 0 dec10_ops ex_ws_parse clean_writes ?in]
    by (simp add: ws_start_def ws_connect_def hub_add_def newWSHub_def ws_object_def new_subscriber_def
        ex_ws_world_def newMetrics_def)
  have 2: "?S (ex_ws_world ?in [] [] [] 0) (ex_ws_world [0x81, 1, 8] [] [(?pair, ())] [] 0)"
    using ws_step.serve [of "ex_ws_world ?in [] [] [] 0" 0 ?in _ clean_writes "\<lambda>_. True" dec10_ops ex_ws_parse, OF _ _ c]
    by (simp add: ex_ws_world_def ws_object_def ws_serve_def session_iteration_def ex_ws_read ws_put_def
        handle_command_def ex_ws_commands ex_ws_lower)
  have 3: "?S (ex_ws_world [0x81, 1, 8] [] [(?pair, ())] [] 0)
      (ex_ws_world [0x81, 1, 8] [] [(?pair, ())] [?look False] 0)"
    using ws_step.start [OF reorders_id, of dec10_ops ex_ws_parse clean_writes
        "ex_ws_world [0x81, 1, 8] [] [(?pair, ())] [] 0" ?pair "ex_rate ''BTC'' 70000 5"]
    by (simp add: ex_ws_world_def fan_start_def ex_ws_frame_def)
  have 4: "?S (ex_ws_world [0x81, 1, 8] [] [(?pair, ())] [?look False] 0)
      (ex_ws_world [0x81, 1, 8] [] [(?pair, ())] [?look True] 0)"
    using ws_step.look [of 0 "ex_ws_world [0x81, 1, 8] [] [(?pair, ())] [?look False] 0" ?pair ex_ws_frame 0 "[]"]
    by (simp add: ex_ws_world_def fan_look_def ws_object_def)
  have 5: "?S (ex_ws_world [0x81, 1, 8] [] [(?pair, ())] [?look True] 0) (ex_ws_world [] [] [] [?look True] 0)"
    using ws_step.serve [of "ex_ws_world [0x81, 1, 8] [] [(?pair, ())] [?look True] 0" 0 "[0x81, 1, 8]" _ clean_writes
        "\<lambda>_. True" dec10_ops ex_ws_parse, OF _ _ c]
    by (simp add: ex_ws_world_def ws_object_def ws_serve_def session_iteration_def ex_ws_read ws_put_def
        handle_command_def ex_ws_commands ex_ws_lower)
  show "?S\<^sup>*\<^sup>* (ws_start newMetrics) (ex_ws_world [] [] [] [?look True] 0)"
    using 1 2 3 4 5 by (meson converse_rtranclp_into_rtranclp rtranclp.rtrancl_refl)
  show "?S (ex_ws_world [] [] [] [?look True] 0)
      (ex_ws_world [] (frame_header (length ex_ws_frame) @ ex_ws_frame) [] [Fan ?pair ex_ws_frame [] False] 1)"
    using ws_step.send [of 0 "ex_ws_world [] [] [] [?look True] 0" ?pair ex_ws_frame 0 "[]"
        "\<lparr>ws_conn = [], ws_pairs = [], ws_done = False, ws_closed = False\<rparr>" clean_writes "\<lambda>_. True", OF _ _ _ c]
    by (simp add: ex_ws_world_def fan_send_def ws_object_def conn_writes_def sendFrame_def ws_put_def newMetrics_def)
qed


end
