(* ===== verification/Ws_Text.thy ===== *)
theory Ws_Text
  imports Ws_Session Json_Text
begin

text \<open>
  WebSocket messages as text: the JSON of a client's commands and of the updates it gets, in frames.
\<close>

section \<open>Payloads\<close>

definition bytes_string :: "byte list \<Rightarrow> string" where
  "bytes_string bs = map (\<lambda>b. char_of (unat b)) bs"

text \<open>How the read loop takes a payload: \<open>Unmarshal\<close>.\<close>

definition ws_payload :: "byte list \<Rightarrow> json option" where
  "ws_payload payload = json_document (bytes_string payload)"

lemma bytes_string_bytes [simp]: "bytes_string (string_bytes s) = s"
proof -
  have "unat (word_of_nat (of_char c) :: 8 word) = of_char c" for c :: char
    by (simp add: unsigned_of_nat take_bit_nat_eq_self)
  then show ?thesis by (simp add: bytes_string_def string_bytes_def map_idI)
qed

lemma length_string_bytes [simp]: "length (string_bytes s) = length s" "string_bytes s = [] \<longleftrightarrow> s = []"
  by (simp_all add: string_bytes_def)

section \<open>Marshalled maps of strings\<close>

lemma marshal_members:
  "concat (map (\<lambda>(n, k, v). (if n = 0 then [] else '','') @ json_string k @ '':'' @ json_string v) (enumerate (Suc n) l)) @ ''}'' =
     json_members_text fl (map (\<lambda>(k, v). (k, JStr v)) l)"
  by (induction l arbitrary: n) auto

lemma insert_by_map: "(\<And>x y. lt' (f x) (f y) = lt x y) \<Longrightarrow> insert_by lt' (f x) (map f xs) = map f (insert_by lt x xs)"
  by (induction xs) auto

lemma sort_by_map: "(\<And>x y. lt' (f x) (f y) = lt x y) \<Longrightarrow> sort_by lt' (map f xs) = map f (sort_by lt xs)"
  by (induction xs) (simp_all add: insert_by_map)

text \<open>They are the texts of objects of strings.\<close>

lemma marshal_strings_text: "marshal_strings m = json_text fl (json_of_map (map (\<lambda>(k, v). (k, JStr v)) m))"
proof -
  let ?l = "sort_by (\<lambda>a b. str_less (fst a) (fst b)) m"
  have "sort_by (\<lambda>a b. str_less (fst a) (fst b)) (map (\<lambda>(k, v). (k, JStr v)) m) = map (\<lambda>(k, v). (k, JStr v)) ?l"
    by (rule sort_by_map) (simp add: split_def)
  then show ?thesis
    using marshal_members [of 0 "tl ?l" fl] by (cases ?l) (auto simp: marshal_strings_def json_of_map_def)
qed

lemma marshal_strings_reads_back:
  "json_document (marshal_strings m) = Some (sanitize_json (json_of_map (map (\<lambda>(k, v). (k, JStr v)) m)))"
proof -
  have "json_within max_depth (json_of_map (map (\<lambda>(k, v). (k, JStr v)) m))"
    by (auto simp: json_of_map_def list_all_iff max_depth_def)
  from json_document_text(1) [OF this] show ?thesis by (simp add: marshal_strings_text [of m "\<lambda>_. []"])
qed

section \<open>Commands\<close>

definition command_json :: "string \<Rightarrow> string list \<Rightarrow> json" where
  "command_json action pairs = JObj [(''action'', JStr action), (''pairs'', JArr (map JStr pairs))]"

lemma decode_elems_strings: "decode_elems decode_string z [] (map JStr ss) = Some ss"
  by (induction ss) (simp_all add: decode_string_def)

lemma command_keys: "plain_key ''action''" "plain_key ''pairs''"
  by code_simp+

lemmas command_fields = command_keys [THEN is_field_plain] command_keys [THEN sanitize_plain]

lemma decode_command_text:
  "Option.bind (json_document (json_text fl (command_json a ps))) decode_command =
     Some \<lparr>cmd_Action = sanitize a, cmd_Pairs = map sanitize ps\<rparr>"
proof -
  have "json_document (json_text fl (command_json a ps)) = Some (sanitize_json (command_json a ps))"
    by (rule json_document_text(1)) (simp add: command_json_def max_depth_def list_all_iff)
  moreover have "sanitize_json (command_json a ps) = JObj [(''action'', JStr (sanitize a)), (''pairs'', JArr (map JStr (map sanitize ps)))]"
    by (simp add: command_json_def command_fields)
  ultimately show ?thesis
    by (simp only: bind.simps decode_command_def decode_struct_def json.case)
      (simp add: command_fields decode_string_def [of "JStr _"] decode_slice_def
        decode_elems_strings [of _ "map sanitize ps", simplified] slice_list_def)
qed

text \<open>A frame with the text of a command is that command.\<close>

lemma command_frame:
  assumes "\<not> ws_done sub" and "length mk = 4" and "int (length (json_text fl (command_json a ps))) \<le> maxAlloc"
  shows "session_iteration ws_payload wr (client_frame mk (string_bytes (json_text fl (command_json a ps))) @ rest) sub m =
    (case handle_command wr (json_document (json_text fl (command_json a ps))) sub m of (sub', m') \<Rightarrow> (Inr rest, sub', m'))"
proof -
  let ?p = "string_bytes (json_text fl (command_json a ps))"
  have "readWSFrame (client_frame mk ?p @ rest) = Frame ?p rest"
    using frame_reads_back [of ?p mk rest] assms by simp
  moreover have "?p \<noteq> []" by (simp add: command_json_def)
  ultimately show ?thesis using assms(1) by (simp add: session_iteration_def ws_payload_def)
qed

lemma handle_command_effect:
  assumes "Option.bind j decode_command = Some \<lparr>cmd_Action = a, cmd_Pairs = ps\<rparr>"
  shows "handle_command wr j sub m =
    (if ToLower a = ''subscribe'' then (sub\<lparr>ws_pairs := add_pairs ps (ws_pairs sub)\<rparr>, m)
     else if ToLower a = ''unsubscribe'' then (sub\<lparr>ws_pairs := delete_pairs ps (ws_pairs sub)\<rparr>, m)
     else if ToLower a = ''ping'' then snd (sendFrame wr pong sub m)
     else (sub, m))"
  using assms by (simp add: handle_command_def)

lemma pong_text: "pong = string_bytes (json_text fl (JObj [(''pong'', JBool True)]))"
  by (simp add: pong_def)

lemma rate_frame_text:
  obtains kvs where "ws_payload (rate_frame D pair r) = Some (JObj kvs)" "map_of kvs ''pair'' = Some (JStr (sanitize pair))"
    "map_of kvs ''rate'' = Some (JStr (sanitize (dString D (r_Mid r))))"
    "map_of kvs ''ts'' = Some (JStr (sanitize (RFC3339Nano (r_TS r))))"
    "map_of kvs ''source'' = Some (JStr (sanitize (r_SourceVenue r)))"
proof -
  let ?m = "[(''pair'', pair), (''rate'', dString D (r_Mid r)), (''ts'', RFC3339Nano (r_TS r)), (''source'', r_SourceVenue r)]"
  have "plain_key ''pair''" "plain_key ''rate''" "plain_key ''ts''" "plain_key ''source''" by code_simp+
  then have keys: "\<forall>k \<in> fst ` set (map (\<lambda>(k, v). (k, JStr v)) ?m). sanitize k = k" by (simp add: sanitize_plain)
  obtain kvs where kvs: "sanitize_json (json_of_map (map (\<lambda>(k, v). (k, JStr v)) ?m)) = JObj kvs"
    "\<And>k. map_of kvs k = map_option sanitize_json (map_of (map (\<lambda>(k, v). (k, JStr v)) ?m) k)"
    by (rule map_reads_back [OF _ keys]) simp_all
  have "ws_payload (rate_frame D pair r) = Some (JObj kvs)"
    by (simp only: ws_payload_def rate_frame_def bytes_string_bytes marshal_strings_reads_back kvs(1))
  with that kvs(2) show thesis by simp
qed


section \<open>A concrete instance\<close>

definition ex_command :: "byte list" where
  "ex_command = client_frame [1, 2, 3, 4] (string_bytes (json_text (\<lambda>_. []) (command_json ''Subscribe'' [''USD-ETH''])))"


end
