(* ===== verification/Server_Threads.thy ===== *)
theory Server_Threads
  imports Quote_Lifecycle
begin

text \<open>
  The server's operations as threads. A handler or background task runs as a sequence of atomic actions,
  one per call of the store, the lock backend, the spot service or the audit log (each of which holds a
  lock of its own or is one request to Redis); the actions of different threads interleave freely. A
  thread that runs without interruption is the operation as the other theories define it.
\<close>

section \<open>Threads\<close>

text \<open>
  The local state of a thread, named by the action it does next. Between two actions a thread holds
  copies of rows, as \<open>GetQuote\<close> and \<open>ListQuotes\<close> return them.
\<close>

datatype 'd task =
    ClaimRead uuid string
  | ClaimExpire uuid "'d Quote"
  | ClaimExpiredEvent uuid "'d Quote"
  | ClaimLock uuid string "'d Quote"
  | ClaimSpot uuid string "'d Quote"
  | ClaimSlipEvent uuid "'d Quote"
  | ClaimCommit uuid string "'d Quote"
  | ClaimEvent uuid "'d Quote" "'d Quote"
  | ClaimDone uuid "'d ClaimResult"
  | RefreshRead uuid
  | RefreshCancel uuid "'d Quote"
  | RefreshUnlock uuid "'d Quote"
  | RefreshEvent uuid "'d Quote"
  | IssuePrice quoteRequest
  | IssueSave quoteRequest "'d ComputeResult"
  | IssueLock "'d Quote" string
  | IssueEvent "'d Quote"
  | Issued "'d Quote"
  | GetRead uuid
  | GetExpire uuid
  | SweepList
  | SweepRows time "'d Quote list"
  | SweepEvent time "'d Quote" "'d Quote list"
  | Refused AppError
  | Finished
  | Panicked

text \<open>
  One action. It reads the clock, may draw the identifier \<open>new\<close>, and ranges over the rows in the order
  \<open>iter\<close>. The local computation after a call is done with the call.
\<close>

definition claim_read ::
    "clock \<Rightarrow> uuid \<Rightarrow> string \<Rightarrow> 'd Quote option \<Rightarrow> 'd task" where
  "claim_read ck i by row =
     (case row of
        None \<Rightarrow> ClaimDone i (claim_rejected ''missing'' None)
      | Some q \<Rightarrow>
          if q_Status q = StatusCanceled \<or> q_Status q = StatusExpired
          then ClaimDone i (claim_rejected ''EXPIRED'' (Some q))
          else if q_Status q = StatusClaimed then ClaimDone i (claim_rejected ''already_claimed'' (Some q))
          else if q_ExpiresAt q < ck 0 then ClaimExpire i q
          else ClaimLock i by q)"

definition claim_lock ::
    "('d, 'l) deps \<Rightarrow> clock \<Rightarrow> uuid \<Rightarrow> string \<Rightarrow> 'd Quote \<Rightarrow> ('d, 'l) Server \<Rightarrow> 'd task \<times> ('d, 'l) Server" where
  "claim_lock E ck i by q srv =
     (case lb_Claim (dp_locks E) ck (lockKey (dp_uuid E) i) (sh_locks srv) of
        (None, l) \<Rightarrow> (ClaimDone i (claim_rejected ''already_claimed'' (Some q)), srv\<lparr>sh_locks := l\<rparr>)
      | (Some lockVal, l) \<Rightarrow> (ClaimSpot i by q, srv\<lparr>sh_locks := l\<rparr>))"

definition claim_spot ::
    "('d, 'l) deps \<Rightarrow> clock \<Rightarrow> uuid \<Rightarrow> string \<Rightarrow> 'd Quote \<Rightarrow> ('d, 'l) Server \<Rightarrow> 'd task \<times> ('d, 'l) Server" where
  "claim_spot E ck i by q srv =
     (let (curRate, s', m') =
            Get (dp_decimal E) ck (dp_poll E) (q_From q) (q_To q) (sh_spot srv) (sh_metrics srv)
      in (case (case curRate of
                  Inl err \<Rightarrow> Some False
                | Inr r \<Rightarrow> slippage_exceeded (dp_decimal E) (cs_slippageToleranceBPS (srv_claim srv)) r
                             (q_LockedRate q)) of
            None \<Rightarrow> Panicked
          | Some True \<Rightarrow> ClaimSlipEvent i q
          | Some False \<Rightarrow> ClaimCommit i by q,
          srv\<lparr>sh_spot := s', sh_metrics := m'\<rparr>))"

definition claim_commit ::
    "clock \<Rightarrow> uuid \<Rightarrow> string \<Rightarrow> 'd Quote \<Rightarrow> ('d, 'l) Server \<Rightarrow> 'd task \<times> ('d, 'l) Server" where
  "claim_commit ck i by q srv =
     (case update_quote i (mark_claimed (ck 0) by) srv of
        (None, srv') \<Rightarrow> (ClaimDone i (claim_rejected ''missing'' (Some q)), srv')
      | (Some updated, srv') \<Rightarrow> (ClaimEvent i q updated, srv'))"

definition issue_price ::
    "('d, 'l) deps \<Rightarrow> clock \<Rightarrow> quoteRequest \<Rightarrow> ('d, 'l) Server \<Rightarrow> 'd task \<times> ('d, 'l) Server" where
  "issue_price E ck req srv =
     (case compute_price E ck req srv of
        (None, srv') \<Rightarrow> (Panicked, srv')
      | (Some (Inl err), srv') \<Rightarrow> (Refused errSpotUnavailable, srv')
      | (Some (Inr res), srv') \<Rightarrow> (IssueSave req res, srv'))"

definition issue_save ::
    "('d, 'l) deps \<Rightarrow> clock \<Rightarrow> uuid \<Rightarrow> quoteRequest \<Rightarrow> 'd ComputeResult \<Rightarrow> ('d, 'l) Server \<Rightarrow>
     'd task \<times> ('d, 'l) Server" where
  "issue_save E ck new req res srv =
     (let expiry = ck 0 + cfg_RateLockTTL (srv_cfg srv);
          q = new_quote (dp_decimal E) new req res (ck 0) expiry
      in (IssueLock q (lock_payload (dp_decimal E) req res expiry),
          srv\<lparr>sh_store := SaveQuote q (sh_store srv)\<rparr>))"

definition sweep_row :: "time \<Rightarrow> 'd Quote list \<Rightarrow> ('d, 'l) Server \<Rightarrow> 'd task \<times> ('d, 'l) Server" where
  "sweep_row now rows srv =
     (case rows of
        [] \<Rightarrow> (Finished, srv)
      | q # qs \<Rightarrow>
          if q_Status q = StatusOpen \<and> q_ExpiresAt q < now
          then (SweepEvent now q qs, snd (update_quote (q_QuoteID q) (set_status StatusExpired) srv))
          else (SweepRows now qs, srv))"

fun task_step ::
    "('d, 'l) deps \<Rightarrow> clock \<Rightarrow> uuid \<Rightarrow> ('d Quote list \<Rightarrow> 'd Quote list) \<Rightarrow> 'd task \<Rightarrow> ('d, 'l) Server \<Rightarrow>
     'd task \<times> ('d, 'l) Server" where
  "task_step E ck new iter (ClaimRead i by) srv = (claim_read ck i by (GetQuote (sh_store srv) i), srv)"
| "task_step E ck new iter (ClaimExpire i q) srv =
     (ClaimExpiredEvent i q, snd (update_quote i (set_status StatusExpired) srv))"
| "task_step E ck new iter (ClaimExpiredEvent i q) srv =
     (ClaimDone i (claim_rejected ''EXPIRED'' (Some (set_status StatusExpired q))),
      append_audit ck (quote_event ''quote.expired'' i q []) srv)"
| "task_step E ck new iter (ClaimLock i by q) srv = claim_lock E ck i by q srv"
| "task_step E ck new iter (ClaimSpot i by q) srv = claim_spot E ck i by q srv"
| "task_step E ck new iter (ClaimSlipEvent i q) srv =
     (ClaimDone i (claim_rejected ''slippage_exceeded'' (Some q)),
      append_audit ck (quote_event ''quote.slippage_rejected'' i q ''slippage_exceeded'') srv)"
| "task_step E ck new iter (ClaimCommit i by q) srv = claim_commit ck i by q srv"
| "task_step E ck new iter (ClaimEvent i q updated) srv =
     (ClaimDone i (claim_rejected [] (Some updated)), append_audit ck (quote_event ''quote.claimed'' i q []) srv)"
| "task_step E ck new iter (RefreshRead i) srv =
     (case GetQuote (sh_store srv) i of None \<Rightarrow> Refused errNotFound | Some old \<Rightarrow> RefreshCancel i old, srv)"
| "task_step E ck new iter (RefreshCancel i old) srv =
     (RefreshUnlock i old, snd (update_quote i (set_status StatusCanceled) srv))"
| "task_step E ck new iter (RefreshUnlock i old) srv =
     (RefreshEvent i old,
      srv\<lparr>sh_locks := snd (lb_Del (dp_locks E) (lockKey (dp_uuid E) i) (sh_locks srv))\<rparr>)"
| "task_step E ck new iter (RefreshEvent i old) srv =
     (IssuePrice (request_of_quote old), append_audit ck (quote_event ''quote.refreshed'' i old []) srv)"
| "task_step E ck new iter (IssuePrice req) srv = issue_price E ck req srv"
| "task_step E ck new iter (IssueSave req res) srv = issue_save E ck new req res srv"
| "task_step E ck new iter (IssueLock q payload) srv =
     (IssueEvent q,
      srv\<lparr>sh_locks := snd (lb_SetNX (dp_locks E) ck (lockKey (dp_uuid E) (q_QuoteID q)) payload
             (cfg_RateLockTTL (srv_cfg srv)) (sh_locks srv))\<rparr>)"
| "task_step E ck new iter (IssueEvent q) srv =
     (Issued q, append_audit ck
        (new_event ''quote.issued'' (q_QuoteID q) (q_UserTier q) (q_SourceVenue q) []) srv)"
| "task_step E ck new iter (GetRead i) srv =
     (case GetQuote (sh_store srv) i of
        None \<Rightarrow> Refused errNotFound
      | Some q \<Rightarrow>
          if q_Status q = StatusExpired \<or> (q_Status q = StatusOpen \<and> q_ExpiresAt q < ck 0)
          then GetExpire i else Finished, srv)"
| "task_step E ck new iter (GetExpire i) srv =
     (Refused errExpired, snd (update_quote i (set_status StatusExpired) srv))"
| "task_step E ck new iter SweepList srv = (SweepRows (ck 0) (ListQuotes iter (sh_store srv)), srv)"
| "task_step E ck new iter (SweepRows now rows) srv = sweep_row now rows srv"
| "task_step E ck new iter (SweepEvent now q qs) srv =
     (SweepRows now qs, append_audit ck (quote_event ''quote.expired'' (q_QuoteID q) q []) srv)"
| "task_step E ck new iter t srv = (t, srv)"

text \<open>How often an action reads the clock.\<close>

fun task_reads :: "'d task \<Rightarrow> nat" where
  "task_reads (ClaimRead i by) = 1"
| "task_reads (ClaimLock i by q) = 1"
| "task_reads (ClaimSpot i by q) = 2"
| "task_reads (ClaimCommit i by q) = 1"
| "task_reads (RefreshEvent i q) = 1"
| "task_reads (IssuePrice req) = 2"
| "task_reads (IssueSave req res) = 1"
| "task_reads (IssueLock q payload) = 3"
| "task_reads SweepList = 1"
| "task_reads (SweepEvent now q qs) = 1"
| "task_reads t = 0"

section \<open>A thread on its own\<close>

fun run_alone ::
    "('d, 'l) deps \<Rightarrow> nat \<Rightarrow> clock \<Rightarrow> uuid \<Rightarrow> ('d Quote list \<Rightarrow> 'd Quote list) \<Rightarrow> 'd task \<Rightarrow> ('d, 'l) Server \<Rightarrow>
     'd task \<times> ('d, 'l) Server" where
  "run_alone E 0 ck new iter t srv = (t, srv)"
| "run_alone E (Suc n) ck new iter t srv =
     (case task_step E ck new iter t srv of
        (t', srv') \<Rightarrow> run_alone E n (later (task_reads t) ck) new iter t' srv')"

lemma later_none [simp]: "later 0 ck = ck"
  by (rule ext) simp

lemma claim_spot_eq:
  "claim_spot E ck i by q srv =
     (case claim_slips E ck (srv_claim srv) q srv of
        None \<Rightarrow> Panicked
      | Some True \<Rightarrow> ClaimSlipEvent i q
      | Some False \<Rightarrow> ClaimCommit i by q,
      spot_read E ck q srv)"
  unfolding claim_spot_def claim_slips_def spot_read_def Let_def by (simp only: split_def fst_conv snd_conv)

lemma run_alone_final:
  "run_alone E n ck new iter (ClaimDone i res) srv = (ClaimDone i res, srv)"
  "run_alone E n ck new iter Panicked srv = (Panicked, srv)"
  "run_alone E n ck new iter (Refused e) srv = (Refused e, srv)"
  "run_alone E n ck new iter (Issued q) srv = (Issued q, srv)"
  "run_alone E n ck new iter Finished srv = (Finished, srv)"
  by (induction n arbitrary: ck) simp_all

definition claim_outcome :: "uuid \<Rightarrow> 'd ClaimResult option \<Rightarrow> 'd task" where
  "claim_outcome i r = (case r of None \<Rightarrow> Panicked | Some res \<Rightarrow> ClaimDone i res)"

lemma run_claim_commit:
  "run_alone E 2 ck new iter (ClaimCommit i by q) srv = map_prod (claim_outcome i) id (Claim_commit ck i by q srv)"
  by (simp add: numeral_2_eq_2 claim_commit_def Claim_commit_def claim_outcome_def
      split: prod.split option.split)

lemma run_claim_locked:
  "run_alone E 3 ck new iter (ClaimSpot i by q) srv =
     map_prod (claim_outcome i) id (Claim_locked E ck (srv_claim srv) i by q srv)"
  using run_claim_commit [of E "later 2 ck" new iter i "by" q "spot_read E ck q srv"]
  by (auto simp: eval_nat_numeral run_alone_final claim_spot_eq Claim_locked_eq claim_outcome_def
      split: option.split bool.split)

lemma run_claim_lock:
  "run_alone E 4 ck new iter (ClaimLock i by q) srv =
     map_prod (claim_outcome i) id
       (case lb_Claim (dp_locks E) ck (lockKey (dp_uuid E) i) (sh_locks srv) of
          (None, l) \<Rightarrow> (Some (claim_rejected ''already_claimed'' (Some q)), srv\<lparr>sh_locks := l\<rparr>)
        | (Some lockVal, l) \<Rightarrow> Claim_locked E (later 1 ck) (srv_claim srv) i by q (srv\<lparr>sh_locks := l\<rparr>))"
proof -
  have "run_alone E 4 ck new iter (ClaimLock i by q) srv = run_alone E (Suc 3) ck new iter (ClaimLock i by q) srv"
    by simp
  also have "\<dots> = (case claim_lock E ck i by q srv of (t, srv') \<Rightarrow> run_alone E 3 (later 1 ck) new iter t srv')"
    by (simp only: run_alone.simps task_step.simps task_reads.simps)
  finally show ?thesis
    by (simp add: claim_lock_def run_alone_final run_claim_locked claim_outcome_def split: prod.split option.split)
qed

lemma run_claim:
  "run_alone E 5 ck new iter (ClaimRead i by) srv =
     map_prod (claim_outcome i) id (Claim E ck (srv_claim srv) i by srv)"
proof -
  have expired: "run_alone E 4 ck' new iter (ClaimExpire i q) srv =
      (ClaimDone i (claim_rejected ''EXPIRED'' (Some (set_status StatusExpired q))),
       append_audit ck' (quote_event ''quote.expired'' i q [])
         (snd (update_quote i (set_status StatusExpired) srv)))" for q ck'
    by (simp add: eval_nat_numeral)
  have "run_alone E 5 ck new iter (ClaimRead i by) srv = run_alone E (Suc 4) ck new iter (ClaimRead i by) srv"
    by simp
  also have "\<dots> = run_alone E 4 (later 1 ck) new iter (claim_read ck i by (GetQuote (sh_store srv) i)) srv"
    by (simp only: run_alone.simps task_step.simps task_reads.simps prod.case)
  finally show ?thesis
    by (auto simp: Claim_def claim_read_def run_alone_final expired run_claim_lock claim_outcome_def numeral_2_eq_2
        split: option.split prod.split)
qed


lemma run_issue:
  "run_alone E 3 ck new iter (IssueSave req res) srv = apfst Issued (issue_quote E ck new req res srv)"
  by (simp add: eval_nat_numeral issue_save_def issue_quote_def Let_def) (simp add: new_quote_def)

definition create_outcome :: "(AppError + 'd Quote) option \<Rightarrow> 'd task" where
  "create_outcome r =
     (case r of None \<Rightarrow> Panicked | Some (Inl e) \<Rightarrow> Refused e | Some (Inr q) \<Rightarrow> Issued q)"

lemma run_create:
  "run_alone E 4 ck new iter (IssuePrice req) srv = apfst create_outcome (createQuote E ck new req srv)"
proof -
  have "run_alone E 4 ck new iter (IssuePrice req) srv = run_alone E (Suc 3) ck new iter (IssuePrice req) srv"
    by simp
  also have "\<dots> = (case issue_price E ck req srv of (t, srv') \<Rightarrow> run_alone E 3 (later 2 ck) new iter t srv')"
    by (simp only: run_alone.simps task_step.simps task_reads.simps)
  finally show ?thesis
    by (auto simp: createQuote_def issue_price_def run_alone_final run_issue create_outcome_def
        split: prod.split option.split sum.split)
qed

definition refresh_outcome ::
    "('d, 'l) deps \<Rightarrow> http_request \<Rightarrow> 'd task \<Rightarrow> http_response option" where
  "refresh_outcome E rq t =
     (case t of
        Refused e \<Rightarrow> Some (writeErrorApp rq e)
      | Issued q \<Rightarrow> Some (respond 201 (json_of_map (toResponse (dp_uuid E) q)))
      | _ \<Rightarrow> None)"

lemma run_refresh:
  "apfst (refresh_outcome E rq) (run_alone E 8 ck (ids 0) iter (RefreshRead i) srv) = refreshQuote E ck ids rq i srv"
proof (cases "GetQuote (sh_store srv) i")
  case None
  then show ?thesis by (simp add: eval_nat_numeral run_alone_final refresh_outcome_def refreshQuote_def)
next
  case (Some old)
  have "run_alone E 8 ck (ids 0) iter (RefreshRead i) srv =
      run_alone E (Suc (Suc (Suc (Suc 4)))) ck (ids 0) iter (RefreshRead i) srv"
    by simp
  also have "\<dots> = run_alone E 4 (later 1 ck) (ids 0) iter (IssuePrice (request_of_quote old))
      (cancel_for_refresh E ck i old srv)"
    unfolding run_alone.simps task_step.simps Some
    by (simp add: cancel_for_refresh_def Let_def)
  finally have "run_alone E 8 ck (ids 0) iter (RefreshRead i) srv =
      apfst create_outcome (createQuote E (later 1 ck) (ids 0) (request_of_quote old) (cancel_for_refresh E ck i old srv))"
    by (simp only: run_create)
  with Some show ?thesis
    by (auto simp: refreshQuote_def createQuote_def create_outcome_def refresh_outcome_def numeral_3_eq_3
        split: prod.split option.split sum.split)
qed

lemma run_get:
  "snd (run_alone E 2 ck new iter (GetRead i) srv) = snd (getQuote E ck rq i srv)"
  by (simp add: numeral_2_eq_2 getQuote_def split: option.split)

lemma run_sweep_rows:
  "2 * length qs < n \<Longrightarrow>
   run_alone E n ck new iter (SweepRows now qs) srv = (Finished, sweep_loop now ck qs srv)"
proof (induction qs arbitrary: n ck srv)
  case Nil
  then show ?case by (cases n) (simp_all add: sweep_row_def run_alone_final)
next
  case (Cons q qs)
  define n' where "n' = n - 2"
  with Cons.prems have n: "n = Suc (Suc n')" "2 * length qs < n'" by simp_all
  have "run_alone E (Suc n') ck new iter (SweepRows now qs) srv = (Finished, sweep_loop now ck qs srv)"
    by (rule Cons.IH) (use n(2) in simp)
  moreover have "run_alone E n' ck' new iter (SweepRows now qs) srv' = (Finished, sweep_loop now ck' qs srv')"
    for ck' srv' by (rule Cons.IH [OF n(2)])
  ultimately show ?case
    unfolding n(1) run_alone.simps(2) [of E "Suc n'"] task_step.simps task_reads.simps sweep_row_def
    by (cases "q_Status q = StatusOpen \<and> q_ExpiresAt q < now") auto
qed

lemma run_sweep:
  "run_alone E (2 * length (ListQuotes iter (sh_store srv)) + 2) ck new iter SweepList srv =
     (Finished, sweepExpired ck iter srv)"
  using run_sweep_rows [of "ListQuotes iter (sh_store srv)" "2 * length (ListQuotes iter (sh_store srv)) + 1"
      E "later 1 ck" new iter "ck 0" srv]
  by (simp add: sweepExpired_def del: run_alone.simps)
    (simp only: run_alone.simps task_step.simps task_reads.simps One_nat_def prod.case)


section \<open>Interleavings\<close>

text \<open>
  A world is the server, the threads started so far and the instant of the last action. A step starts a
  thread, runs one action of one thread, or is a step of the background: expiry in the lock backend, a
  reload of the schedules, a new rate, a dispatch of the audit log. Clock readings do not decrease from
  one action to the next, and an identifier is not that of a stored row when its row is saved.
\<close>

record ('d, 'l) world =
  wd_server :: "('d, 'l) Server"
  wd_tasks :: "'d task list"
  wd_now :: time

fun starts :: "'d task \<Rightarrow> bool" where
  "starts (ClaimRead i by) = True"
| "starts (RefreshRead i) = True"
| "starts (IssuePrice req) = True"
| "starts (GetRead i) = True"
| "starts SweepList = True"
| "starts t = False"

inductive background ::
    "('d, 'l) deps \<Rightarrow> ('d, 'l) Server \<Rightarrow> ('d, 'l) Server \<Rightarrow> bool" for E where
  bg_reload: "background E srv (snd (feeSchedulesReload E ck ids rq srv))"
| bg_schedules: "background E srv (feeScheduleRefresh_tick E ck ids srv)"
| bg_rate: "background E srv (srv\<lparr>sh_spot := fst (Update ck r (sh_spot srv))\<rparr>)"
| bg_dispatch: "dispatch None (sh_audit srv, ()) (a, \<sigma>) \<Longrightarrow> background E srv (srv\<lparr>sh_audit := a\<rparr>)"

inductive conc_step ::
    "('d, 'l) deps \<Rightarrow> (time \<Rightarrow> 'l \<Rightarrow> 'l \<Rightarrow> bool) \<Rightarrow> ('d, 'l) world \<Rightarrow> ('d, 'l) world \<Rightarrow> bool"
  for E tick where
  cs_start: "starts t \<Longrightarrow> conc_step E tick w (w\<lparr>wd_tasks := wd_tasks w @ [t]\<rparr>)"
| cs_action: "k < length (wd_tasks w) \<Longrightarrow> mono ck \<Longrightarrow> wd_now w \<le> ck 0 \<Longrightarrow> ck 0 \<le> now' \<Longrightarrow>
    GetQuote (sh_store (wd_server w)) new = None \<Longrightarrow>
    task_step E ck new iter (wd_tasks w ! k) (wd_server w) = (t, srv) \<Longrightarrow>
    conc_step E tick w \<lparr>wd_server = srv, wd_tasks = (wd_tasks w)[k := t], wd_now = now'\<rparr>"
| cs_tick: "tick now' (sh_locks (wd_server w)) l \<Longrightarrow> wd_now w \<le> now' \<Longrightarrow>
    conc_step E tick w (w\<lparr>wd_server := (wd_server w)\<lparr>sh_locks := l\<rparr>, wd_now := now'\<rparr>)"
| cs_background: "background E (wd_server w) srv \<Longrightarrow> conc_step E tick w (w\<lparr>wd_server := srv\<rparr>)"

text \<open>The threads in which a claim of a quote has succeeded.\<close>

fun claim_succeeded :: "uuid \<Rightarrow> 'd task \<Rightarrow> bool" where
  "claim_succeeded i (ClaimDone j res) = (j = i \<and> cl_Reason res = [])"
| "claim_succeeded i t = False"

text \<open>
  A quote's token is created with its row, is turned into the lock by the thread that issues the quote,
  and is held by the thread that claimed the lock, up to the end of its claim.
\<close>

fun token :: "uuid \<Rightarrow> 'd task \<Rightarrow> nat" where
  "token i (IssueLock q payload) = of_bool (q_QuoteID q = i)"
| "token i (ClaimSpot j by q) = of_bool (j = i)"
| "token i (ClaimSlipEvent j q) = of_bool (j = i)"
| "token i (ClaimCommit j by q) = of_bool (j = i)"
| "token i (ClaimEvent j q updated) = of_bool (j = i)"
| "token i (ClaimDone j res) = of_bool (j = i \<and> cl_Reason res = [])"
| "token i t = 0"

definition tokens :: "uuid \<Rightarrow> 'd task list \<Rightarrow> nat" where
  "tokens i ts = sum_list (map (token i) ts)"

lemma token_starts: "starts t \<Longrightarrow> token i t = 0"
  by (cases t) simp_all

lemma tokens_append: "tokens i (ts @ [t]) = tokens i ts + token i t"
  by (simp add: tokens_def)

lemma token_le_tokens: "k < length ts \<Longrightarrow> token i (ts ! k) \<le> tokens i ts"
  using elem_le_sum_list [of k "map (token i) ts"] by (simp add: tokens_def)

lemma tokens_update: "k < length ts \<Longrightarrow> tokens i (ts[k := t]) = tokens i ts + token i t - token i (ts ! k)"
  using Groups_List.sum_list_update [of k "map (token i) ts" "token i t"] by (simp add: tokens_def map_update)

lemma succeeded_le_tokens: "length (filter (claim_succeeded i) ts) \<le> tokens i ts"
proof (induction ts)
  case (Cons t ts)
  have "claim_succeeded i t \<Longrightarrow> token i t = 1" by (cases t) auto
  with Cons show ?case by (simp add: tokens_def)
qed (simp add: tokens_def)

lemma claim_lock_eq:
  "claim_lock E ck i by q srv =
     (case fst (lb_Claim (dp_locks E) ck (lockKey (dp_uuid E) i) (sh_locks srv)) of
        None \<Rightarrow> ClaimDone i (claim_rejected ''already_claimed'' (Some q))
      | Some lockVal \<Rightarrow> ClaimSpot i by q,
      srv\<lparr>sh_locks := snd (lb_Claim (dp_locks E) ck (lockKey (dp_uuid E) i) (sh_locks srv))\<rparr>)"
  by (auto simp: claim_lock_def split: prod.split option.split)

lemma action_frames [simp]:
  "sh_store (snd (claim_lock E ck i by q srv)) = sh_store srv"
  "sh_locks (snd (claim_lock E ck i by q srv)) = snd (lb_Claim (dp_locks E) ck (lockKey (dp_uuid E) i) (sh_locks srv))"
  "sh_store (snd (claim_spot E ck i by q srv)) = sh_store srv"
  "sh_locks (snd (claim_spot E ck i by q srv)) = sh_locks srv"
  "snd (claim_commit ck i by q srv) = snd (update_quote i (mark_claimed (ck 0) by) srv)"
  "snd (issue_price E ck req srv) = snd (compute_price E ck req srv)"
  "sh_locks (snd (issue_save E ck new req res srv)) = sh_locks srv"
  "sh_locks (snd (sweep_row now rows srv)) = sh_locks srv"
  by (auto simp: claim_lock_def claim_spot_eq claim_commit_def issue_price_def issue_save_def sweep_row_def Let_def
      split: prod.split option.split sum.split list.split)

text \<open>What an action does to the rows: none disappears, and only \<open>IssueSave\<close> adds one.\<close>

lemma task_step_row:
  "GetQuote (sh_store (snd (task_step E ck new iter t srv))) i \<noteq> None \<longleftrightarrow>
    GetQuote (sh_store srv) i \<noteq> None \<or> (i = new \<and> (\<exists>req res. t = IssueSave req res))"
  by (cases t) (auto simp: issue_save_def sweep_row_def Let_def split: list.split)

text \<open>What it does to the locks.\<close>

lemma task_step_locks:
  assumes "lock_states (dp_locks E) tick invar" and "invar (sh_locks srv)" and "mono ck"
  shows "invar (sh_locks (snd (task_step E ck new iter t srv)))"
  using lock_states.invar_SetNX [OF assms] lock_states.invar_Del [OF assms(1,2)] lock_states.invar_Claim [OF assms(1,2)]
    assms(2)
  by (cases t) simp_all

lemma task_step_absent:
  assumes B: "claim_once (dp_locks E) tick view invar" and U: "uuid_laws (dp_uuid E)"
    and inv: "invar (sh_locks srv)" and now: "now \<le> ck 0"
    and absent: "claim_once.absent_from view (sh_locks srv) now (lockKey (dp_uuid E) i)"
    and other: "\<And>q p. t = IssueLock q p \<Longrightarrow> q_QuoteID q \<noteq> i"
    and later: "ck 0 \<le> now'"
  shows "claim_once.absent_from view (sh_locks (snd (task_step E ck new iter t srv))) now' (lockKey (dp_uuid E) i)"
proof -
  note [simp] = claim_once.absent_from_def [OF B] lockKey_inj [OF U]
  show ?thesis
    using claim_once.absent_SetNX [OF B inv] claim_once.absent_Del [OF B inv] claim_once.absent_Claim [OF B inv]
      absent now later other
    by (cases t) auto
qed

text \<open>
  An action makes a token only for a new row and for a lock that it claims; otherwise a token is kept
  or lost.
\<close>

lemma task_step_token:
  obtains (saved) req res where "t = IssueSave req res" "new = i"
      "token i (fst (task_step E ck new iter t srv)) = 1"
  | (locked) "by" q v where "t = ClaimLock i by q"
      "fst (lb_Claim (dp_locks E) ck (lockKey (dp_uuid E) i) (sh_locks srv)) = Some v"
      "token i (fst (task_step E ck new iter t srv)) = 1"
  | (kept) "token i (fst (task_step E ck new iter t srv)) \<le> token i t"
proof (cases t)
  case (IssueSave req res)
  then show ?thesis using saved kept by (cases "new = i") (auto simp: issue_save_def Let_def)
next
  case (ClaimLock j "by" q)
  then show ?thesis
    using locked kept
    by (cases "fst (lb_Claim (dp_locks E) ck (lockKey (dp_uuid E) i) (sh_locks srv))"; cases "j = i")
      (auto simp: claim_lock_eq split: option.splits)
next
  case (ClaimRead j "by")
  with kept show ?thesis by (auto simp: claim_read_def split: option.splits if_splits)
qed (use kept in \<open>auto simp: claim_spot_eq claim_commit_def issue_price_def sweep_row_def
    split: prod.splits option.splits bool.splits sum.splits list.splits\<close>)


text \<open>
  The invariant for a quote: its row, its lock and the threads that claim it share one token, and as
  long as a thread has it the lock's key is absent.
\<close>

definition token_inv ::
    "('d, 'l) deps \<Rightarrow> ('l \<Rightarrow> time \<Rightarrow> string \<Rightarrow> string option) \<Rightarrow> ('l \<Rightarrow> bool) \<Rightarrow> uuid \<Rightarrow> ('d, 'l) world \<Rightarrow> bool" where
  "token_inv E view invar i w \<longleftrightarrow>
     invar (sh_locks (wd_server w)) \<and> tokens i (wd_tasks w) \<le> 1 \<and>
     (GetQuote (sh_store (wd_server w)) i = None \<longrightarrow> tokens i (wd_tasks w) = 0) \<and>
     (GetQuote (sh_store (wd_server w)) i = None \<or> tokens i (wd_tasks w) = 1 \<longrightarrow>
        (\<forall>t \<ge> wd_now w. view (sh_locks (wd_server w)) t (lockKey (dp_uuid E) i) = None))"

lemma background_frame:
  "background E srv srv' \<Longrightarrow>
   GetQuote (sh_store srv') = GetQuote (sh_store srv) \<and> sh_locks srv' = sh_locks srv"
  by (induction rule: background.induct)
    (auto simp: feeSchedulesReload_def ReloadIndex_def feeScheduleRefresh_tick_def Let_def)

text \<open>An action other than the \<open>SetNX\<close> of a new quote does not bring a key back that is gone.\<close>

lemma token_absent:
  assumes B: "claim_once (dp_locks E) tick view invar" and U: "uuid_laws (dp_uuid E)" and invl: "invar (sh_locks s)"
    and ck: "mono ck" "now \<le> ck 0" "ck 0 \<le> now'"
    and gone: "\<forall>u \<ge> now. view (sh_locks s) u (lockKey (dp_uuid E) i) = None"
    and other: "\<And>q p. t = IssueLock q p \<Longrightarrow> q_QuoteID q \<noteq> i"
  shows "\<forall>u \<ge> now'. view (sh_locks (snd (task_step E ck new iter t s))) u (lockKey (dp_uuid E) i) = None"
proof -
  have "claim_once.absent_from view (sh_locks (snd (task_step E ck new iter t s))) now' (lockKey (dp_uuid E) i)"
    by (rule task_step_absent [where ck = ck and now = now, OF B U invl ck(2)])
      (use gone other ck(3) in \<open>auto simp: claim_once.absent_from_def [OF B]\<close>)
  then show ?thesis by (simp add: claim_once.absent_from_def [OF B])
qed

lemma token_inv_action:
  assumes B: "claim_once (dp_locks E) tick view invar" and U: "uuid_laws (dp_uuid E)"
    and inv: "token_inv E view invar i w" and k: "k < length (wd_tasks w)"
    and ck: "mono ck" "wd_now w \<le> ck 0" "ck 0 \<le> now'"
    and new: "GetQuote (sh_store (wd_server w)) new = None"
    and act: "task_step E ck new iter (wd_tasks w ! k) (wd_server w) = (t, srv)"
  shows "token_inv E view invar i \<lparr>wd_server = srv, wd_tasks = (wd_tasks w)[k := t], wd_now = now'\<rparr>"
proof -
  let ?s = "wd_server w" and ?ts = "wd_tasks w" and ?key = "lockKey (dp_uuid E) i"
  have t: "t = fst (task_step E ck new iter (?ts ! k) ?s)" and srv: "srv = snd (task_step E ck new iter (?ts ! k) ?s)"
    using act by simp_all
  have invl: "invar (sh_locks ?s)" using inv by (simp add: token_inv_def)
  have invl': "invar (sh_locks srv)"
    unfolding srv by (rule task_step_locks [OF claim_once.axioms(1) [OF B] invl ck(1)])
  note row = task_step_row [of E ck new iter "?ts ! k" ?s i, folded srv]
  note upd = tokens_update [OF k, of i t] and le = token_le_tokens [OF k, of i]
  note absent = token_absent [OF B U invl ck, of i "?ts ! k" new iter, folded srv]
  show ?thesis
  proof (cases rule: task_step_token [of "?ts ! k" new i E ck iter ?s])
    case (saved req res)
    have "token i t = 1" unfolding t by (rule saved(3))
    with saved(1,2) inv new absent upd row show ?thesis by (simp add: token_inv_def invl')
  next
    case (locked "by" q v)
    have v: "view (sh_locks ?s) (ck 0) ?key = Some v" using claim_once.claim_held [OF B invl locked(2)] .
    with inv ck(2) have "tokens i ?ts = 0" "GetQuote (sh_store ?s) i \<noteq> None"
      by (auto simp: token_inv_def)
    moreover have "view (sh_locks srv) u ?key = None" if "now' \<le> u" for u
      using claim_once.claim_takes [OF B invl locked(2), of u] that ck(3) by (simp add: srv locked(1))
    moreover have "token i t = 1" unfolding t by (rule locked(3))
    ultimately show ?thesis using locked(1) upd row by (simp add: token_inv_def invl')
  next
    case kept
    show ?thesis
    proof (cases "\<exists>q p. ?ts ! k = IssueLock q p \<and> q_QuoteID q = i")
      case True
      then have "token i (?ts ! k) = 1" "token i t = 0" by (auto simp: t)
      with inv le have "tokens i ?ts = 1" "GetQuote (sh_store ?s) i \<noteq> None" by (auto simp: token_inv_def)
      with upd row \<open>token i t = 0\<close> \<open>token i (?ts ! k) = 1\<close> show ?thesis by (auto simp: token_inv_def invl')
    next
      case False
      have "token i t \<le> token i (?ts ! k)" unfolding t by (rule kept)
      with False inv upd row le absent show ?thesis by (auto simp: token_inv_def invl')
    qed
  qed
qed

lemma token_inv_step:
  assumes "conc_step E tick w w'" and B: "claim_once (dp_locks E) tick view invar"
    and U: "uuid_laws (dp_uuid E)" and inv: "token_inv E view invar i w"
  shows "token_inv E view invar i w'"
  using assms(1)
proof (cases rule: conc_step.cases)
  case (cs_start t)
  with inv show ?thesis by (simp add: token_inv_def tokens_append token_starts)
next
  case (cs_action k ck now' new iter t srv)
  with token_inv_action [OF B U inv] show ?thesis by simp
next
  case (cs_tick now' l)
  have "invar (sh_locks (wd_server w))" using inv by (simp add: token_inv_def)
  with cs_tick inv show ?thesis
    using lock_states.invar_tick [OF claim_once.axioms(1) [OF B]] claim_once.absent_tick [OF B]
    by (auto simp: token_inv_def)
next
  case (cs_background srv)
  with inv background_frame [OF cs_background(2)] show ?thesis by (simp add: token_inv_def)
qed

lemma token_inv_run:
  assumes "(conc_step E tick)\<^sup>*\<^sup>* w w'" and "claim_once (dp_locks E) tick view invar"
    and "uuid_laws (dp_uuid E)" and "token_inv E view invar i w"
  shows "token_inv E view invar i w'"
  using assms(1) by (induction rule: rtranclp_induct) (blast intro: token_inv_step assms)+


section \<open>Properties\<close>

text \<open>
  (C2) In every interleaving of claims, refreshes, lookups, new quotes and sweeps with each other and with
  the expiry in the lock backend, at most one claim of a quote succeeds, whether the quote existed at
  the start or is issued on the way. Of the backend this only needs that a key without a value gets one
  by \<open>SetNX\<close> alone and that a claim takes the value with it, so it holds for the Redis adapter too.
\<close>

theorem concurrent_claims_once:
  assumes "claim_once (dp_locks E) tick view invar" and "uuid_laws (dp_uuid E)"
    and "(conc_step E tick)\<^sup>*\<^sup>* w w'" and "wd_tasks w = []" and "invar (sh_locks (wd_server w))"
    and "GetQuote (sh_store (wd_server w)) i = None \<Longrightarrow>
      \<forall>t \<ge> wd_now w. view (sh_locks (wd_server w)) t (lockKey (dp_uuid E) i) = None"
  shows "length (filter (claim_succeeded i) (wd_tasks w')) \<le> 1"
proof -
  have "token_inv E view invar i w"
    using assms(4-6) by (auto simp: token_inv_def tokens_def)
  then have "tokens i (wd_tasks w') \<le> 1"
    using token_inv_run [OF assms(3,1,2)] by (simp add: token_inv_def)
  with succeeded_le_tokens [of i "wd_tasks w'"] show ?thesis by linarith
qed


section \<open>Schedules\<close>

text \<open>A schedule lists the thread to run next, the instant of its action and an identifier to draw.\<close>

fun run_schedule ::
    "('d, 'l) deps \<Rightarrow> (nat \<times> time \<times> uuid) list \<Rightarrow> ('d, 'l) world \<Rightarrow> ('d, 'l) world option" where
  "run_schedule E [] w = Some w"
| "run_schedule E ((k, now, new) # rest) w =
     (if k < length (wd_tasks w) \<and> wd_now w \<le> now \<and> GetQuote (sh_store (wd_server w)) new = None
      then (case task_step E (ex_clock now) new (\<lambda>qs. qs) (wd_tasks w ! k) (wd_server w) of
              (t, srv) \<Rightarrow>
                run_schedule E rest \<lparr>wd_server = srv, wd_tasks = (wd_tasks w)[k := t], wd_now = now\<rparr>)
      else None)"

lemma run_schedule_steps:
  "run_schedule E sch w = Some w' \<Longrightarrow> (conc_step E tick)\<^sup>*\<^sup>* w w'"
proof (induction sch arbitrary: w)
  case (Cons a sch)
  obtain k now new where a: "a = (k, now, new)" by (cases a) auto
  obtain t srv where step: "task_step E (ex_clock now) new (\<lambda>qs. qs) (wd_tasks w ! k) (wd_server w) = (t, srv)"
    by fastforce
  let ?w = "\<lparr>wd_server = srv, wd_tasks = (wd_tasks w)[k := t], wd_now = now\<rparr>"
  from Cons.prems have ok: "k < length (wd_tasks w)" "wd_now w \<le> now" "GetQuote (sh_store (wd_server w)) new = None"
    and rest: "run_schedule E sch ?w = Some w'"
    by (auto simp: a step split: if_splits)
  have "conc_step E tick w ?w"
    by (rule cs_action [OF ok(1) mono_ex_clock _ _ ok(3) step]) (use ok(2) in \<open>simp_all add: ex_clock_def\<close>)
  then show ?case using Cons.IH [OF rest] by (rule converse_rtranclp_into_rtranclp)
qed simp

definition ex_world :: "dec10 task list \<Rightarrow> (dec10, LockStore) world" where
  "ex_world ts = \<lparr>wd_server = ex_one, wd_tasks = ts, wd_now = 0\<rparr>"

lemma starts_reached:
  "\<forall>t \<in> set ts. starts t \<Longrightarrow> (conc_step E tick)\<^sup>*\<^sup>* w (w\<lparr>wd_tasks := wd_tasks w @ ts\<rparr>)"
proof (induction ts arbitrary: w)
  case (Cons t ts)
  then have "conc_step E tick w (w\<lparr>wd_tasks := wd_tasks w @ [t]\<rparr>)" by (intro cs_start) simp
  with Cons.IH [of "w\<lparr>wd_tasks := wd_tasks w @ [t]\<rparr>"] Cons.prems show ?case
    by (auto intro: converse_rtranclp_into_rtranclp)
qed simp

lemma ex_world_start:
  "\<forall>t \<in> set ts. starts t \<Longrightarrow> (conc_step ex_deps timer_step)\<^sup>*\<^sup>* (ex_world []) (ex_world ts)"
  using starts_reached [of ts ex_deps timer_step "ex_world []"] by (simp add: ex_world_def)

text \<open>
  Claim and refresh of one quote: the refresh cancels the row and deletes the lock between the claim's
  slippage guard and its update.
\<close>

definition ex_claim_refresh :: "(nat \<times> time \<times> uuid) list" where
  "ex_claim_refresh = map (\<lambda>k. (k, 100, 9)) [0, 0, 0, 1, 1, 1, 1, 0, 0]"

text \<open>Claim and sweep: the sweeper lists the rows after the expiry and before the claim's update.\<close>

definition ex_claim_sweep :: "(nat \<times> time \<times> uuid) list" where
  "ex_claim_sweep = map (Pair 0) [(100, 9), (100, 9), (100, 9)] @
     [(1, 40 * second, 9), (0, 40 * second, 9), (0, 40 * second, 9), (1, 40 * second, 9), (1, 40 * second, 9),
      (1, 40 * second, 9)]"

definition row_status :: "(dec10, LockStore) world \<Rightarrow> uuid \<Rightarrow> QuoteStatus option" where
  "row_status w i = map_option q_Status (GetQuote (sh_store (wd_server w)) i)"

fun claimed_and_refreshed :: "dec10 task list \<Rightarrow> bool" where
  "claimed_and_refreshed [ClaimDone i res, IssuePrice req] = (i = 7 \<and> cl_Reason res = [])"
| "claimed_and_refreshed ts = False"

fun claimed_and_swept :: "dec10 task list \<Rightarrow> bool" where
  "claimed_and_swept [ClaimDone i res, Finished] = (i = 7 \<and> cl_Reason res = [])"
| "claimed_and_swept ts = False"


lemma ex_claim_refresh_run:
  "map_option (\<lambda>w. (claimed_and_refreshed (wd_tasks w), row_status w 7))
     (run_schedule ex_deps ex_claim_refresh (ex_world [ClaimRead 7 ''svc'', RefreshRead 7])) =
   Some (True, Some StatusClaimed)"
  by code_simp

lemma ex_claim_sweep_run:
  "map_option (\<lambda>w. (claimed_and_swept (wd_tasks w), row_status w 7))
     (run_schedule ex_deps ex_claim_sweep (ex_world [ClaimRead 7 ''svc'', SweepList])) =
   Some (True, Some StatusExpired)"
  by code_simp

text \<open>
  (C27) The rows themselves are not protected by the lock of the quote. A claim that succeeds overwrites a
  cancellation that comes between its checks and its update: the quote is claimed while the refresh that
  canceled it goes on to issue a replacement. A sweep, or a lookup after the expiry, that read the row
  before the claim's update overwrites the claim: the claimer has been told of a success, and the row
  says expired.
\<close>

theorem row_updates_race:
  "(\<exists>w res req. (conc_step ex_deps timer_step)\<^sup>*\<^sup>* (ex_world []) w \<and> wd_tasks w = [ClaimDone 7 res, IssuePrice req] \<and>
     cl_Reason res = [] \<and> row_status w 7 = Some StatusClaimed) \<and>
   (\<exists>w res. (conc_step ex_deps timer_step)\<^sup>*\<^sup>* (ex_world []) w \<and> wd_tasks w = [ClaimDone 7 res, Finished] \<and>
     cl_Reason res = [] \<and> row_status w 7 = Some StatusExpired)"
proof
  obtain w where w: "run_schedule ex_deps ex_claim_refresh (ex_world [ClaimRead 7 ''svc'', RefreshRead 7]) = Some w"
    and out: "claimed_and_refreshed (wd_tasks w)" "row_status w 7 = Some StatusClaimed"
    using ex_claim_refresh_run by auto
  from out(1) obtain res req where "wd_tasks w = [ClaimDone 7 res, IssuePrice req]" "cl_Reason res = []"
    by (cases "wd_tasks w" rule: claimed_and_refreshed.cases) auto
  with out rtranclp_trans [OF ex_world_start run_schedule_steps [OF w]] show "\<exists>w res req.
      (conc_step ex_deps timer_step)\<^sup>*\<^sup>* (ex_world []) w \<and> wd_tasks w = [ClaimDone 7 res, IssuePrice req] \<and>
      cl_Reason res = [] \<and> row_status w 7 = Some StatusClaimed"
    by fastforce
next
  obtain w where w: "run_schedule ex_deps ex_claim_sweep (ex_world [ClaimRead 7 ''svc'', SweepList]) = Some w"
    and out: "claimed_and_swept (wd_tasks w)" "row_status w 7 = Some StatusExpired"
    using ex_claim_sweep_run by auto
  from out(1) obtain res where "wd_tasks w = [ClaimDone 7 res, Finished]" "cl_Reason res = []"
    by (cases "wd_tasks w" rule: claimed_and_swept.cases) auto
  with out rtranclp_trans [OF ex_world_start run_schedule_steps [OF w]] show "\<exists>w res.
      (conc_step ex_deps timer_step)\<^sup>*\<^sup>* (ex_world []) w \<and> wd_tasks w = [ClaimDone 7 res, Finished] \<and>
      cl_Reason res = [] \<and> row_status w 7 = Some StatusExpired"
    by fastforce
qed

text \<open>Two claims of one quote, action by action in turn: the lock lets one of them through.\<close>

definition ex_two_claims :: "(nat \<times> time \<times> uuid) list" where
  "ex_two_claims = map (\<lambda>k. (k, 100, 9)) [0, 1, 0, 1, 0, 0, 0]"

lemma ex_two_claims_run:
  "map_option (\<lambda>w. map (claim_succeeded 7) (wd_tasks w))
     (run_schedule ex_deps ex_two_claims (ex_world [ClaimRead 7 ''a'', ClaimRead 7 ''b''])) = Some [True, False]"
  by code_simp

theorem concurrent_claims_once_witness:
  "\<exists>w. (conc_step ex_deps timer_step)\<^sup>*\<^sup>* (ex_world []) w \<and> claim_succeeded 7 (wd_tasks w ! 0) \<and>
     length (filter (claim_succeeded 7) (wd_tasks w)) = 1"
proof -
  obtain w where w: "run_schedule ex_deps ex_two_claims (ex_world [ClaimRead 7 ''a'', ClaimRead 7 ''b'']) = Some w"
    and m: "map (claim_succeeded 7) (wd_tasks w) = [True, False]"
    using ex_two_claims_run by auto
  have run: "(conc_step ex_deps timer_step)\<^sup>*\<^sup>* (ex_world []) w"
    by (rule rtranclp_trans [OF ex_world_start run_schedule_steps [OF w]]) simp
  have start: "wd_tasks (ex_world []) = []" "lock_inv (sh_locks (wd_server (ex_world [])))"
      "GetQuote (sh_store (wd_server (ex_world []))) 7 \<noteq> None"
    using shared_invD(2) [OF ex_one_inv] by (simp_all add: ex_world_def ex_one_quote)
  have "claim_once (dp_locks ex_deps) timer_step lock_view lock_inv"
    using lock_backend.claims_once [OF ex_backend] .
  from concurrent_claims_once [OF this ex_uuid run start(1,2), of 7] start(3)
  have "length (filter (claim_succeeded 7) (wd_tasks w)) \<le> 1" by blast
  moreover from m obtain t t' where "wd_tasks w = [t, t']" "claim_succeeded 7 t" by auto
  ultimately show ?thesis using run by auto
qed

end
