(* ===== verification/Running_Server.thy ===== *)
theory Running_Server
  imports Server_Http Server_Threads Redis_Lock
begin

text \<open>
  The composition of \<open>RunWithConfigCtx\<close>: the server with the lock backend that the configuration selects,
  its background goroutines, and its shutdown. The contract of the lock backend is shown for whatever
  backend is selected, so that what was proved of a server holds for the one that runs.
\<close>

section \<open>The selected backend\<close>

text \<open>A call on the interface goes to the backend behind it.\<close>

definition in_memory :: "'a \<times> LockStore \<Rightarrow> 'a \<times> 'l chosen_backend" where
  "in_memory = map_prod id In_memory"

definition in_redis :: "'a \<times> 'l \<Rightarrow> 'a \<times> 'l chosen_backend" where
  "in_redis = map_prod id In_redis"

definition chosen_ops :: "'l redis_client \<Rightarrow> 'l chosen_backend LockBackend" where
  "chosen_ops R =
     \<lparr>lb_SetNX = (\<lambda>ck k v ttl b. case b of In_memory l \<Rightarrow> in_memory (LockStore_SetNX ck k v ttl l)
                                         | In_redis l \<Rightarrow> in_redis (redis_SetNX R ck k v ttl l)),
      lb_Get = (\<lambda>ck k b. case b of In_memory l \<Rightarrow> in_memory (LockStore_Get ck k l)
                                 | In_redis l \<Rightarrow> in_redis (redis_Get R ck k l)),
      lb_Del = (\<lambda>k b. case b of In_memory l \<Rightarrow> in_memory (LockStore_Del k l)
                              | In_redis l \<Rightarrow> in_redis (redis_Del R k l)),
      lb_Claim = (\<lambda>ck k b. case b of In_memory l \<Rightarrow> in_memory (LockStore_Claim ck k l)
                                   | In_redis l \<Rightarrow> in_redis (redis_Claim R ck k l)),
      lb_Ready = (\<lambda>b. case b of In_memory l \<Rightarrow> lb_Ready LockStore_backend l | In_redis l \<Rightarrow> redis_Ready R l)\<rparr>"

fun chosen_tick :: "'l redis_server \<Rightarrow> time \<Rightarrow> 'l chosen_backend \<Rightarrow> 'l chosen_backend \<Rightarrow> bool" where
  "chosen_tick S now (In_memory l) (In_memory l') = timer_step now l l'"
| "chosen_tick S now (In_redis l) (In_redis l') = redis_tick S now l l'"
| "chosen_tick S now b b' = False"

fun chosen_view :: "'l redis_server \<Rightarrow> 'l chosen_backend \<Rightarrow> time \<Rightarrow> string \<Rightarrow> string option" where
  "chosen_view S (In_memory l) t k = lock_view l t k"
| "chosen_view S (In_redis l) t k = redis_view S l t k"

fun chosen_inv :: "'l chosen_backend \<Rightarrow> bool" where
  "chosen_inv (In_memory l) = lock_inv l"
| "chosen_inv (In_redis l) = True"

lemma wrap_simps [simp]:
  "fst (in_memory r) = fst r" "snd (in_memory r) = In_memory (snd r)"
  "fst (in_redis r') = fst r'" "snd (in_redis r') = In_redis (snd r')"
  by (simp_all add: in_memory_def in_redis_def)

lemma memory_ops:
  "lb_SetNX LockStore_backend = LockStore_SetNX" "lb_Get LockStore_backend = LockStore_Get"
  "lb_Del LockStore_backend = LockStore_Del" "lb_Claim LockStore_backend = LockStore_Claim"
  by (simp_all add: LockStore_backend_def)

lemma chosen_calls [simp]:
  "lb_SetNX (chosen_ops R) ck k v ttl (In_memory l) = in_memory (LockStore_SetNX ck k v ttl l)"
  "lb_SetNX (chosen_ops R) ck k v ttl (In_redis l') = in_redis (redis_SetNX R ck k v ttl l')"
  "lb_Get (chosen_ops R) ck k (In_memory l) = in_memory (LockStore_Get ck k l)"
  "lb_Get (chosen_ops R) ck k (In_redis l') = in_redis (redis_Get R ck k l')"
  "lb_Del (chosen_ops R) k (In_memory l) = in_memory (LockStore_Del k l)"
  "lb_Del (chosen_ops R) k (In_redis l') = in_redis (redis_Del R k l')"
  "lb_Claim (chosen_ops R) ck k (In_memory l) = in_memory (LockStore_Claim ck k l)"
  "lb_Claim (chosen_ops R) ck k (In_redis l') = in_redis (redis_Claim R ck k l')"
  by (simp_all add: chosen_ops_def)

lemma chosen_states: "lock_states (chosen_ops R) (chosen_tick S) chosen_inv"
proof unfold_locales
  fix b :: "'a chosen_backend" and ck :: clock and k v and ttl :: duration
  assume inv: "chosen_inv b"
  show "chosen_inv (snd (lb_SetNX (chosen_ops R) ck k v ttl b))" if "mono ck"
    using inv that lock_inv_SetNX by (cases b) simp_all
  show "chosen_inv (snd (lb_Get (chosen_ops R) ck k b))"
    using inv mem.invar_Get [unfolded memory_ops] by (cases b) simp_all
  show "chosen_inv (snd (lb_Del (chosen_ops R) k b))"
    using inv mem.invar_Del [unfolded memory_ops] by (cases b) simp_all
  show "chosen_inv (snd (lb_Claim (chosen_ops R) ck k b))"
    using inv mem.invar_Claim [unfolded memory_ops] by (cases b) simp_all
next
  fix b b' :: "'a chosen_backend" and now
  assume "chosen_inv b" and "chosen_tick S now b b'"
  then show "chosen_inv b'"
    by (cases b; cases b') (auto intro: mem.invar_tick)
qed

context redis_laws
begin

lemmas memory_absent = mem.once.absent_SetNX [unfolded memory_ops] mem.once.absent_Get [unfolded memory_ops]
  mem.once.absent_Del [unfolded memory_ops] mem.once.absent_Claim [unfolded memory_ops]
  mem.once.absent_tick mem.once.claim_held [unfolded memory_ops] mem.once.claim_takes [unfolded memory_ops]

lemmas redis_absent = once.absent_SetNX [unfolded redis_backend_simps, OF TrueI]
  once.absent_Get [unfolded redis_backend_simps, OF TrueI]
  once.absent_Del [unfolded redis_backend_simps, OF TrueI]
  once.absent_Claim [unfolded redis_backend_simps, OF TrueI] once.absent_tick [OF TrueI]
  once.claim_held [unfolded redis_backend_simps, OF TrueI]
  once.claim_takes [unfolded redis_backend_simps, OF TrueI]

lemma chosen_claims_once: "claim_once (chosen_ops R) (chosen_tick S) (chosen_view S) chosen_inv"
proof (intro claim_once.intro chosen_states claim_once_axioms.intro)
  fix b :: "'l chosen_backend" and t k k' and ck :: clock and v and ttl :: duration
  assume inv: "chosen_inv b"
  show "chosen_view S (snd (lb_SetNX (chosen_ops R) ck k v ttl b)) t k' = None"
    if "chosen_view S b t k' = None" "k' \<noteq> k"
    using inv that by (cases b) (auto intro: memory_absent(1) redis_absent(1))
  show "chosen_view S (snd (lb_Get (chosen_ops R) ck k b)) t k' = None"
    if "chosen_view S b t k' = None" "ck 0 \<le> t"
    using inv that by (cases b) (auto intro: memory_absent(2) redis_absent(2))
  show "chosen_view S (snd (lb_Del (chosen_ops R) k b)) t k' = None" if "chosen_view S b t k' = None"
    using inv that by (cases b) (auto intro: memory_absent(3) redis_absent(3))
  show "chosen_view S (snd (lb_Claim (chosen_ops R) ck k b)) t k' = None"
    if "chosen_view S b t k' = None" "ck 0 \<le> t"
    using inv that by (cases b) (auto intro: memory_absent(4) redis_absent(4))
  show "chosen_view S b (ck 0) k = Some v" if "fst (lb_Claim (chosen_ops R) ck k b) = Some v"
    using inv that by (cases b) (auto intro: memory_absent(6) redis_absent(6))
  show "chosen_view S (snd (lb_Claim (chosen_ops R) ck k b)) t k = None"
    if "fst (lb_Claim (chosen_ops R) ck k b) = Some v" "ck 0 \<le> t"
    using inv that by (cases b) (auto intro: memory_absent(7) redis_absent(7))
next
  fix b b' :: "'l chosen_backend" and t now k
  assume "chosen_inv b" "chosen_view S b t k = None" "chosen_tick S now b b'" "now \<le> t"
  then show "chosen_view S b' t k = None"
    by (cases b; cases b') (auto intro: memory_absent(5) redis_absent(5))
qed

end

sublocale redis_laws \<subseteq> chosen: claim_once "chosen_ops R" "chosen_tick S" "chosen_view S" chosen_inv
  by (rule chosen_claims_once)


section \<open>Building the server\<close>

text \<open>The dialer of the Redis client is a parameter, as in \<open>initLockBackend\<close>.\<close>

definition built_server ::
    "'d decimal_ops \<Rightarrow> clock \<Rightarrow> id_source \<Rightarrow> (string \<Rightarrow> string + 'l) \<Rightarrow> bool \<Rightarrow> Config \<Rightarrow> metrics \<Rightarrow>
     ('d, 'l chosen_backend) Server" where
  "built_server D ck ids dial has_log cfg m =
     with_lock_backend (fst (initLockBackend dial cfg has_log)) (NewServer D ck ids cfg m)"

text \<open>
  The two background goroutines: in a loop, a tick does the work and the closed stop channel ends the
  loop; when both are ready either may be taken. The stop function closes the channel, once.
\<close>

record ticker =
  tk_stop :: bool
  tk_returned :: bool

inductive ticker_loop :: "('s \<Rightarrow> 's \<Rightarrow> bool) \<Rightarrow> ticker \<times> 's \<Rightarrow> ticker \<times> 's \<Rightarrow> bool" for work where
  tk_tick: "\<not> tk_returned t \<Longrightarrow> work s s' \<Longrightarrow> ticker_loop work (t, s) (t, s')"
| tk_stopped: "\<not> tk_returned t \<Longrightarrow> tk_stop t \<Longrightarrow> ticker_loop work (t, s) (t\<lparr>tk_returned := True\<rparr>, s)"
| tk_close: "\<not> tk_stop t \<Longrightarrow> ticker_loop work (t, s) (t\<lparr>tk_stop := True\<rparr>, s)"

definition sweeper_work :: "('d, 'l) Server \<Rightarrow> ('d, 'l) Server \<Rightarrow> bool" where
  "sweeper_work srv srv' \<longleftrightarrow> (\<exists>ck iter. reorders iter \<and> srv' = sweepExpired ck iter srv)"

definition schedule_work :: "('d, 'l) deps \<Rightarrow> ('d, 'l) Server \<Rightarrow> ('d, 'l) Server \<Rightarrow> bool" where
  "schedule_work E srv srv' \<longleftrightarrow> (\<exists>ck ids. srv' = feeScheduleRefresh_tick E ck ids srv)"

definition StartSweeper ::
    "ticker \<times> ('d, 'l) Server \<Rightarrow> ticker \<times> ('d, 'l) Server \<Rightarrow> bool" where
  "StartSweeper = ticker_loop sweeper_work"

definition startFeeScheduleRefresh ::
    "('d, 'l) deps \<Rightarrow> ticker \<times> ('d, 'l) Server \<Rightarrow> ticker \<times> ('d, 'l) Server \<Rightarrow> bool" where
  "startFeeScheduleRefresh E = ticker_loop (schedule_work E)"

text \<open>How the run ends: the context is canceled, or listening fails; either way the backend is closed.\<close>

datatype run_end = Context_canceled | Listen_failed string

definition end_run :: "('l \<Rightarrow> 'l) \<Rightarrow> run_end \<Rightarrow> 'l chosen_backend \<Rightarrow> string option \<times> 'l chosen_backend" where
  "end_run close e locks =
     (case e of
        Context_canceled \<Rightarrow> (None, closeLockBackend close locks)
      | Listen_failed err \<Rightarrow> (Some err, closeLockBackend close locks))"

section \<open>Background goroutines as steps of the server\<close>

lemma ticker_steps:
  assumes "(ticker_loop work)\<^sup>*\<^sup>* ts ts'" and "\<And>s s'. work s s' \<Longrightarrow> step s s'"
  shows "step\<^sup>*\<^sup>* (snd ts) (snd ts') \<and> (tk_returned (fst ts) \<longrightarrow> snd ts' = snd ts)"
  using assms(1)
proof (induction rule: rtranclp_induct)
  case (step y z)
  have ret: "tk_returned (fst ts) \<longrightarrow> tk_returned (fst y)"
    using step(1) by (induction rule: rtranclp_induct) (auto elim!: ticker_loop.cases)
  from step(2) show ?case
  proof cases
    case (tk_tick t s s')
    with step.IH ret assms(2) [OF tk_tick(4)] show ?thesis by (auto intro: rtranclp.rtrancl_into_rtrancl)
  qed (use step.IH in auto)
qed simp

lemma ticker_returns: "\<exists>t'. (ticker_loop work)\<^sup>*\<^sup>* (t, s) (t', s) \<and> tk_returned t'"
proof (cases "tk_returned t")
  case False
  have "(ticker_loop work)\<^sup>*\<^sup>* (t, s) (t\<lparr>tk_stop := True\<rparr>, s)"
  proof (cases "tk_stop t")
    case True
    then have "t\<lparr>tk_stop := True\<rparr> = t" by (cases t) simp
    then show ?thesis by simp
  next
    case False
    then show ?thesis using tk_close [of t work s] by simp
  qed
  moreover have "ticker_loop work (t\<lparr>tk_stop := True\<rparr>, s) (t\<lparr>tk_stop := True, tk_returned := True\<rparr>, s)"
    using tk_stopped [of "t\<lparr>tk_stop := True\<rparr>" work s] False by simp
  ultimately have "(ticker_loop work)\<^sup>*\<^sup>* (t, s) (t\<lparr>tk_stop := True, tk_returned := True\<rparr>, s)"
    by (rule rtranclp.rtrancl_into_rtrancl)
  then show ?thesis by (intro exI [of _ "t\<lparr>tk_stop := True, tk_returned := True\<rparr>"]) simp
qed auto

text \<open>Both goroutines only make steps of the server, and none after they have returned.\<close>

lemma background_steps:
  "(StartSweeper)\<^sup>*\<^sup>* ts ts' \<Longrightarrow> (server_step E tick)\<^sup>*\<^sup>* (snd ts) (snd ts')"
  "(startFeeScheduleRefresh E)\<^sup>*\<^sup>* ts ts' \<Longrightarrow> (server_step E tick)\<^sup>*\<^sup>* (snd ts) (snd ts')"
  using ticker_steps [of sweeper_work ts ts' "server_step E tick"]
    ticker_steps [of "schedule_work E" ts ts' "server_step E tick"]
  unfolding StartSweeper_def startFeeScheduleRefresh_def
  by (auto simp: sweeper_work_def schedule_work_def intro: ss_sweep ss_schedules)

section \<open>Properties\<close>

lemma initLockBackend_inv: "chosen_inv (fst (initLockBackend dial cfg has_log))"
  by (simp add: initLockBackend_def lock_inv_New split: sum.split)

lemma seeded_ready: "IsReady (seed D now s)" if "4 \<le> c_cap (sp_cache s)"
proof -
  have "length (recency (put_rates (seeds D now) (newLRUCache (c_cap (sp_cache s))))) = length (seed_table D now)"
    by (simp add: recency_seed [OF that])
  then show ?thesis by (simp add: IsReady_def seed_def recency_def seed_table_def seeds_def)
qed

text \<open> The server that \<open>RunWithConfigCtx\<close> builds starts in the invariants, whichever lock backend the
  configuration selects: no quotes, the index in step with the seeded schedules, the limits of the
  configuration, and ready exactly as far as the lock backend is.
\<close>

lemma built_server_initial:
  assumes "dp_locks E = chosen_ops R"
  shows "shared_inv chosen_inv (built_server D ck ids dial has_log cfg m) \<and>
    (\<forall>i. GetQuote (sh_store (built_server D ck ids dial has_log cfg m)) i = None) \<and>
    index_in_sync (srv_pricer (built_server D ck ids dial has_log cfg m))
      (sh_store (built_server D ck ids dial has_log cfg m)) \<and>
    srv_cfg (built_server D ck ids dial has_log cfg m) = cfg \<and>
    cs_slippageToleranceBPS (srv_claim (built_server D ck ids dial has_log cfg m)) = cfg_SlippageToleranceBPS cfg \<and>
    (rp_Status (readyz E rq (built_server D ck ids dial has_log cfg m)) = 200 \<longleftrightarrow>
      (case fst (initLockBackend dial cfg has_log) of
         In_memory l \<Rightarrow> True | In_redis l \<Rightarrow> rc_Ping R l = None))"
proof -
  let ?s = "built_server D ck ids dial has_log cfg m"
  have spot: "sh_spot ?s = SetOnUpdate True (NewSpotService D (ck 0) (cfg_MaxStaleAge cfg))"
    by (simp add: built_server_def with_lock_backend_def NewServer_def Let_def split: prod.split)
  have "shared_inv chosen_inv ?s"
    by (simp add: shared_inv_def built_server_def with_lock_backend_def NewServer_def Let_def initLockBackend_inv
        NewAuditLog_def audit_inv_New seed_store_inv store_inv_New spot_inv_New split: prod.split)
  moreover have "GetQuote (sh_store ?s) i = None" for i
    by (simp add: built_server_def with_lock_backend_def NewServer_def Let_def split: prod.split)
  moreover have "index_in_sync (srv_pricer ?s) (sh_store ?s)"
    using index_in_sync_Reload
    by (simp add: built_server_def with_lock_backend_def NewServer_def Let_def split_def)
  moreover have "IsReady (sh_spot ?s)"
    using seeded_ready [of _ D "ck 0"]
    by (simp add: spot SetOnUpdate_def IsReady_def NewSpotService_def newLRUCache_def)
  then have "rp_Status (readyz E rq ?s) = 200 \<longleftrightarrow>
      (case fst (initLockBackend dial cfg has_log) of In_memory l \<Rightarrow> True | In_redis l \<Rightarrow> rc_Ping R l = None)"
    using assms
    by (simp add: readyz_def built_server_def with_lock_backend_def chosen_ops_def LockStore_backend_def
        redis_Ready_def LockStore_Ready_def split: chosen_backend.split)
  moreover have "srv_cfg ?s = cfg" "cs_slippageToleranceBPS (srv_claim ?s) = cfg_SlippageToleranceBPS cfg"
    by (simp_all add: built_server_def with_lock_backend_def NewServer_def NewClaimService_def Let_def split: prod.split)
  ultimately show ?thesis by blast
qed



section \<open>Concrete instances\<close>

definition ex_redis_deps :: "(dec10, redis_db chosen_backend) deps" where
  "ex_redis_deps = \<lparr>dp_decimal = dec10_ops, dp_uuid = uuid_hex, dp_locks = chosen_ops db_client, dp_poll = None\<rparr>"

definition ex_running :: "(dec10, redis_db chosen_backend) Server" where
  "ex_running = built_server dec10_ops (ex_clock 0) ex_ids (\<lambda>url. Inr (ex_redis [])) True
     (DefaultConfig\<lparr>cfg_RedisURL := ''redis://cache:6379''\<rparr>) newMetrics"

lemma ex_chosen:
  "fst (initLockBackend (\<lambda>url. Inr (ex_redis [])) (DefaultConfig\<lparr>cfg_RedisURL := ''redis://cache:6379''\<rparr>) True) =
     In_redis (ex_redis [])"
  by (simp add: initLockBackend_def)



end
