(* ===== verification/Quote_Types.thy ===== *)
theory Quote_Types
  imports Server_Http
begin

text \<open>
  What every row of a running server looks like. The fields of \<open>Quote\<close> in \<open>internal/store.go\<close> are strings,
  integers and optional values; the handlers only ever store rows in which they belong together.
\<close>

section \<open>Well-typed rows\<close>

definition currency_code :: "string \<Rightarrow> bool" where
  "currency_code c \<longleftrightarrow> length c \<in> {3..5} \<and> upper_alpha c"

definition terms_typed :: "'d decimal_ops \<Rightarrow> ('d \<Rightarrow> rat) \<Rightarrow> time \<Rightarrow> 'd Quote \<Rightarrow> bool" where
  "terms_typed D val ttl q \<longleftrightarrow>
     currency_code (q_From q) \<and> currency_code (q_To q) \<and>
     q_Amount q \<noteq> [] \<and> (\<exists>a. dNewFromString D (q_Amount q) = Some a \<and> 0 < val a) \<and>
     q_UserTier q \<in> {''TIER_1'', ''TIER_2'', ''TIER_3''} \<and> q_Side q \<in> {''BUY'', ''SELL''} \<and>
     q_FeeCurrency q = q_From q \<and> q_Rate q = dString D (q_LockedRate q) \<and>
     q_ExpiresAt q = q_CreatedAt q + ttl"

definition claim_typed :: "'d Quote \<Rightarrow> bool" where
  "claim_typed q \<longleftrightarrow>
     (case q_ClaimedAt q of
        None \<Rightarrow> q_ClaimedBy q = [] \<and> q_Status q \<noteq> StatusClaimed
      | Some t \<Rightarrow> TrimSpace (q_ClaimedBy q) \<noteq> [] \<and> q_Status q \<in> {StatusClaimed, StatusCanceled})"

definition quote_typed :: "'d decimal_ops \<Rightarrow> ('d \<Rightarrow> rat) \<Rightarrow> time \<Rightarrow> 'd Quote \<Rightarrow> bool" where
  "quote_typed D val ttl q \<longleftrightarrow> terms_typed D val ttl q \<and> claim_typed q"

lemma quote_typed_new:
  assumes "decimal_laws D val" and "validateRequest D req = None"
  shows "quote_typed D val ttl (new_quote D i req res now (now + ttl))"
  using assms(2) unfolding validateRequest_accepts [OF assms(1)]
  by (simp add: quote_typed_def terms_typed_def claim_typed_def new_quote_def currency_code_def)

lemma quote_typed_request:
  assumes "decimal_laws D val" and "quote_typed D val ttl q"
  shows "validateRequest D (request_of_quote q) = None"
  using assms(2) unfolding validateRequest_accepts [OF assms(1)]
  by (auto simp: quote_typed_def terms_typed_def currency_code_def request_of_quote_def)

lemma quote_typed_status:
  assumes "quote_typed D val ttl q" and "st = StatusCanceled \<or> (st = StatusExpired \<and> q_Status q \<in> {StatusOpen, StatusExpired})"
  shows "quote_typed D val ttl (set_status st q)"
  using assms by (auto simp: quote_typed_def terms_typed_def claim_typed_def set_status_def split: option.splits)

lemma quote_typed_claim:
  assumes "quote_typed D val ttl q" and "TrimSpace by \<noteq> []"
  shows "quote_typed D val ttl (mark_claimed t by q)"
  using assms by (simp add: quote_typed_def terms_typed_def claim_typed_def mark_claimed_def)

section \<open>All rows of a store\<close>

definition all_rows :: "('d Quote \<Rightarrow> bool) \<Rightarrow> 'd Store \<Rightarrow> bool" where
  "all_rows P s \<longleftrightarrow> (\<forall>i q. GetQuote s i = Some q \<longrightarrow> P q)"

lemma all_rowsD: "all_rows P s \<Longrightarrow> GetQuote s i = Some q \<Longrightarrow> P q"
  by (simp add: all_rows_def)

lemma all_rows_seed: "all_rows P (seedFeeSchedules D ck ids s) \<longleftrightarrow> all_rows P s"
  by (simp add: all_rows_def)

lemma all_rows_Update:
  "all_rows P s \<Longrightarrow> (\<And>q. GetQuote s i = Some q \<Longrightarrow> P q \<Longrightarrow> P (fn q)) \<Longrightarrow> all_rows P (snd (UpdateQuote i fn s))"
  by (auto simp: all_rows_def)

lemma all_rows_Save: "all_rows P s \<Longrightarrow> P q \<Longrightarrow> all_rows P (SaveQuote q s)"
  by (auto simp: all_rows_def)

section \<open>The configuration never changes\<close>

lemma Claim_cfg: "srv_cfg (snd (Claim E ck c i by srv)) = srv_cfg srv"
  by (auto simp: Claim_def Claim_locked_def Claim_commit_def Let_def update_quote_def append_audit_def
      split: option.split prod.split bool.split)

lemma sweep_loop_cfg: "srv_cfg (sweep_loop now ck qs srv) = srv_cfg srv"
  by (induction qs arbitrary: ck srv) (simp_all add: append_audit_def update_quote_def split_def)

lemma createQuote_cfg: "srv_cfg (snd (createQuote E ck i req srv)) = srv_cfg srv"
  by (cases rule: createQuote_cases [where E = E and ck = ck and req = req and srv = srv and i = i])
    (simp_all add: issue_quote_simps)

lemma refreshQuote_cfg: "srv_cfg (snd (refreshQuote E ck ids rq i srv)) = srv_cfg srv"
  by (cases rule: refreshQuote_cases [where E = E and ck = ck and srv = srv and i = i and ids = ids and rq = rq])
    (simp_all add: issue_quote_simps cancel_for_refresh_simps)

lemma server_step_cfg: "server_step E tick srv srv' \<Longrightarrow> srv_cfg srv' = srv_cfg srv"
proof (induction rule: server_step.induct)
  case (ss_get srv ck rq i)
  then show ?case using getQuote_state [of E ck rq i srv] by auto
next
  case (ss_claim "by" srv ck rq i)
  then show ?case
    using Claim_cfg [of E ck "srv_claim srv" i "by" srv] claimQuote_state [of E ck rq i "by" srv]
    by (auto simp: count_claim_def)
qed (simp_all add: createQuote_cfg refreshQuote_cfg sweepExpired_def sweep_loop_cfg feeSchedulesReload_def
    ReloadIndex_def feeScheduleRefresh_tick_def Let_def)

section \<open>Every step keeps the rows well-typed\<close>

lemma createQuote_typed:
  assumes D: "decimal_laws (dp_decimal E) val" and ok: "validateRequest (dp_decimal E) req = None"
    and rows: "all_rows (quote_typed (dp_decimal E) val (cfg_RateLockTTL (srv_cfg srv))) (sh_store srv)"
  shows "all_rows (quote_typed (dp_decimal E) val (cfg_RateLockTTL (srv_cfg srv)))
    (sh_store (snd (createQuote E ck i req srv)))"
  using rows quote_typed_new [OF D ok]
  by (cases rule: createQuote_cases [where E = E and ck = ck and req = req and srv = srv and i = i])
    (simp_all add: issue_quote_simps all_rows_Save)

lemma refreshQuote_typed:
  assumes D: "decimal_laws (dp_decimal E) val"
    and rows: "all_rows (quote_typed (dp_decimal E) val (cfg_RateLockTTL (srv_cfg srv))) (sh_store srv)"
  shows "all_rows (quote_typed (dp_decimal E) val (cfg_RateLockTTL (srv_cfg srv)))
    (sh_store (snd (refreshQuote E ck ids rq i srv)))"
proof -
  let ?P = "quote_typed (dp_decimal E) val (cfg_RateLockTTL (srv_cfg srv))"
  have cancel: "all_rows ?P (snd (UpdateQuote i (set_status StatusCanceled) (sh_store srv)))"
    by (rule all_rows_Update [OF rows]) (simp add: quote_typed_status)
  show ?thesis
  proof (cases rule: refreshQuote_cases [where E = E and ck = ck and srv = srv and i = i and ids = ids and rq = rq])
    case (failed old srv1 r)
    with cancel show ?thesis by (simp add: cancel_for_refresh_simps)
  next
    case (issued old srv1 res)
    from quote_typed_new [OF D quote_typed_request [OF D all_rowsD [OF rows issued(1)]]] issued cancel
    show ?thesis by (simp add: issue_quote_simps cancel_for_refresh_simps all_rows_Save)
  qed (simp add: rows)
qed

lemma claimQuote_typed:
  assumes rows: "all_rows (quote_typed D val ttl) (sh_store srv)" and "TrimSpace by \<noteq> []"
  shows "all_rows (quote_typed D val ttl) (sh_store (snd (claimQuote E ck rq i by srv)))"
proof -
  have typed: "quote_typed D val ttl q'" if "quote_typed D val ttl q" "claim_row_step by q q'" for q q'
    using that assms(2) by (auto simp: claim_row_step_def quote_typed_status quote_typed_claim)
  have "all_rows (quote_typed D val ttl) (sh_store (snd (Claim E ck (srv_claim srv) i by srv)))"
    unfolding all_rows_def
  proof (intro allI impI)
    fix j q'
    assume "GetQuote (sh_store (snd (Claim E ck (srv_claim srv) i by srv))) j = Some q'"
    with Claim_row_steps [of "by" srv j E ck "srv_claim srv" i] obtain q
      where "GetQuote (sh_store srv) j = Some q" "claim_row_step by q q'"
      by (auto simp: option_rel_Some2)
    then show "quote_typed D val ttl q'" using typed all_rowsD [OF rows] by blast
  qed
  then show ?thesis using claimQuote_state [of E ck rq i "by" srv] by auto
qed

lemma server_step_typed:
  assumes "server_step E tick srv srv'" and D: "decimal_laws (dp_decimal E) val" and "store_inv (sh_store srv)"
    and "all_rows (quote_typed (dp_decimal E) val (cfg_RateLockTTL (srv_cfg srv))) (sh_store srv)"
  shows "all_rows (quote_typed (dp_decimal E) val (cfg_RateLockTTL (srv_cfg srv))) (sh_store srv')"
  using assms(1,3,4)
proof (induction rule: server_step.induct)
  case (ss_get srv ck rq i)
  then have "all_rows (quote_typed (dp_decimal E) val (cfg_RateLockTTL (srv_cfg srv)))
      (sh_store (snd (update_quote i (set_status StatusExpired) srv)))"
    if "GetQuote (sh_store srv) i = Some q" "q_Status q = StatusExpired \<or> overdue (ck 0) q" for q
    using that by (auto simp: overdue_def intro!: all_rows_Update quote_typed_status)
  then show ?case using getQuote_state [of E ck rq i srv] ss_get.prems by metis
next
  case (ss_sweep iter srv ck)
  let ?P = "quote_typed (dp_decimal E) val (cfg_RateLockTTL (srv_cfg srv))"
  have "?P (set_status StatusExpired q)" if "?P q" "overdue (ck 0) q" for q
    using that by (simp add: overdue_def quote_typed_status)
  then show ?case
    using sweepExpired_row [OF ss_sweep.hyps ss_sweep.prems(1)] ss_sweep.prems(2) by (auto simp: all_rows_def)
qed (simp_all add: createQuote_typed [OF D] refreshQuote_typed [OF D] claimQuote_typed feeSchedulesReload_def
    ReloadIndex_def feeScheduleRefresh_tick_def Let_def all_rows_seed)

lemma server_steps_typed:
  assumes "(server_step E tick)\<^sup>*\<^sup>* srv srv'" and "decimal_laws (dp_decimal E) val"
    and "lock_states (dp_locks E) tick invar" and "hook_ok (dp_poll E)" and "shared_inv invar srv"
    and "all_rows (quote_typed (dp_decimal E) val (cfg_RateLockTTL (srv_cfg srv))) (sh_store srv)"
  shows "all_rows (quote_typed (dp_decimal E) val (cfg_RateLockTTL (srv_cfg srv))) (sh_store srv') \<and>
    srv_cfg srv' = srv_cfg srv"
  using assms(1)
proof (induction rule: rtranclp_induct)
  case (step y z)
  have "store_inv (sh_store y)"
    using shared_invD(1) server_steps [OF step.hyps(1) assms(3-5)] by blast
  with server_step_typed [OF step.hyps(2) assms(2)] step.IH server_step_cfg [OF step.hyps(2)]
  show ?case by simp
qed (simp add: assms(6))


section \<open>Concrete instances\<close>


end
