(* ===== verification/Production_Run.thy ===== *)
theory Production_Run
  imports Running_Server Quote_Types
begin

text \<open>
  \<open>RunWithConfigCtx\<close> from its call to its return and beyond: the server it builds answers requests while two
  goroutines sweep and reseed; when the context is canceled or listening fails, the lock backend is closed,
  the result returned, and the deferred stop functions called. The goroutines end at some later time.
\<close>

section \<open>A run\<close>

record ('d, 'l) running =
  rn_server :: "('d, 'l chosen_backend) Server"
  rn_sweeper :: ticker
  rn_refresher :: ticker
  rn_result :: "string option option"

definition RunWithConfigCtx_start ::
    "'d decimal_ops \<Rightarrow> clock \<Rightarrow> id_source \<Rightarrow> (string \<Rightarrow> string + 'l) \<Rightarrow> bool \<Rightarrow> Config \<Rightarrow> metrics \<Rightarrow> ('d, 'l) running" where
  "RunWithConfigCtx_start D ck ids dial has_log cfg m =
     \<lparr>rn_server = built_server D ck ids dial has_log cfg m, rn_sweeper = \<lparr>tk_stop = False, tk_returned = False\<rparr>,
      rn_refresher = \<lparr>tk_stop = False, tk_returned = False\<rparr>, rn_result = None\<rparr>"

definition RunWithConfigCtx_end :: "('l \<Rightarrow> 'l) \<Rightarrow> run_end \<Rightarrow> ('d, 'l) running \<Rightarrow> ('d, 'l) running" where
  "RunWithConfigCtx_end close e r =
     (case end_run close e (sh_locks (rn_server r)) of
        (res, locks) \<Rightarrow>
          r\<lparr>rn_server := (rn_server r)\<lparr>sh_locks := locks\<rparr>, rn_result := Some res,
            rn_sweeper := (rn_sweeper r)\<lparr>tk_stop := True\<rparr>, rn_refresher := (rn_refresher r)\<lparr>tk_stop := True\<rparr>\<rparr>)"

inductive run_step ::
    "('d, 'l chosen_backend) deps \<Rightarrow> (time \<Rightarrow> 'l chosen_backend \<Rightarrow> 'l chosen_backend \<Rightarrow> bool) \<Rightarrow> ('l \<Rightarrow> 'l) \<Rightarrow>
     ('d, 'l) running \<Rightarrow> ('d, 'l) running \<Rightarrow> bool"
  for E tick close where
  rn_request: "\<lbrakk>rn_result r = None; fresh_ids (request_draws rq) (rn_server r) (en_ids en); mono (en_clock en)\<rbrakk> \<Longrightarrow>
    run_step E tick close r (r\<lparr>rn_server := snd (serve_http E en rq (rn_server r))\<rparr>)"
| rn_sweep: "\<lbrakk>StartSweeper (rn_sweeper r, rn_server r) (t, srv); tk_stop t = tk_stop (rn_sweeper r)\<rbrakk> \<Longrightarrow>
    run_step E tick close r (r\<lparr>rn_server := srv, rn_sweeper := t\<rparr>)"
| rn_refresh: "\<lbrakk>startFeeScheduleRefresh E (rn_refresher r, rn_server r) (t, srv); tk_stop t = tk_stop (rn_refresher r)\<rbrakk> \<Longrightarrow>
    run_step E tick close r (r\<lparr>rn_server := srv, rn_refresher := t\<rparr>)"
| rn_lock_tick: "tick now (sh_locks (rn_server r)) l \<Longrightarrow>
    run_step E tick close r (r\<lparr>rn_server := (rn_server r)\<lparr>sh_locks := l\<rparr>\<rparr>)"
| rn_dispatch: "dispatch None (sh_audit (rn_server r), ()) (a, \<sigma>) \<Longrightarrow>
    run_step E tick close r (r\<lparr>rn_server := (rn_server r)\<lparr>sh_audit := a\<rparr>\<rparr>)"
| rn_end: "rn_result r = None \<Longrightarrow> run_step E tick close r (RunWithConfigCtx_end close e r)"

section \<open>Invariants of a run\<close>

text \<open>Every step but the end is a run of the server.\<close>

lemma run_step_server:
  assumes "run_step E tick close r r'"
  shows "(server_step E tick)\<^sup>*\<^sup>* (rn_server r) (rn_server r') \<or>
    (\<exists>e. rn_result r = None \<and> r' = RunWithConfigCtx_end close e r)"
  using assms
proof (induction rule: run_step.induct)
  case (rn_request r rq en)
  then show ?case using serve_http_steps [OF rn_request(2,3)] by simp
next
  case (rn_sweep r t srv)
  then show ?case using background_steps(1) [OF r_into_rtranclp [of StartSweeper, OF rn_sweep(1)]] by simp
next
  case (rn_refresh r t srv)
  then show ?case
    using background_steps(2) [OF r_into_rtranclp [of "startFeeScheduleRefresh E", OF rn_refresh(1)]] by simp
next
  case (rn_lock_tick now r l)
  then show ?case using r_into_rtranclp [of "server_step E tick", OF ss_lock_tick] by simp
next
  case (rn_dispatch r a \<sigma>)
  then show ?case using r_into_rtranclp [of "server_step E tick", OF ss_dispatch] by simp
qed blast

definition run_inv :: "('d, 'l chosen_backend) deps \<Rightarrow> ('d \<Rightarrow> rat) \<Rightarrow> Config \<Rightarrow> ('d, 'l) running \<Rightarrow> bool" where
  "run_inv E val cfg r \<longleftrightarrow>
     shared_inv chosen_inv (rn_server r) \<and> srv_cfg (rn_server r) = cfg \<and>
     all_rows (quote_typed (dp_decimal E) val (cfg_RateLockTTL cfg)) (sh_store (rn_server r)) \<and>
     (tk_stop (rn_sweeper r) \<longleftrightarrow> rn_result r \<noteq> None) \<and> (tk_stop (rn_refresher r) \<longleftrightarrow> rn_result r \<noteq> None) \<and>
     (tk_returned (rn_sweeper r) \<longrightarrow> rn_result r \<noteq> None) \<and> (tk_returned (rn_refresher r) \<longrightarrow> rn_result r \<noteq> None)"

lemma run_inv_end:
  assumes "run_inv E val cfg r"
  shows "run_inv E val cfg (RunWithConfigCtx_end close e r)"
  using assms
  by (auto simp: run_inv_def RunWithConfigCtx_end_def end_run_def closeLockBackend_def shared_inv_def
      split: run_end.split chosen_backend.split)

lemma run_step_stops:
  assumes "run_step E tick close r r'" and "\<forall>e. r' \<noteq> RunWithConfigCtx_end close e r"
  shows "rn_result r' = rn_result r \<and> tk_stop (rn_sweeper r') = tk_stop (rn_sweeper r) \<and>
    tk_stop (rn_refresher r') = tk_stop (rn_refresher r) \<and>
    (tk_returned (rn_sweeper r') \<longrightarrow> tk_returned (rn_sweeper r) \<or> tk_stop (rn_sweeper r)) \<and>
    (tk_returned (rn_refresher r') \<longrightarrow> tk_returned (rn_refresher r) \<or> tk_stop (rn_refresher r))"
  using assms
  by (induction rule: run_step.induct)
    (auto simp: StartSweeper_def startFeeScheduleRefresh_def elim: ticker_loop.cases)

lemma run_inv_step:
  assumes "run_step E tick close r r'" and "run_inv E val cfg r" and "decimal_laws (dp_decimal E) val"
    and B: "lock_states (dp_locks E) tick chosen_inv" and hook: "hook_ok (dp_poll E)"
  shows "run_inv E val cfg r'"
proof (cases "\<exists>e. r' = RunWithConfigCtx_end close e r")
  case True
  with run_inv_end [OF assms(2)] show ?thesis by blast
next
  case False
  with run_step_server [OF assms(1)] have run: "(server_step E tick)\<^sup>*\<^sup>* (rn_server r) (rn_server r')" by blast
  have inv: "shared_inv chosen_inv (rn_server r)"
    and rows: "all_rows (quote_typed (dp_decimal E) val (cfg_RateLockTTL (srv_cfg (rn_server r)))) (sh_store (rn_server r))"
    using assms(2) by (auto simp: run_inv_def)
  have "shared_inv chosen_inv (rn_server r')" using server_steps [OF run B hook inv] by blast
  with server_steps_typed [OF run assms(3) B hook inv rows] run_step_stops [OF assms(1)] False assms(2)
  show ?thesis by (auto simp: run_inv_def)
qed

lemma run_inv_steps:
  assumes "(run_step E tick close)\<^sup>*\<^sup>* r r'" and "run_inv E val cfg r" and "decimal_laws (dp_decimal E) val"
    and "lock_states (dp_locks E) tick chosen_inv" and "hook_ok (dp_poll E)"
  shows "run_inv E val cfg r'"
  using assms(1) by (induction rule: rtranclp_induct) (auto intro: run_inv_step assms)

lemma run_inv_start:
  assumes "dp_locks E = chosen_ops R"
  shows "run_inv E val cfg (RunWithConfigCtx_start D ck ids dial has_log cfg m)"
  using built_server_initial [OF assms]
  by (simp add: run_inv_def RunWithConfigCtx_start_def all_rows_def)

text \<open>After the end both goroutines can return at any time, without touching the server.\<close>

lemma run_goroutines_return:
  assumes "tk_stop (rn_sweeper r)" and "tk_stop (rn_refresher r)"
  shows "\<exists>r'. (run_step E tick close)\<^sup>*\<^sup>* r r' \<and> rn_server r' = rn_server r \<and>
    tk_returned (rn_sweeper r') \<and> tk_returned (rn_refresher r')"
proof -
  have sweep: "\<exists>r'. (run_step E tick close)\<^sup>*\<^sup>* r r' \<and> rn_server r' = rn_server r \<and>
      rn_refresher r' = rn_refresher r \<and> tk_returned (rn_sweeper r')"
  proof (cases "tk_returned (rn_sweeper r)")
    case False
    let ?t = "(rn_sweeper r)\<lparr>tk_returned := True\<rparr>"
    have "StartSweeper (rn_sweeper r, rn_server r) (?t, rn_server r)"
      unfolding StartSweeper_def by (rule tk_stopped [OF False assms(1)])
    then have "run_step E tick close r (r\<lparr>rn_server := rn_server r, rn_sweeper := ?t\<rparr>)"
      by (rule rn_sweep) simp
    then show ?thesis by (intro exI [of _ "r\<lparr>rn_server := rn_server r, rn_sweeper := ?t\<rparr>"]) auto
  qed blast
  then obtain r1 where r1: "(run_step E tick close)\<^sup>*\<^sup>* r r1" "rn_server r1 = rn_server r"
    "rn_refresher r1 = rn_refresher r" "tk_returned (rn_sweeper r1)" by blast
  show ?thesis
  proof (cases "tk_returned (rn_refresher r1)")
    case False
    let ?t = "(rn_refresher r1)\<lparr>tk_returned := True\<rparr>"
    have "startFeeScheduleRefresh E (rn_refresher r1, rn_server r1) (?t, rn_server r1)"
      unfolding startFeeScheduleRefresh_def by (rule tk_stopped [OF False]) (simp add: r1(3) assms(2))
    then have "run_step E tick close r1 (r1\<lparr>rn_server := rn_server r1, rn_refresher := ?t\<rparr>)"
      by (rule rn_refresh) simp
    with r1 show ?thesis
      by (intro exI [of _ "r1\<lparr>rn_server := rn_server r1, rn_refresher := ?t\<rparr>"]) (auto intro: rtranclp.rtrancl_into_rtrancl)
  qed (use r1 in blast)
qed

lemma run_quiet:
  assumes "run_step E tick close r r'" and "rn_result r \<noteq> None"
    and "tk_returned (rn_sweeper r)" and "tk_returned (rn_refresher r)"
  shows "sh_store (rn_server r') = sh_store (rn_server r) \<and> rn_result r' = rn_result r"
  using assms
  by (induction rule: run_step.induct)
    (auto simp: StartSweeper_def startFeeScheduleRefresh_def elim: ticker_loop.cases)


section \<open>Concrete instances\<close>


end
