(* ===== verification/Feed_Server.thy ===== *)
theory Feed_Server
  imports Quote_Lifecycle Feed
begin

text \<open>
  A server that consumes the in-process feed: \<open>startFeedConsumer\<close> of \<open>internal/feed.go\<close> runs \<open>Subscribe\<close> in a
  goroutine whose handler updates the rates of the server. Publishers, other subscribers, the handlers of
  the server and the consumer run side by side.
\<close>

section \<open>The consumer of a server\<close>

definition handle_message ::
    "('d, 'l) deps \<Rightarrow> clock \<Rightarrow> (nat list \<Rightarrow> nat list) \<Rightarrow> (nat \<Rightarrow> nat \<Rightarrow> bool) \<Rightarrow> 'd FeedMessage \<Rightarrow>
     ('d, 'l) Server \<Rightarrow> ('d, 'l) Server option" where
  "handle_message E ck iter wr msg srv =
     map_option (\<lambda>(s, h, m). srv\<lparr>sh_spot := s, srv_wsHub := h, sh_metrics := m\<rparr>)
       (consume_message (dp_decimal E) ck iter wr msg (sh_spot srv, srv_wsHub srv, sh_metrics srv))"

text \<open>
  The goroutine: not started (no feed), about to subscribe, subscribed on a channel, or returned at once from
  a closed feed. The flag is whether the returned stop function was called before it subscribed.
\<close>

datatype consumer = No_consumer | Starting bool | Consuming nat | Refused_feed

record ('d, 'l) feed_server =
  fv_srv :: "('d, 'l) Server"
  fv_feed :: "'d FeedMessage feed_world"
  fv_consumer :: consumer

definition startFeedConsumer :: "bool \<Rightarrow> consumer" where
  "startFeedConsumer has_feed = (if \<not> has_feed then No_consumer else Starting False)"

definition consumer_subscribe :: "bool \<Rightarrow> ('d, 'l) feed_server \<Rightarrow> ('d, 'l) feed_server" where
  "consumer_subscribe stopped v =
     (case Subscribe_register (fw_feed (fv_feed v)) of
        (None, f) \<Rightarrow> v\<lparr>fv_feed := (fv_feed v)\<lparr>fw_feed := f\<rparr>, fv_consumer := Refused_feed\<rparr>
      | (Some ch, f) \<Rightarrow>
          v\<lparr>fv_feed := \<lparr>fw_feed = f, fw_subs = (fw_subs (fv_feed v))(ch \<mapsto> new_sub\<lparr>sb_done := stopped\<rparr>)\<rparr>,
            fv_consumer := Consuming ch\<rparr>)"

text \<open>The returned function cancels the context of the goroutine.\<close>

definition consumer_stop :: "('d, 'l) feed_server \<Rightarrow> ('d, 'l) feed_server" where
  "consumer_stop v =
     (case fv_consumer v of
        Starting b \<Rightarrow> v\<lparr>fv_consumer := Starting True\<rparr>
      | Consuming ch \<Rightarrow>
          (case fw_subs (fv_feed v) ch of
             None \<Rightarrow> v
           | Some sb \<Rightarrow> v\<lparr>fv_feed := (fv_feed v)\<lparr>fw_subs := (fw_subs (fv_feed v))(ch \<mapsto> sb\<lparr>sb_done := True\<rparr>)\<rparr>\<rparr>)
      | _ \<Rightarrow> v)"

text \<open>The consumer takes the next message of its channel and handles it.\<close>

definition consumer_receive :: "nat \<Rightarrow> 'd FeedMessage feed_sub \<Rightarrow> 'd FeedMessage \<Rightarrow> 'd FeedMessage list \<Rightarrow>
    'd FeedMessage feed_world \<Rightarrow> 'd FeedMessage feed_world" where
  "consumer_receive ch sb msg ms w =
     w\<lparr>fw_feed := (fw_feed w)\<lparr>f_chans := (f_chans (fw_feed w))(ch := (f_chans (fw_feed w) ch)\<lparr>ch_buf := ms\<rparr>)\<rparr>,
       fw_subs := (fw_subs w)(ch \<mapsto> sb\<lparr>sb_handled := sb_handled sb @ [msg]\<rparr>)\<rparr>"

definition consumer_handled :: "('d, 'l) feed_server \<Rightarrow> 'd FeedMessage list" where
  "consumer_handled v =
     (case fv_consumer v of
        Consuming ch \<Rightarrow> (case fw_subs (fv_feed v) ch of None \<Rightarrow> [] | Some sb \<Rightarrow> sb_handled sb)
      | _ \<Rightarrow> [])"

inductive feed_server_step ::
    "('d, 'l) deps \<Rightarrow> (time \<Rightarrow> 'l \<Rightarrow> 'l \<Rightarrow> bool) \<Rightarrow> ('d, 'l) feed_server \<Rightarrow> ('d, 'l) feed_server \<Rightarrow> bool"
  for E tick where
  fv_server: "server_step E tick (fv_srv v) srv \<Longrightarrow> feed_server_step E tick v (v\<lparr>fv_srv := srv\<rparr>)"
| fv_feed: "\<lbrakk>feed_step (fv_feed v) w; consumer_handled (v\<lparr>fv_feed := w\<rparr>) = consumer_handled v\<rbrakk> \<Longrightarrow>
    feed_server_step E tick v (v\<lparr>fv_feed := w\<rparr>)"
| fv_subscribe: "fv_consumer v = Starting stopped \<Longrightarrow> feed_server_step E tick v (consumer_subscribe stopped v)"
| fv_stop: "feed_server_step E tick v (consumer_stop v)"
| fv_handle: "\<lbrakk>fv_consumer v = Consuming ch; fw_subs (fv_feed v) ch = Some sb; sb_phase sb = Looping;
      ch_buf (f_chans (fw_feed (fv_feed v)) ch) = msg # ms;
      handle_message E ck iter wr msg (fv_srv v) = Some srv\<rbrakk> \<Longrightarrow>
    feed_server_step E tick v (v\<lparr>fv_srv := srv, fv_feed := consumer_receive ch sb msg ms (fv_feed v)\<rparr>)"

section \<open>The feed does not disturb the server\<close>

lemma handle_message_total:
  assumes "decimal_laws (dp_decimal E) val"
  shows "handle_message E ck iter wr msg srv \<noteq> None"
proof -
  obtain mid where "message_mid (dp_decimal E) msg = Some mid" using message_mid_value [OF assms] by blast
  then show ?thesis by (auto simp: handle_message_def consume_message_def split: prod.split)
qed

lemma handle_message_steps:
  assumes "handle_message E ck iter wr msg srv = Some srv'"
  shows "(server_step E tick)\<^sup>*\<^sup>* srv srv'"
proof -
  obtain mid where mid: "message_mid (dp_decimal E) msg = Some mid"
    using assms by (auto simp: handle_message_def consume_message_def bind_eq_Some_conv)
  obtain a b where sp: "splitPair (fm_Pair msg) = (a, b)" by fastforce
  show ?thesis
  proof (cases "a = [] \<or> b = []")
    case True
    with assms mid sp show ?thesis by (simp add: handle_message_def consume_message_def)
  next
    case False
    let ?r = "message_rate ck a b mid msg"
    let ?srv = "srv\<lparr>sh_spot := fst (Update (later 1 ck) ?r (sh_spot srv))\<rparr>"
    have "server_step E tick srv ?srv" by (rule ss_rate)
    moreover obtain h m where "srv' = ?srv\<lparr>srv_wsHub := h, sh_metrics := m\<rparr>"
      using assms mid sp False by (auto simp: handle_message_def consume_message_def split_def)
    then have "server_step E tick ?srv srv'" using ss_observe [where srv = ?srv and h = h and m = m] by simp
    ultimately show ?thesis by (meson converse_rtranclp_into_rtranclp rtranclp.rtrancl_refl)
  qed
qed

lemma consumer_subscribe_srv [simp]: "fv_srv (consumer_subscribe stopped v) = fv_srv v"
  by (simp add: consumer_subscribe_def split: prod.split option.split)

lemma consumer_stop_srv [simp]: "fv_srv (consumer_stop v) = fv_srv v"
  by (simp add: consumer_stop_def split: consumer.split option.split)

lemma feed_server_srv:
  "feed_server_step E tick v v' \<Longrightarrow> (server_step E tick)\<^sup>*\<^sup>* (fv_srv v) (fv_srv v')"
  by (induction rule: feed_server_step.induct) (auto intro: handle_message_steps)

lemma new_sub_not_done [simp]: "new_sub\<lparr>sb_done := False\<rparr> = new_sub"
  by (simp add: new_sub_def)

lemma consumer_subscribe_feed: "feed_step\<^sup>*\<^sup>* (fv_feed v) (fv_feed (consumer_subscribe stopped v))"
proof (cases "Subscribe_register (fw_feed (fv_feed v))")
  case (Pair r f)
  show ?thesis
  proof (cases r)
    case None
    with Pair fs_refused [of "fv_feed v" f] show ?thesis by (simp add: consumer_subscribe_def r_into_rtranclp)
  next
    case (Some ch)
    let ?w = "\<lparr>fw_feed = f, fw_subs = (fw_subs (fv_feed v))(ch \<mapsto> new_sub)\<rparr>"
    have one: "feed_step (fv_feed v) ?w" using fs_subscribe [of "fv_feed v" ch f] Pair Some by simp
    moreover have "feed_step ?w (?w\<lparr>fw_subs := (fw_subs ?w)(ch \<mapsto> new_sub\<lparr>sb_done := True\<rparr>)\<rparr>)"
      by (rule fs_cancel) simp
    ultimately show ?thesis using Pair Some r_into_rtranclp [of feed_step, OF one]
      by (cases stopped) (simp_all add: consumer_subscribe_def converse_rtranclp_into_rtranclp)
  qed
qed

lemma consumer_stop_feed: "feed_step\<^sup>*\<^sup>* (fv_feed v) (fv_feed (consumer_stop v))"
  using fs_cancel [of "fv_feed v"]
  by (auto simp: consumer_stop_def split: consumer.split option.split intro: r_into_rtranclp)

lemma feed_server_feed:
  "feed_server_step E tick v v' \<Longrightarrow> feed_step\<^sup>*\<^sup>* (fv_feed v) (fv_feed v')"
proof (induction rule: feed_server_step.induct)
  case (fv_handle v ch sb msg ms ck iter wr srv)
  then show ?case
    using fs_receive [of "fv_feed v" ch sb msg ms] by (simp add: consumer_receive_def r_into_rtranclp)
qed (simp_all add: consumer_subscribe_feed consumer_stop_feed r_into_rtranclp)

text \<open>
  A server that consumes a feed runs as a server does, so what holds in every run of the server holds with a
  feed too, and the feed runs as a feed does, with the consumer as one of its subscribers. Whatever message
  is next, the consumer handles it.
\<close>

lemma server_with_feed:
  assumes "(feed_server_step E tick)\<^sup>*\<^sup>* v v'" and "decimal_laws (dp_decimal E) val"
  shows "(server_step E tick)\<^sup>*\<^sup>* (fv_srv v) (fv_srv v') \<and> feed_step\<^sup>*\<^sup>* (fv_feed v) (fv_feed v') \<and>
    handle_message E ck iter wr msg (fv_srv v') \<noteq> None"
proof -
  have "(server_step E tick)\<^sup>*\<^sup>* (fv_srv v) (fv_srv v') \<and> feed_step\<^sup>*\<^sup>* (fv_feed v) (fv_feed v')"
    using assms(1) by (induction rule: rtranclp_induct) (auto dest: feed_server_srv feed_server_feed)
  then show ?thesis using handle_message_total [OF assms(2)] by blast
qed

end
